(* ===== verification/QV_Prelude.thy ===== *)
theory QV_Prelude
  imports Main "HOL-Library.Multiset" "HOL-Library.Code_Target_Nat"
begin

text \<open>
  Shared vocabulary of the development.

  \<^item> the return codes of \<^verbatim>\<open>include/quo-vadis.h\<close> and the ways in which a
    call of the C++ code can fail to produce its result (an error code that is returned, a thrown
    \<^verbatim>\<open>qvi_rterror\<close>, a standard-library exception, an abort, undefined
    behaviour), with the sequencing combinators that stop at the first failure;
  \<^item> \<^verbatim>\<open>std::map\<close> and \<^verbatim>\<open>std::set\<close> as strictly ascending
    association lists and lists, so that iteration visits the keys in the order the C++ code sees;
  \<^item> \<^verbatim>\<open>std::sort\<close> with a user supplied comparator;
  \<^item> generic lemmas on lists and folds.
\<close>

named_theorems om_simps "characteristic equations of the ordered map and the ordered set"
named_theorems rc_simps "equations of the result combinators"

section \<open>Return codes and failures\<close>

datatype qv_rc =
    QV_SUCCESS
  | QV_SUCCESS_SHUTDOWN
  | QV_ERR
  | QV_ERR_ENV
  | QV_ERR_INTERNAL
  | QV_ERR_FILE_IO
  | QV_ERR_SYS
  | QV_ERR_OOR
  | QV_ERR_INVLD_ARG
  | QV_ERR_HWLOC
  | QV_ERR_MPI
  | QV_ERR_RPC
  | QV_ERR_NOT_SUPPORTED
  | QV_ERR_NOT_FOUND
  | QV_ERR_SPLIT
  | QV_RES_UNAVAILABLE

text \<open>
  How a call can fail: \<open>Rc c\<close> is an error code handed back with \<^verbatim>\<open>return\<close>;
  \<open>Rterror c\<close> is a thrown \<^verbatim>\<open>qvi_runtime_error(c)\<close>; \<open>StdExn\<close> is an exception
  of the standard library (\<^verbatim>\<open>std::out_of_range\<close> and the like); \<open>Abort\<close> is
  \<^verbatim>\<open>qvi_abort()\<close> or a failed assertion; \<open>Undef\<close> is undefined behaviour
  (an out-of-range read through \<^verbatim>\<open>operator[]\<close>, a division by zero).
\<close>

datatype fail = Rc qv_rc | Rterror qv_rc | StdExn | Abort | Undef

type_synonym 'a res = "fail + 'a"

fun rbind :: "'e + 'a \<Rightarrow> ('a \<Rightarrow> 'e + 'b) \<Rightarrow> 'e + 'b" where
  "rbind (Inl e) f = Inl e"
| "rbind (Inr x) f = f x"

fun rfold :: "('a \<Rightarrow> 's \<Rightarrow> 'e + 's) \<Rightarrow> 'a list \<Rightarrow> 's \<Rightarrow> 'e + 's" where
  "rfold f [] s = Inr s"
| "rfold f (x # xs) s = rbind (f x s) (rfold f xs)"

fun rmap :: "('a \<Rightarrow> 'e + 'b) \<Rightarrow> 'a list \<Rightarrow> 'e + 'b list" where
  "rmap f [] = Inr []"
| "rmap f (x # xs) = rbind (f x) (\<lambda>y. rbind (rmap f xs) (\<lambda>ys. Inr (y # ys)))"

text \<open>An \<^verbatim>\<open>int rc\<close> result that is checked against \<open>QV_SUCCESS\<close>.\<close>

definition check_rc :: "qv_rc \<Rightarrow> 'a \<Rightarrow> 'a res" where
  "check_rc c x = (if c = QV_SUCCESS then Inr x else Inl (Rc c))"

text \<open>The \<^verbatim>\<open>qvi_catch_and_return\<close> macro: exceptions become return codes.\<close>

fun qvi_catch_and_return :: "'a res \<Rightarrow> 'a res" where
  "qvi_catch_and_return (Inl (Rterror c)) = Inl (Rc c)"
| "qvi_catch_and_return (Inl StdExn) = Inl (Rc QV_ERR)"
| "qvi_catch_and_return r = r"

text \<open>
  Operations on a state that can fail: the state survives a failure, so that what a call has done before an
  error stays visible. \<open>scatch\<close> is \<^verbatim>\<open>qvi_catch_and_return\<close> around a body.
\<close>

type_synonym ('s, 'a) st_op = "'s \<Rightarrow> 'a res \<times> 's"

definition sret :: "'a \<Rightarrow> ('s, 'a) st_op" where
  "sret x S = (Inr x, S)"

definition sres :: "'a res \<Rightarrow> ('s, 'a) st_op" where
  "sres r S = (r, S)"

definition sbind :: "('s, 'a) st_op \<Rightarrow> ('a \<Rightarrow> ('s, 'b) st_op) \<Rightarrow> ('s, 'b) st_op" where
  "sbind m k S = (case m S of (Inl f, S') \<Rightarrow> (Inl f, S') | (Inr x, S') \<Rightarrow> k x S')"

definition scatch :: "('s, 'a) st_op \<Rightarrow> ('s, 'a) st_op" where
  "scatch m S = (case m S of (r, S') \<Rightarrow> (qvi_catch_and_return r, S'))"

text \<open>Clean up when an error code is returned (not when an exception passes).\<close>

definition on_rc :: "('s, 'a) st_op \<Rightarrow> ('s \<Rightarrow> 's) \<Rightarrow> ('s, 'a) st_op" where
  "on_rc m cleanup S = (case m S of (Inl (Rc c), S') \<Rightarrow> (Inl (Rc c), cleanup S') | r \<Rightarrow> r)"

lemma sbind_Inr_iff:
  "sbind m k S = (Inr y, S') \<longleftrightarrow> (\<exists>x S1. m S = (Inr x, S1) \<and> k x S1 = (Inr y, S'))"
  by (auto simp: sbind_def split: prod.splits sum.splits)

lemma on_rc_Inr_iff: "on_rc m c S = (Inr y, S') \<longleftrightarrow> m S = (Inr y, S')"
  by (auto simp: on_rc_def split: prod.splits sum.splits fail.splits)

lemma scatch_Inr_iff: "scatch m S = (Inr y, S') \<longleftrightarrow> m S = (Inr y, S')"
  by (cases "m S" rule: prod.exhaust, cases "fst (m S)")
    (auto simp: scatch_def elim!: qvi_catch_and_return.elims)

text \<open>\<^verbatim>\<open>std::vector::at\<close> and \<^verbatim>\<open>operator[]\<close>.\<close>

definition vec_at :: "'a list \<Rightarrow> nat \<Rightarrow> 'a res" where
  "vec_at xs i = (if i < length xs then Inr (xs ! i) else Inl StdExn)"

definition vec_ix :: "'a list \<Rightarrow> nat \<Rightarrow> 'a res" where
  "vec_ix xs i = (if i < length xs then Inr (xs ! i) else Inl Undef)"

definition vec_set_at :: "'a list \<Rightarrow> nat \<Rightarrow> 'a \<Rightarrow> 'a list res" where
  "vec_set_at xs i v = (if i < length xs then Inr (xs[i := v]) else Inl StdExn)"

text \<open>\<^verbatim>\<open>std::vector::resize\<close> with the value-initialised element \<open>d\<close>.\<close>

definition vec_resize :: "'a \<Rightarrow> nat \<Rightarrow> 'a list \<Rightarrow> 'a list" where
  "vec_resize d n xs = take n xs @ replicate (n - length xs) d"

lemma rbind_Inr_iff [rc_simps]: "rbind m f = Inr y \<longleftrightarrow> (\<exists>x. m = Inr x \<and> f x = Inr y)"
  by (cases m) auto

lemma rbind_Inl_iff [rc_simps]:
  "rbind m f = Inl e \<longleftrightarrow> m = Inl e \<or> (\<exists>x. m = Inr x \<and> f x = Inl e)"
  by (cases m) auto

lemma rbind_assoc: "rbind (rbind m f) g = rbind m (\<lambda>x. rbind (f x) g)"
  by (cases m) auto

lemma rbind_cong [fundef_cong]:
  "m = m' \<Longrightarrow> (\<And>x. m' = Inr x \<Longrightarrow> f x = g x) \<Longrightarrow> rbind m f = rbind m' g"
  by (cases m') auto

lemma rfold_append: "rfold f (xs @ ys) s = rbind (rfold f xs s) (rfold f ys)"
proof (induction xs arbitrary: s)
  case (Cons x xs)
  then show ?case by (cases "f x s") auto
qed simp

lemma rfold_total:
  assumes "\<And>x s. x \<in> set xs \<Longrightarrow> f x s = Inr (g x s)"
  shows "rfold f xs s = Inr (fold g xs s)"
  using assms by (induction xs arbitrary: s) auto

text \<open>The loop rule of the early-exit loop: an invariant kept by every iteration that succeeds.\<close>

lemma rfold_invariant:
  assumes "rfold f xs s = Inr t" and "I s"
    and "\<And>x u v. x \<in> set xs \<Longrightarrow> I u \<Longrightarrow> f x u = Inr v \<Longrightarrow> I v"
  shows "I t"
  using assms
proof (induction xs arbitrary: s)
  case (Cons x xs)
  from Cons.prems(1) obtain u where u: "f x s = Inr u" "rfold f xs u = Inr t"
    by (auto simp: rc_simps)
  show ?case
    using Cons.IH [OF u(2)] Cons.prems(2,3) u(1) by (meson list.set_intros)
qed simp

lemma rmap_Inr_iff:
  "rmap f xs = Inr ys \<longleftrightarrow>
    length ys = length xs \<and> (\<forall>i < length xs. f (xs ! i) = Inr (ys ! i))"
proof (induction xs arbitrary: ys)
  case (Cons x xs)
  then show ?case
    by (cases ys) (auto simp: rc_simps nth_Cons split: nat.splits)
qed auto

lemma rmap_total:
  assumes "\<And>x. x \<in> set xs \<Longrightarrow> f x = Inr (g x)"
  shows "rmap f xs = Inr (map g xs)"
  using assms by (induction xs) auto

lemma check_rc_Inr [simp]: "check_rc c x = Inr y \<longleftrightarrow> c = QV_SUCCESS \<and> x = y"
  by (auto simp: check_rc_def)

lemma vec_at_Inr [rc_simps]: "vec_at xs i = Inr v \<longleftrightarrow> i < length xs \<and> v = xs ! i"
  by (auto simp: vec_at_def)

lemma vec_ix_Inr [rc_simps]: "vec_ix xs i = Inr v \<longleftrightarrow> i < length xs \<and> v = xs ! i"
  by (auto simp: vec_ix_def)

lemma vec_set_at_Inr [rc_simps]:
  "vec_set_at xs i v = Inr ys \<longleftrightarrow> i < length xs \<and> ys = xs[i := v]"
  by (auto simp: vec_set_at_def)

lemma length_vec_resize [simp]: "length (vec_resize d n xs) = n"
  by (simp add: vec_resize_def)

lemma nth_vec_resize:
  "i < n \<Longrightarrow> vec_resize d n xs ! i = (if i < length xs then xs ! i else d)"
  by (auto simp: vec_resize_def nth_append)

section \<open>Ordered sets\<close>

text \<open>\<^verbatim>\<open>std::set<T>\<close>: the elements in ascending order, without duplicates.\<close>

type_synonym 'a oset = "'a list"

definition os_ok :: "'a::linorder oset \<Rightarrow> bool" where
  "os_ok s \<longleftrightarrow> sorted_wrt (<) s"

fun os_insert :: "'a::linorder \<Rightarrow> 'a oset \<Rightarrow> 'a oset" where
  "os_insert x [] = [x]"
| "os_insert x (y # ys) =
     (if x < y then x # y # ys else if x = y then y # ys else y # os_insert x ys)"

definition os_of_list :: "'a::linorder list \<Rightarrow> 'a oset" where
  "os_of_list xs = fold os_insert xs []"

lemma set_os_insert [simp, om_simps]: "set (os_insert x s) = insert x (set s)"
  by (induction s) auto

lemma os_ok_insert [simp, om_simps]: "os_ok s \<Longrightarrow> os_ok (os_insert x s)"
  unfolding os_ok_def by (induction s) auto

lemma os_ok_Nil [simp, om_simps]: "os_ok []"
  by (simp add: os_ok_def)

lemma os_ok_Cons: "os_ok (x # s) \<longleftrightarrow> (\<forall>y \<in> set s. x < y) \<and> os_ok s"
  by (simp add: os_ok_def)

lemma os_ok_fold_insert [simp]: "os_ok s \<Longrightarrow> os_ok (fold os_insert xs s)"
  by (induction xs arbitrary: s) auto

lemma set_fold_os_insert [simp]: "set (fold os_insert xs s) = set xs \<union> set s"
  by (induction xs arbitrary: s) auto

lemma os_of_list_ok [simp]: "os_ok (os_of_list xs)"
  by (simp add: os_of_list_def)

lemma set_os_of_list [simp]: "set (os_of_list xs) = set xs"
  by (simp add: os_of_list_def)

lemma os_ok_distinct: "os_ok s \<Longrightarrow> distinct s"
  by (simp add: os_ok_def strict_sorted_iff)

lemma os_ok_sorted: "os_ok s \<Longrightarrow> sorted s"
  by (simp add: os_ok_def strict_sorted_iff)

lemma os_eqI: "os_ok s \<Longrightarrow> os_ok t \<Longrightarrow> set s = set t \<Longrightarrow> s = t"
  by (simp add: os_ok_def strict_sorted_equal)

lemma os_insert_present: "os_ok s \<Longrightarrow> x \<in> set s \<Longrightarrow> os_insert x s = s"
  by (rule os_eqI) auto

lemma os_insert_last: "\<forall>y \<in> set s. y < x \<Longrightarrow> os_insert x s = s @ [x]"
  by (induction s) auto

lemma os_ok_upt [simp]: "os_ok [i..<j]"
  by (simp add: os_ok_def)

lemma os_ok_filter [simp]: "os_ok s \<Longrightarrow> os_ok (filter P s)"
  by (simp add: os_ok_def sorted_wrt_filter)

lemma os_ok_append:
  "os_ok (s @ t) \<longleftrightarrow> os_ok s \<and> os_ok t \<and> (\<forall>x \<in> set s. \<forall>y \<in> set t. x < y)"
  by (auto simp: os_ok_def sorted_wrt_append)

section \<open>Ordered maps\<close>

text \<open>
  \<^verbatim>\<open>std::map<K, V>\<close>: the entries in ascending key order. \<open>map_of\<close> is
  \<^verbatim>\<open>find\<close>; \<open>om_put\<close> is \<^verbatim>\<open>m[k] = v\<close>; \<open>om_insert\<close> is
  \<^verbatim>\<open>m.insert({k, v})\<close>, which keeps an existing entry; \<open>om_ref d\<close> reads
  \<^verbatim>\<open>m[k]\<close>, with \<open>d\<close> the value-initialised element for an absent key; \<open>om_upd d\<close> is
  \<^verbatim>\<open>m[k]\<close> followed by an update in place; \<open>om_at\<close> is \<^verbatim>\<open>m.at(k)\<close>.
\<close>

type_synonym ('k, 'v) omap = "('k \<times> 'v) list"

abbreviation om_keys :: "('k, 'v) omap \<Rightarrow> 'k list" where
  "om_keys m \<equiv> map fst m"

definition om_ok :: "('k::linorder, 'v) omap \<Rightarrow> bool" where
  "om_ok m \<longleftrightarrow> sorted_wrt (<) (om_keys m)"

fun om_put :: "'k::linorder \<Rightarrow> 'v \<Rightarrow> ('k, 'v) omap \<Rightarrow> ('k, 'v) omap" where
  "om_put k v [] = [(k, v)]"
| "om_put k v ((k', v') # m) =
     (if k < k' then (k, v) # (k', v') # m
      else if k = k' then (k, v) # m
      else (k', v') # om_put k v m)"

definition om_insert :: "'k::linorder \<Rightarrow> 'v \<Rightarrow> ('k, 'v) omap \<Rightarrow> ('k, 'v) omap" where
  "om_insert k v m = (case map_of m k of None \<Rightarrow> om_put k v m | Some _ \<Rightarrow> m)"

definition om_ref :: "'v \<Rightarrow> 'k \<Rightarrow> ('k, 'v) omap \<Rightarrow> 'v" where
  "om_ref d k m = (case map_of m k of None \<Rightarrow> d | Some v \<Rightarrow> v)"

definition om_upd :: "'v \<Rightarrow> 'k::linorder \<Rightarrow> ('v \<Rightarrow> 'v) \<Rightarrow> ('k, 'v) omap \<Rightarrow> ('k, 'v) omap" where
  "om_upd d k f m = om_put k (f (om_ref d k m)) m"

definition om_at :: "('k, 'v) omap \<Rightarrow> 'k \<Rightarrow> 'v res" where
  "om_at m k = (case map_of m k of None \<Rightarrow> Inl StdExn | Some v \<Rightarrow> Inr v)"

definition om_erase :: "'k \<Rightarrow> ('k, 'v) omap \<Rightarrow> ('k, 'v) omap" where
  "om_erase k m = filter (\<lambda>(k', _). k' \<noteq> k) m"

lemma map_of_om_put [simp, om_simps]: "map_of (om_put k v m) = (map_of m)(k \<mapsto> v)"
  by (induction m) (auto simp: fun_eq_iff)

lemma set_om_keys_put [simp, om_simps]: "set (om_keys (om_put k v m)) = insert k (set (om_keys m))"
  by (induction k v m rule: om_put.induct) (simp_all add: insert_commute)

lemma fst_image_om_put [simp]: "fst ` set (om_put k v m) = insert k (fst ` set m)"
  using set_om_keys_put [of k v m] by (simp only: set_map)

lemma om_ok_Nil [simp, om_simps]: "om_ok []"
  by (simp add: om_ok_def)

lemma om_ok_Cons: "om_ok ((k, v) # m) \<longleftrightarrow> (\<forall>k' \<in> set (om_keys m). k < k') \<and> om_ok m"
  by (simp add: om_ok_def)

lemma om_ok_put [simp, om_simps]: "om_ok m \<Longrightarrow> om_ok (om_put k v m)"
proof (induction m)
  case (Cons e m)
  obtain k' v' where "e = (k', v')" by (cases e)
  with Cons show ?case by (auto simp: om_ok_Cons)
qed (simp add: om_ok_def)

lemma om_ok_distinct: "om_ok m \<Longrightarrow> distinct (om_keys m)"
  by (simp add: om_ok_def strict_sorted_iff)

lemma om_put_last: "\<forall>k' \<in> set (om_keys m). k' < k \<Longrightarrow> om_put k v m = m @ [(k, v)]"
  by (induction m) auto

lemma om_ok_tabulate [simp]: "om_ok (map (\<lambda>i. (i, f i)) [a..<b])"
  by (simp add: om_ok_def comp_def)

lemma om_ok_insert [simp, om_simps]: "om_ok m \<Longrightarrow> om_ok (om_insert k v m)"
  by (simp add: om_insert_def split: option.split)

lemma map_of_om_insert [simp, om_simps]:
  "map_of (om_insert k v m) = (case map_of m k of None \<Rightarrow> (map_of m)(k \<mapsto> v) | Some _ \<Rightarrow> map_of m)"
  by (simp add: om_insert_def split: option.split)

lemma om_ok_upd [simp, om_simps]: "om_ok m \<Longrightarrow> om_ok (om_upd d k f m)"
  by (simp add: om_upd_def)

lemma map_of_om_upd [simp, om_simps]:
  "map_of (om_upd d k f m) = (map_of m)(k \<mapsto> f (om_ref d k m))"
  by (simp add: om_upd_def)

lemma om_ref_upd [simp, om_simps]:
  "om_ref d k' (om_upd d k f m) = (if k' = k then f (om_ref d k m) else om_ref d k' m)"
  by (simp add: om_ref_def)

lemma om_ref_put [simp, om_simps]:
  "om_ref d k' (om_put k v m) = (if k' = k then v else om_ref d k' m)"
  by (simp add: om_ref_def)

lemma om_ok_erase [simp, om_simps]: "om_ok m \<Longrightarrow> om_ok (om_erase k m)"
  unfolding om_ok_def om_erase_def by (induction m) auto

lemma map_of_om_erase [simp, om_simps]: "map_of (om_erase k m) = (map_of m)(k := None)"
  unfolding om_erase_def by (induction m) (auto simp: fun_eq_iff)

lemma om_at_Inr [rc_simps]: "om_at m k = Inr v \<longleftrightarrow> map_of m k = Some v"
  by (auto simp: om_at_def split: option.splits)

lemma map_of_Some_iff: "om_ok m \<Longrightarrow> map_of m k = Some v \<longleftrightarrow> (k, v) \<in> set m"
  by (simp add: om_ok_distinct)

lemma om_eqI:
  assumes "om_ok m" "om_ok m'" "map_of m = map_of m'"
  shows "m = m'"
proof (rule map_sorted_distinct_set_unique [of fst])
  show "set m = set m'"
    using assms by (metis map_of_Some_iff subrelI subset_antisym)
  show "inj_on fst (set m \<union> set m')"
    using assms \<open>set m = set m'\<close> by (simp add: distinct_map om_ok_distinct [unfolded distinct_map])
qed (use assms in \<open>auto simp: om_ok_def strict_sorted_iff\<close>)

subsection \<open>The container interface\<close>

text \<open>
  What the clients of the ordered containers rely on, stated once: a map that is built by a loop
  of assignments holds, at every visited key, the value assigned there last.
\<close>

locale assoc_container =
  fixes empty :: 'm
    and put :: "'k \<Rightarrow> 'v \<Rightarrow> 'm \<Rightarrow> 'm"
    and find :: "'m \<Rightarrow> 'k \<Rightarrow> 'v option"
    and ok :: "'m \<Rightarrow> bool"
  assumes find_empty: "find empty k = None"
    and find_put: "ok m \<Longrightarrow> find (put k v m) k' = (if k' = k then Some v else find m k')"
    and ok_empty: "ok empty"
    and ok_put: "ok m \<Longrightarrow> ok (put k v m)"
begin

lemma build_ok: "ok m \<Longrightarrow> ok (fold (\<lambda>i. put (key i) (f i)) xs m)"
  by (induction xs arbitrary: m) (simp_all add: ok_put)

lemma build_find:
  "ok m \<Longrightarrow> find (fold (\<lambda>i. put i (f i)) xs m) k = (if k \<in> set xs then Some (f k) else find m k)"
  by (induction xs arbitrary: m) (auto simp: find_put ok_put)

lemma build_find_empty:
  "find (fold (\<lambda>i. put i (f i)) xs empty) k = (if k \<in> set xs then Some (f k) else None)"
  by (simp add: build_find ok_empty find_empty)

end

interpretation om: assoc_container "[]" om_put map_of om_ok
  by unfold_locales auto

section \<open>Sorting with a comparator\<close>

text \<open>
  \<^verbatim>\<open>std::sort(first, last, lt)\<close>. The result is a permutation of the input in
  which no element is less than one before it; where the comparator leaves elements incomparable the
  standard leaves their order open, and the model keeps the input order.
\<close>

fun ins_by :: "('a \<Rightarrow> 'a \<Rightarrow> bool) \<Rightarrow> 'a \<Rightarrow> 'a list \<Rightarrow> 'a list" where
  "ins_by lt x [] = [x]"
| "ins_by lt x (y # ys) = (if lt y x then y # ins_by lt x ys else x # y # ys)"

definition std_sort :: "('a \<Rightarrow> 'a \<Rightarrow> bool) \<Rightarrow> 'a list \<Rightarrow> 'a list" where
  "std_sort lt xs = foldr (ins_by lt) xs []"

lemma mset_ins_by [simp]: "mset (ins_by lt x ys) = add_mset x (mset ys)"
  by (induction ys) auto

lemma mset_std_sort [simp]: "mset (std_sort lt xs) = mset xs"
  by (induction xs) (auto simp: std_sort_def)

lemma set_std_sort [simp]: "set (std_sort lt xs) = set xs"
  by (metis mset_std_sort set_mset_mset)

lemma length_std_sort [simp]: "length (std_sort lt xs) = length xs"
  by (metis mset_std_sort size_mset)

lemma distinct_std_sort [simp]: "distinct (std_sort lt xs) = distinct xs"
  by (metis mset_std_sort mset_eq_imp_distinct_iff)

lemma set_ins_by [simp]: "set (ins_by lt x ys) = insert x (set ys)"
  by (induction ys) auto

lemma std_sort_Nil [simp]: "std_sort lt [] = []"
  by (simp add: std_sort_def)

lemma std_sort_Cons: "std_sort lt (x # xs) = ins_by lt x (std_sort lt xs)"
  by (simp add: std_sort_def)

text \<open>The Compare requirement of the standard: a strict weak ordering.\<close>

locale compare =
  fixes lt :: "'a \<Rightarrow> 'a \<Rightarrow> bool"
  assumes lt_asym: "lt x y \<Longrightarrow> \<not> lt y x"
    and lt_split: "lt x z \<Longrightarrow> lt x y \<or> lt y z"
begin

lemma ins_by_sorted:
  "sorted_wrt (\<lambda>a b. \<not> lt b a) ys \<Longrightarrow> sorted_wrt (\<lambda>a b. \<not> lt b a) (ins_by lt x ys)"
proof (induction ys)
  case (Cons y ys)
  show ?case
  proof (cases "lt y x")
    case True
    with Cons show ?thesis by (auto dest: lt_asym)
  next
    case False
    then have "\<not> lt b x" if "b \<in> set ys" for b
      using Cons.prems that lt_split by fastforce
    with False Cons.prems show ?thesis by auto
  qed
qed simp

lemma std_sort_sorted: "sorted_wrt (\<lambda>a b. \<not> lt b a) (std_sort lt xs)"
  by (induction xs) (auto simp: std_sort_Cons ins_by_sorted)

end

text \<open>A comparator that decides any two distinct elements puts them in strictly ascending order.\<close>

locale total_compare = compare +
  assumes lt_total: "x \<noteq> y \<Longrightarrow> lt x y \<or> lt y x"
begin

lemma std_sort_strict:
  assumes "distinct xs"
  shows "sorted_wrt lt (std_sort lt xs)"
  unfolding sorted_wrt_iff_nth_less
proof (intro allI impI)
  fix i j
  assume ij: "i < j" "j < length (std_sort lt xs)"
  have "\<not> lt (std_sort lt xs ! j) (std_sort lt xs ! i)"
    using std_sort_sorted [of xs] ij by (simp add: sorted_wrt_iff_nth_less)
  moreover have "std_sort lt xs ! i \<noteq> std_sort lt xs ! j"
    using assms ij by (metis distinct_std_sort nth_eq_iff_index_eq order.strict_trans nat_less_le)
  ultimately show "lt (std_sort lt xs ! i) (std_sort lt xs ! j)"
    using lt_total by blast
qed

end

section \<open>Lists\<close>

lemma fold_append_map: "fold (\<lambda>x acc. acc @ [f x]) xs acc = acc @ map f xs"
  by (induction xs arbitrary: acc) auto

lemma distinct_concat_map:
  assumes "distinct xs" "\<And>x. x \<in> set xs \<Longrightarrow> distinct (f x)"
    and "\<And>x y. x \<in> set xs \<Longrightarrow> y \<in> set xs \<Longrightarrow> x \<noteq> y \<Longrightarrow> set (f x) \<inter> set (f y) = {}"
  shows "distinct (concat (map f xs))"
  using assms by (induction xs) fastforce+

section \<open>Even distribution\<close>

text \<open>
  The program distributes \<open>n\<close> things over \<open>m\<close> places in several spots (processing units over
  pieces, sources over destinations, vector elements over sub-vectors), always with the same sizes:
  every place gets the quotient and the first \<open>n mod m\<close> places get one more.
\<close>

definition chunk_size :: "nat \<Rightarrow> nat \<Rightarrow> nat \<Rightarrow> nat" where
  "chunk_size n m i = n div m + (if i < n mod m then 1 else 0)"

definition chunk_start :: "nat \<Rightarrow> nat \<Rightarrow> nat \<Rightarrow> nat" where
  "chunk_start n m i = i * (n div m) + min i (n mod m)"

lemma chunk_start_0 [simp]: "chunk_start n m 0 = 0"
  by (simp add: chunk_start_def)

lemma chunk_start_Suc: "chunk_start n m (Suc i) = chunk_start n m i + chunk_size n m i"
  by (auto simp: chunk_start_def chunk_size_def)

lemma chunk_start_end: "0 < m \<Longrightarrow> chunk_start n m m = n"
  using mod_less_divisor [of m n] by (simp add: chunk_start_def min.absorb2 less_imp_le)

lemma chunk_start_mono: "i \<le> j \<Longrightarrow> chunk_start n m i \<le> chunk_start n m j"
  unfolding chunk_start_def by (rule add_mono) (auto simp: min_def)

lemma chunk_start_le: "0 < m \<Longrightarrow> i \<le> m \<Longrightarrow> chunk_start n m i \<le> n"
  using chunk_start_mono [of i m n m] by (simp add: chunk_start_end)

lemma chunk_size_cases: "chunk_size n m i = n div m \<or> chunk_size n m i = n div m + 1"
  by (simp add: chunk_size_def)

lemma chunk_size_ceil:
  assumes "0 < m"
  shows "chunk_size n m i \<le> (n + m - 1) div m"
proof -
  have n: "n = m * (n div m) + n mod m" by simp
  have "n + m - 1 = m * (n div m) + (n mod m + m - 1)"
    using assms n by linarith
  then have *: "(n + m - 1) div m = n div m + (n mod m + m - 1) div m"
    using assms by (metis Groups.add_ac(2) div_mult_self4 neq0_conv)
  have "1 \<le> (n mod m + m - 1) div m" if "n mod m \<noteq> 0"
    using that assms by (subst le_div_geq) auto
  with * show ?thesis by (auto simp: chunk_size_def)
qed

lemma chunk_size_pos: "0 < m \<Longrightarrow> m \<le> n \<Longrightarrow> 0 < chunk_size n m i"
  by (simp add: chunk_size_def div_greater_zero_iff)

text \<open>Every position below the total lies in exactly one chunk.\<close>

lemma chunk_of_position:
  assumes "0 < m" "x < n"
  shows "\<exists>i < m. chunk_start n m i \<le> x \<and> x < chunk_start n m (Suc i)"
proof -
  have "\<exists>i < k. chunk_start n m i \<le> x \<and> x < chunk_start n m (Suc i)"
    if "x < chunk_start n m k" for k
    using that
  proof (induction k)
    case (Suc k)
    then show ?case
      by (cases "x < chunk_start n m k") (auto simp: less_Suc_eq)
  qed simp
  with assms show ?thesis using chunk_start_end by metis
qed

lemma chunk_position_unique:
  assumes "chunk_start n m i \<le> x" "x < chunk_start n m (Suc i)"
    and "chunk_start n m j \<le> x" "x < chunk_start n m (Suc j)"
  shows "i = j"
  using assms chunk_start_mono [of "Suc i" j n m] chunk_start_mono [of "Suc j" i n m]
  by (metis leD le_less_trans less_le_trans not_less_eq_eq nat_le_linear antisym)

section \<open>Machine sizes\<close>

text \<open>\<^verbatim>\<open>size_t\<close> and \<^verbatim>\<open>uint64_t\<close> are 64 bits wide, \<^verbatim>\<open>uint_t\<close> is 32 bits wide.\<close>

definition SIZE_MAX :: nat where
  "SIZE_MAX = 2 ^ 64 - 1"

definition wrap64 :: "nat \<Rightarrow> nat" where
  "wrap64 n = n mod 2 ^ 64"

definition wrap32 :: "nat \<Rightarrow> nat" where
  "wrap32 n = n mod 2 ^ 32"

text \<open>\<^verbatim>\<open>static_cast<int>\<close> of a \<^verbatim>\<open>size_t\<close>\<close>

definition to_int32 :: "nat \<Rightarrow> int" where
  "to_int32 n = (int n + 2 ^ 31) mod 2 ^ 32 - 2 ^ 31"

lemma to_int32_id [simp]: "n < 2 ^ 31 \<Longrightarrow> to_int32 n = int n"
  by (simp add: to_int32_def)

lemma wrap64_id [simp]: "n \<le> SIZE_MAX \<Longrightarrow> wrap64 n = n"
  by (simp add: wrap64_def SIZE_MAX_def)

lemma wrap32_id [simp]: "n < 2 ^ 32 \<Longrightarrow> wrap32 n = n"
  by (simp add: wrap32_def)

end
