(* ===== verification/QV_Utils.thy ===== *)
theory QV_Utils
  imports QV_Prelude
begin

text \<open>
  The arithmetic and container helpers of \<^verbatim>\<open>qvi-utils.h\<close> and
  \<^verbatim>\<open>qvi-utils.cc\<close>: sizes per chunk, the even split of a vector, the Cantor
  pairing, the fixed-capacity least recently used cache (with the abstract recency list it
  refines), reference counts, and the retry loop with exponential backoff used for session
  discovery.
\<close>

section \<open>Sizes\<close>

definition qvi_maxfit :: "nat \<Rightarrow> nat \<Rightarrow> nat" where
  "qvi_maxfit max_chunk space_left = min max_chunk space_left"

definition qvi_maxiperk :: "nat \<Rightarrow> nat \<Rightarrow> nat" where
  "qvi_maxiperk i k = (if k = 0 then 0 else wrap64 (i + k - 1) div k)"

lemma qvi_maxiperk_ceil: "0 < k \<Longrightarrow> i + k \<le> 2 ^ 64 \<Longrightarrow> qvi_maxiperk i k = (i + k - 1) div k"
  by (simp add: qvi_maxiperk_def SIZE_MAX_def)

text \<open>Without overflow, \<open>k\<close> places of that size hold \<open>i\<close> things, and no smaller size does.\<close>

lemma qvi_maxiperk_enough:
  assumes "0 < k" "i + k \<le> 2 ^ 64"
  shows "i \<le> k * qvi_maxiperk i k"
proof -
  have "k * ((i + k - 1) div k) + (i + k - 1) mod k = i + k - 1" by simp
  moreover have "(i + k - 1) mod k \<le> k - 1"
    using assms(1) mod_less_divisor [of k "i + k - 1"] by linarith
  ultimately have "i + k - 1 \<le> k * ((i + k - 1) div k) + (k - 1)" by linarith
  then have "i \<le> k * ((i + k - 1) div k)" using assms(1) by linarith
  then show ?thesis using assms by (simp add: qvi_maxiperk_ceil)
qed

lemma qvi_maxiperk_least:
  assumes "0 < k" "i + k \<le> 2 ^ 64" "i \<le> k * c"
  shows "qvi_maxiperk i k \<le> c"
proof -
  have "(i + k - 1) div k \<le> (k * c + (k - 1)) div k"
    using assms by (intro div_le_mono) linarith
  also have "\<dots> = c" using assms(1) by (subst div_mult_self4) auto
  finally show ?thesis using assms by (simp add: qvi_maxiperk_ceil)
qed

section \<open>Splitting a vector\<close>

definition vector_split_body ::
  "nat \<Rightarrow> nat \<Rightarrow> nat \<Rightarrow> 'a list \<times> 'a list list \<Rightarrow> 'a list \<times> 'a list list" where
  "vector_split_body base_chunk_size remainder i st =
     (case st of (current_it, result) \<Rightarrow>
        let csz = base_chunk_size + (if i < remainder then 1 else 0)
        in (drop csz current_it, result @ [take csz current_it]))"

definition qvi_vector_split :: "'a list \<Rightarrow> nat \<Rightarrow> 'a list list" where
  "qvi_vector_split vec npieces =
     (let ntotal = length vec in
      if npieces = 0 \<or> ntotal = 0 \<or> npieces > ntotal then []
      else snd (fold (vector_split_body (ntotal div npieces) (ntotal mod npieces))
                     [0..<npieces] (vec, [])))"

lemma vector_split_body_eq:
  "vector_split_body (n div m) (n mod m) i (it, r) =
     (drop (chunk_size n m i) it, r @ [take (chunk_size n m i) it])"
  by (simp add: vector_split_body_def chunk_size_def Let_def)

lemma vector_split_loop:
  "fold (vector_split_body (n div m) (n mod m)) [0..<k] (vec, []) =
     (drop (chunk_start n m k) vec,
      map (\<lambda>i. take (chunk_size n m i) (drop (chunk_start n m i) vec)) [0..<k])"
  by (induction k) (simp_all add: vector_split_body_eq chunk_start_Suc add.commute)

lemma qvi_vector_split_eq:
  assumes "0 < k" "k \<le> length vec"
  shows "qvi_vector_split vec k =
    map (\<lambda>i. take (chunk_size (length vec) k i) (drop (chunk_start (length vec) k i) vec)) [0..<k]"
proof -
  have "vec \<noteq> []" using assms by auto
  with assms show ?thesis
    by (simp add: qvi_vector_split_def Let_def vector_split_loop)
qed

lemma concat_chunks:
  "concat (map (\<lambda>i. take (chunk_size n m i) (drop (chunk_start n m i) vec)) [0..<k]) =
     take (chunk_start n m k) vec"
  by (induction k) (simp_all add: chunk_start_Suc take_add)

section \<open>Cantor pairing\<close>

definition qvi_cantor_pairing :: "nat \<Rightarrow> nat \<Rightarrow> nat" where
  "qvi_cantor_pairing a b =
     (let sum = wrap32 (a + b)
      in wrap64 (wrap64 (sum * (sum + 1)) div 2 + b))"

definition triangle :: "nat \<Rightarrow> nat" where
  "triangle s = (s * (s + 1)) div 2"

lemma triangle_Suc: "triangle (Suc s) = triangle s + Suc s"
  by (simp add: triangle_def)

lemma triangle_mono: "s \<le> t \<Longrightarrow> triangle s \<le> triangle t"
  unfolding triangle_def by (intro div_le_mono mult_le_mono) auto

lemma triangle_inj:
  assumes "triangle s + b = triangle t + d" "b \<le> s" "d \<le> t"
  shows "s = t \<and> b = d"
proof -
  have "\<not> s < t"
    using assms triangle_mono [of "Suc s" t] by (auto simp: triangle_Suc)
  moreover have "\<not> t < s"
    using assms triangle_mono [of "Suc t" s] by (auto simp: triangle_Suc)
  ultimately show ?thesis using assms by auto
qed

lemma qvi_cantor_pairing_triangle:
  assumes "a + b < 2 ^ 32"
  shows "qvi_cantor_pairing a b = triangle (a + b) + b"
proof -
  have "(a + b) * (a + b + 1) \<le> (2 ^ 32 - 1) * 2 ^ 32"
    using assms by (intro mult_mono) auto
  then have 1: "(a + b) * (a + b + 1) \<le> 2 ^ 64 - 2 ^ 32" by simp
  then have 2: "wrap64 ((a + b) * (a + b + 1)) = (a + b) * (a + b + 1)"
    by (intro wrap64_id) (simp add: SIZE_MAX_def)
  have "triangle (a + b) \<le> 2 ^ 63" using 1 by (simp add: triangle_def)
  then have "triangle (a + b) + b \<le> SIZE_MAX"
    using assms by (simp add: SIZE_MAX_def)
  with 2 assms show ?thesis
    by (simp add: qvi_cantor_pairing_def Let_def triangle_def)
qed

section \<open>Reference counting\<close>

text \<open>
  \<^verbatim>\<open>qvi_refc\<close>. The state is the counter of a live object; \<open>release\<close> returns
  \<open>None\<close> once it has deleted the object, and fails its assertion on a counter that is not positive.
\<close>

definition refc_new :: int where
  "refc_new = 1"

definition retain :: "int \<Rightarrow> int" where
  "retain refc = refc + 1"

definition release :: "int \<Rightarrow> int option res" where
  "release refc =
     (if refc > 0 then (if refc - 1 = 0 then Inr None else Inr (Some (refc - 1))) else Inl Abort)"

text \<open>A trace of calls on one object: \<open>True\<close> retains, \<open>False\<close> releases.\<close>

fun refc_run :: "bool list \<Rightarrow> int option \<Rightarrow> int option res" where
  "refc_run [] st = Inr st"
| "refc_run (op # ops) None = Inl Undef"
| "refc_run (op # ops) (Some refc) =
     (if op then refc_run ops (Some (retain refc)) else rbind (release refc) (refc_run ops))"

lemma refc_run_balance:
  assumes "0 < c" "\<forall>k < length ops. int (length (filter Not (take k ops))) < c + int (length (filter (\<lambda>b. b) (take k ops)))"
  shows "refc_run ops (Some c) =
     Inr (let d = c + int (length (filter (\<lambda>b. b) ops)) - int (length (filter Not ops))
          in if d = 0 then None else Some d)"
  using assms
proof (induction ops arbitrary: c)
  case (Cons op ops)
  have step: "int (length (filter Not (take k ops))) + (if op then 0 else 1) <
      c + int (length (filter (\<lambda>b. b) (take k ops))) + (if op then 1 else 0)" if "k < length ops" for k
    using Cons.prems(2) [rule_format, of "Suc k"] that by (auto split: if_splits)
  show ?case
  proof (cases op)
    case True
    have "refc_run ops (Some (c + 1)) =
       Inr (let d = (c + 1) + int (length (filter (\<lambda>b. b) ops)) - int (length (filter Not ops))
          in if d = 0 then None else Some d)"
      using Cons.prems(1) step True by (intro Cons.IH) (auto simp: algebra_simps)
    then show ?thesis using True by (simp add: retain_def algebra_simps)
  next
    case False
    show ?thesis
    proof (cases "c = 1")
      case True
      have "ops = []"
        using step [of 0] False True by (cases ops) auto
      then show ?thesis using True False by (simp add: release_def)
    next
      case ne: False
      have "refc_run ops (Some (c - 1)) =
         Inr (let d = (c - 1) + int (length (filter (\<lambda>b. b) ops)) - int (length (filter Not ops))
            in if d = 0 then None else Some d)"
        using Cons.prems(1) step False ne by (intro Cons.IH) (auto simp: algebra_simps)
      then show ?thesis using False ne Cons.prems(1) by (simp add: release_def algebra_simps)
    qed
  qed
qed simp

section \<open>The least recently used cache\<close>

text \<open>
  The cache keeps its entries in a linked list, most recent first, and a hash map from keys to list
  positions. An iterator of \<^verbatim>\<open>std::list\<close> stays with its node when the node is moved,
  so nodes are addresses: \<open>m_cache_list\<close> holds the addresses in list order, \<open>nodes\<close> the pair stored
  at each address, \<open>m_cache_map\<close> the address of each key. \<open>fresh\<close> is the address of the next node.
\<close>

record ('k, 'v) qvi_lru_cache =
  m_capacity :: nat
  m_cache_list :: "nat list"
  nodes :: "nat \<rightharpoonup> 'k \<times> 'v"
  m_cache_map :: "'k \<rightharpoonup> nat"
  fresh :: nat

definition qvi_lru_cache_new :: "nat \<Rightarrow> ('k, 'v) qvi_lru_cache" where
  "qvi_lru_cache_new capacity =
     \<lparr>m_capacity = capacity, m_cache_list = [], nodes = Map.empty, m_cache_map = Map.empty, fresh = 0\<rparr>"

text \<open>\<^verbatim>\<open>splice\<close> of a node of the list to its front.\<close>

definition splice_front :: "nat \<Rightarrow> nat list \<Rightarrow> nat list" where
  "splice_front a l = a # remove1 a l"

text \<open>Removal of the last element; on an empty list \<^verbatim>\<open>back()\<close> is undefined.\<close>

definition lru_evict :: "('k, 'v) qvi_lru_cache \<Rightarrow> ('k, 'v) qvi_lru_cache res" where
  "lru_evict c =
     (if m_cache_list c = [] then Inl Undef
      else let a = last (m_cache_list c) in
        (case nodes c a of
           None \<Rightarrow> Inl Undef
         | Some (k, v) \<Rightarrow>
             Inr (c\<lparr>m_cache_map := (m_cache_map c)(k := None),
                    m_cache_list := butlast (m_cache_list c),
                    nodes := (nodes c)(a := None)\<rparr>)))"

definition lru_put :: "'k \<Rightarrow> 'v \<Rightarrow> ('k, 'v) qvi_lru_cache \<Rightarrow> ('k, 'v) qvi_lru_cache res" where
  "lru_put key val c =
     (case m_cache_map c key of
        Some a \<Rightarrow>
          (case nodes c a of
             None \<Rightarrow> Inl Undef
           | Some (k, _) \<Rightarrow>
               Inr (c\<lparr>nodes := (nodes c)(a \<mapsto> (k, val)),
                      m_cache_list := splice_front a (m_cache_list c)\<rparr>))
      | None \<Rightarrow>
          rbind (if length (m_cache_list c) = m_capacity c then lru_evict c else Inr c) (\<lambda>c.
            Inr (c\<lparr>m_cache_list := fresh c # m_cache_list c,
                   nodes := (nodes c)(fresh c \<mapsto> (key, val)),
                   m_cache_map := (m_cache_map c)(key \<mapsto> fresh c),
                   fresh := Suc (fresh c)\<rparr>)))"

definition lru_get :: "'k \<Rightarrow> ('k, 'v) qvi_lru_cache \<Rightarrow> ('v option \<times> ('k, 'v) qvi_lru_cache) res" where
  "lru_get key c =
     (case m_cache_map c key of
        None \<Rightarrow> Inr (None, c)
      | Some a \<Rightarrow>
          (case nodes c a of
             None \<Rightarrow> Inl Undef
           | Some (_, v) \<Rightarrow> Inr (Some v, c\<lparr>m_cache_list := splice_front a (m_cache_list c)\<rparr>)))"

subsection \<open>The specification: a bounded recency list\<close>

type_synonym ('k, 'v) recency = "('k \<times> 'v) list"

definition spec_put :: "nat \<Rightarrow> 'k \<Rightarrow> 'v \<Rightarrow> ('k, 'v) recency \<Rightarrow> ('k, 'v) recency" where
  "spec_put cap key val l = take cap ((key, val) # filter (\<lambda>(k, _). k \<noteq> key) l)"

definition spec_get :: "'k \<Rightarrow> ('k, 'v) recency \<Rightarrow> 'v option \<times> ('k, 'v) recency" where
  "spec_get key l =
     (case map_of l key of
        None \<Rightarrow> (None, l)
      | Some v \<Rightarrow> (Some v, (key, v) # filter (\<lambda>(k, _). k \<noteq> key) l))"

definition lru_abs :: "('k, 'v) qvi_lru_cache \<Rightarrow> ('k, 'v) recency" where
  "lru_abs c = map (\<lambda>a. the (nodes c a)) (m_cache_list c)"

definition lru_ok :: "('k, 'v) qvi_lru_cache \<Rightarrow> bool" where
  "lru_ok c \<longleftrightarrow>
     0 < m_capacity c \<and> length (m_cache_list c) \<le> m_capacity c \<and>
     distinct (m_cache_list c) \<and> (\<forall>a \<in> set (m_cache_list c). a < fresh c \<and> nodes c a \<noteq> None) \<and>
     (\<forall>k a. m_cache_map c k = Some a \<longleftrightarrow> a \<in> set (m_cache_list c) \<and> (\<exists>v. nodes c a = Some (k, v)))"

lemma lru_ok_new: "0 < n \<Longrightarrow> lru_ok (qvi_lru_cache_new n)"
  by (simp add: lru_ok_def qvi_lru_cache_new_def)

lemma lru_abs_new [simp]: "lru_abs (qvi_lru_cache_new n) = []"
  by (simp add: lru_abs_def qvi_lru_cache_new_def)

lemma lru_node:
  assumes "lru_ok c" "a \<in> set (m_cache_list c)"
  obtains k v where "nodes c a = Some (k, v)" "m_cache_map c k = Some a"
proof -
  obtain k v where "nodes c a = Some (k, v)"
    using assms unfolding lru_ok_def by (metis option.exhaust surj_pair)
  then show thesis using assms that unfolding lru_ok_def by blast
qed

lemma lru_find:
  assumes "lru_ok c" "m_cache_map c k = Some a"
  obtains v where "nodes c a = Some (k, v)" "a \<in> set (m_cache_list c)"
  using assms unfolding lru_ok_def by blast

lemma lru_abs_keys:
  assumes "lru_ok c" "a \<in> set (m_cache_list c)" "b \<in> set (m_cache_list c)"
    and "fst (the (nodes c a)) = fst (the (nodes c b))"
  shows "a = b"
proof -
  obtain k v where "nodes c a = Some (k, v)" "m_cache_map c k = Some a"
    using lru_node [OF assms(1,2)] .
  moreover obtain k' v' where "nodes c b = Some (k', v')" "m_cache_map c k' = Some b"
    using lru_node [OF assms(1,3)] .
  ultimately show ?thesis using assms(4) by simp
qed

text \<open>Dropping the node of a key from the list drops its entry from the recency list.\<close>

lemma lru_abs_remove:
  assumes "lru_ok c" "a \<in> set (m_cache_list c)" "fst (the (nodes c a)) = key"
  shows "map (\<lambda>b. the (nodes c b)) (remove1 a (m_cache_list c)) = filter (\<lambda>(k, _). k \<noteq> key) (lru_abs c)"
proof -
  have "distinct (m_cache_list c)" using assms(1) by (simp add: lru_ok_def)
  then have "remove1 a (m_cache_list c) = filter (\<lambda>b. a \<noteq> b) (m_cache_list c)"
    by (simp add: distinct_remove1_removeAll removeAll_filter_not_eq)
  also have "\<dots> = filter (\<lambda>b. fst (the (nodes c b)) \<noteq> key) (m_cache_list c)"
    using lru_abs_keys [OF assms(1,2)] assms(3) by (intro filter_cong) auto
  finally show ?thesis by (simp add: lru_abs_def filter_map comp_def case_prod_beta)
qed

lemma lru_absent:
  assumes "lru_ok c" "m_cache_map c key = None"
  shows "map_of (lru_abs c) key = None" "filter (\<lambda>(k, _). k \<noteq> key) (lru_abs c) = lru_abs c"
proof -
  have "fst e \<noteq> key" if "e \<in> set (lru_abs c)" for e
  proof -
    obtain a where "a \<in> set (m_cache_list c)" "e = the (nodes c a)" using \<open>e \<in> _\<close> by (auto simp: lru_abs_def)
    then show ?thesis using lru_node [OF assms(1), of a] assms(2) by (metis fst_conv option.distinct(1) option.sel)
  qed
  then show "map_of (lru_abs c) key = None" "filter (\<lambda>(k, _). k \<noteq> key) (lru_abs c) = lru_abs c"
    by (force simp: map_of_eq_None_iff, force simp: filter_id_conv)
qed

lemma lru_present:
  assumes "lru_ok c" "a \<in> set (m_cache_list c)" "nodes c a = Some (key, v)"
  shows "map_of (lru_abs c) key = Some v"
proof -
  have "(key, v) \<in> set (lru_abs c)" using assms by (force simp: lru_abs_def)
  moreover have "inj_on (\<lambda>a. fst (the (nodes c a))) (set (m_cache_list c))"
    using lru_abs_keys [OF assms(1)] by (auto intro: inj_onI)
  moreover have "distinct (m_cache_list c)" using assms(1) by (simp add: lru_ok_def)
  ultimately show ?thesis by (simp add: lru_abs_def distinct_map comp_def)
qed

text \<open>Moving the node of a key to the front, with a new value.\<close>

lemma lru_touch:
  assumes ok: "lru_ok c" and a: "m_cache_map c key = Some a" "nodes c a = Some (key, v)" "a \<in> set (m_cache_list c)"
    and c': "c' = c\<lparr>nodes := (nodes c)(a \<mapsto> (key, w)), m_cache_list := splice_front a (m_cache_list c)\<rparr>"
  shows "lru_ok c'" "lru_abs c' = (key, w) # filter (\<lambda>(k, _). k \<noteq> key) (lru_abs c)"
proof -
  have d: "distinct (m_cache_list c)" using ok by (simp add: lru_ok_def)
  have s: "set (splice_front a (m_cache_list c)) = set (m_cache_list c)"
    using a(3) d by (auto simp: splice_front_def)
  have len: "length (splice_front a (m_cache_list c)) = length (m_cache_list c)"
    using a(3) length_pos_if_in_set [OF a(3)] by (simp add: splice_front_def length_remove1)
  show "lru_ok c'"
    unfolding lru_ok_def c'
  proof (intro conjI)
    show "\<forall>k aa. m_cache_map (c\<lparr>nodes := (nodes c)(a \<mapsto> (key, w)), m_cache_list := splice_front a (m_cache_list c)\<rparr>) k = Some aa \<longleftrightarrow>
       aa \<in> set (m_cache_list (c\<lparr>nodes := (nodes c)(a \<mapsto> (key, w)), m_cache_list := splice_front a (m_cache_list c)\<rparr>)) \<and>
       (\<exists>v. nodes (c\<lparr>nodes := (nodes c)(a \<mapsto> (key, w)), m_cache_list := splice_front a (m_cache_list c)\<rparr>) aa = Some (k, v))"
      using ok a unfolding lru_ok_def by (auto simp: s)
  qed (use ok d in \<open>auto simp: lru_ok_def s len\<close>, auto simp: splice_front_def lru_ok_def)
  have "a \<notin> set (remove1 a (m_cache_list c))" using d by simp
  then have "map (\<lambda>b. the (((nodes c)(a \<mapsto> (key, w))) b)) (remove1 a (m_cache_list c)) =
     map (\<lambda>b. the (nodes c b)) (remove1 a (m_cache_list c))" by (intro map_cong) auto
  with lru_abs_remove [OF ok a(3)] a(2)
  show "lru_abs c' = (key, w) # filter (\<lambda>(k, _). k \<noteq> key) (lru_abs c)"
    by (simp add: c' lru_abs_def splice_front_def)
qed

lemma lru_get_refines:
  assumes "lru_ok c"
  shows "\<exists>r c'. lru_get key c = Inr (r, c') \<and> lru_ok c' \<and> m_capacity c' = m_capacity c \<and>
    spec_get key (lru_abs c) = (r, lru_abs c')"
proof (cases "m_cache_map c key")
  case None
  then show ?thesis using assms lru_absent [OF assms None] by (simp add: lru_get_def spec_get_def)
next
  case (Some a)
  obtain v where v: "nodes c a = Some (key, v)" "a \<in> set (m_cache_list c)"
    using lru_find [OF assms Some] .
  let ?c = "c\<lparr>m_cache_list := splice_front a (m_cache_list c)\<rparr>"
  have "?c = c\<lparr>nodes := (nodes c)(a \<mapsto> (key, v)), m_cache_list := splice_front a (m_cache_list c)\<rparr>"
    using v by (simp add: fun_upd_idem)
  from lru_touch [OF assms Some v this] show ?thesis
    using Some v lru_present [OF assms v(2,1)] by (simp add: lru_get_def spec_get_def)
qed

lemma lru_evict_refines:
  assumes ok: "lru_ok c" and full: "length (m_cache_list c) = m_capacity c"
  shows "\<exists>c'. lru_evict c = Inr c' \<and> lru_ok c' \<and> m_capacity c' = m_capacity c \<and>
    lru_abs c' = butlast (lru_abs c) \<and> (\<forall>k. m_cache_map c k = None \<longrightarrow> m_cache_map c' k = None) \<and>
    length (m_cache_list c') < m_capacity c'"
proof -
  let ?l = "m_cache_list c" and ?a = "last (m_cache_list c)"
  have ne: "?l \<noteq> []" using assms by (auto simp: lru_ok_def)
  obtain k v where a: "nodes c ?a = Some (k, v)" "m_cache_map c k = Some ?a"
    using lru_node [OF ok] ne by (metis last_in_set)
  have d: "distinct ?l" using ok by (simp add: lru_ok_def)
  have l: "?l = butlast ?l @ [?a]" using ne by simp
  have na: "?a \<notin> set (butlast ?l)" 
    using d distinct_append [of "butlast ?l" "[?a]"] ne by simp
  have sl: "set ?l = insert ?a (set (butlast ?l))" by (subst l) simp
  let ?c = "c\<lparr>m_cache_map := (m_cache_map c)(k := None), m_cache_list := butlast ?l, nodes := (nodes c)(?a := None)\<rparr>"
  have e: "lru_evict c = Inr ?c" using ne a by (simp add: lru_evict_def Let_def)
  have m: "m_cache_map c k' = Some b \<longleftrightarrow> b \<in> set ?l \<and> (\<exists>v. nodes c b = Some (k', v))" for k' b
    using ok by (simp add: lru_ok_def)
  have "lru_ok ?c"
    unfolding lru_ok_def
  proof (intro conjI allI)
    fix k' b
    show "m_cache_map ?c k' = Some b \<longleftrightarrow> b \<in> set (m_cache_list ?c) \<and> (\<exists>v. nodes ?c b = Some (k', v))"
      using m [of k' b] m [of k b] a na sl by auto
  qed (use ok d na sl in \<open>auto simp: lru_ok_def distinct_butlast\<close>)
  moreover have "lru_abs ?c = butlast (lru_abs c)"
    using na by (auto simp: lru_abs_def map_butlast [symmetric])
  ultimately show ?thesis using e full ne ok by (auto simp: lru_ok_def)
qed

lemma lru_add_refines:
  assumes ok: "lru_ok c" and k: "m_cache_map c key = None" and sp: "length (m_cache_list c) < m_capacity c"
    and c': "c' = c\<lparr>m_cache_list := fresh c # m_cache_list c, nodes := (nodes c)(fresh c \<mapsto> (key, val)),
                   m_cache_map := (m_cache_map c)(key \<mapsto> fresh c), fresh := Suc (fresh c)\<rparr>"
  shows "lru_ok c' \<and> lru_abs c' = (key, val) # lru_abs c"
proof -
  have nf: "fresh c \<notin> set (m_cache_list c)" using ok by (auto simp: lru_ok_def)
  have m: "m_cache_map c k' = Some b \<longleftrightarrow> b \<in> set (m_cache_list c) \<and> (\<exists>v. nodes c b = Some (k', v))" for k' b
    using ok by (simp add: lru_ok_def)
  have "lru_ok c'"
    unfolding lru_ok_def
  proof (intro conjI allI)
    fix k' b
    show "m_cache_map c' k' = Some b \<longleftrightarrow> b \<in> set (m_cache_list c') \<and> (\<exists>v. nodes c' b = Some (k', v))"
      using m [of k' b] m [of key b] nf k by (auto simp: c')
  qed (use ok nf sp in \<open>auto simp: lru_ok_def c' less_Suc_eq\<close>)
  moreover have "lru_abs c' = (key, val) # lru_abs c"
    using nf by (auto simp: lru_abs_def c')
  ultimately show ?thesis ..
qed

lemma lru_put_refines:
  assumes ok: "lru_ok c"
  shows "\<exists>c'. lru_put key val c = Inr c' \<and> lru_ok c' \<and> m_capacity c' = m_capacity c \<and>
    lru_abs c' = spec_put (m_capacity c) key val (lru_abs c)"
proof (cases "m_cache_map c key")
  case (Some a)
  obtain v where v: "nodes c a = Some (key, v)" "a \<in> set (m_cache_list c)"
    using lru_find [OF ok Some] .
  note t = lru_touch [OF ok Some v refl, of val]
  have "length (lru_abs (c\<lparr>nodes := (nodes c)(a \<mapsto> (key, val)), m_cache_list := splice_front a (m_cache_list c)\<rparr>)) \<le> m_capacity c"
    using t(1) by (simp add: lru_ok_def lru_abs_def)
  with t Some v show ?thesis by (simp add: lru_put_def spec_put_def)
next
  case None
  note ab = lru_absent [OF ok None]
  have le: "length (lru_abs c) = length (m_cache_list c)" by (simp add: lru_abs_def)
  show ?thesis
  proof (cases "length (m_cache_list c) = m_capacity c")
    case True
    obtain c1 where c1: "lru_evict c = Inr c1" "lru_ok c1" "m_capacity c1 = m_capacity c"
      "lru_abs c1 = butlast (lru_abs c)" "m_cache_map c1 key = None" "length (m_cache_list c1) < m_capacity c1"
      using lru_evict_refines [OF ok True] None by blast
    have "0 < m_capacity c" using ok by (simp add: lru_ok_def)
    then have "take (m_capacity c) ((key, val) # lru_abs c) = (key, val) # butlast (lru_abs c)"
      using le True by (cases "m_capacity c") (simp_all add: butlast_conv_take)
    with lru_add_refines [OF c1(2,5,6) refl, of val] c1(1,3,4) None True ab(2) show ?thesis
      by (simp add: lru_put_def spec_put_def)
  next
    case False
    then have "length (m_cache_list c) < m_capacity c" using ok by (simp add: lru_ok_def)
    with lru_add_refines [OF ok None this refl, of val] None le ab(2) False show ?thesis
      by (simp add: lru_put_def spec_put_def)
  qed
qed

section \<open>Properties\<close>

text \<open>\<^verbatim>\<open>qvi_maxiperk(i, k)\<close> is the smallest size with which \<open>k\<close> places hold \<open>i\<close> things,
  as long as \<open>i + k\<close> does not overflow.\<close>

theorem qvi_maxiperk_smallest:
  assumes "0 < k" "i + k \<le> 2 ^ 64"
  shows "i \<le> k * qvi_maxiperk i k \<and> (\<forall>c. i \<le> k * c \<longrightarrow> qvi_maxiperk i k \<le> c)"
  using qvi_maxiperk_enough [OF assms] qvi_maxiperk_least [OF assms] by blast

theorem qvi_maxiperk_smallest_witness:
  "qvi_maxiperk 10 4 = 3 \<and> 10 \<le> 4 * qvi_maxiperk 10 4"
  using qvi_maxiperk_smallest [of 4 10] by (simp add: qvi_maxiperk_def wrap64_def)

text \<open>\<^verbatim>\<open>qvi_vector_split\<close> cuts a vector into exactly the requested number of pieces whose
  concatenation is the vector; the first \<open>length mod npieces\<close> pieces have one element more than the
  others, so sizes differ by at most one and no piece is empty.\<close>

theorem qvi_vector_split_partition:
  assumes "0 < k" "k \<le> length vec"
  shows "length (qvi_vector_split vec k) = k \<and> concat (qvi_vector_split vec k) = vec \<and>
    (\<forall>i < k. length (qvi_vector_split vec k ! i) = length vec div k + (if i < length vec mod k then 1 else 0) \<and>
             qvi_vector_split vec k ! i \<noteq> [])"
proof (intro conjI allI impI)
  note eq = qvi_vector_split_eq [OF assms]
  show "length (qvi_vector_split vec k) = k" by (simp add: eq)
  show "concat (qvi_vector_split vec k) = vec"
    using concat_chunks [of "length vec" k vec k] assms by (simp add: eq chunk_start_end)
  fix i assume i: "i < k"
  have "chunk_start (length vec) k (Suc i) \<le> length vec" using i assms by (intro chunk_start_le) auto
  then have "chunk_start (length vec) k i + chunk_size (length vec) k i \<le> length vec"
    by (simp add: chunk_start_Suc)
  then have len: "length (qvi_vector_split vec k ! i) = chunk_size (length vec) k i" using i by (simp add: eq)
  then show "length (qvi_vector_split vec k ! i) = length vec div k + (if i < length vec mod k then 1 else 0)"
    by (simp add: chunk_size_def)
  show "qvi_vector_split vec k ! i \<noteq> []" using chunk_size_pos [OF assms, of i] len by force
qed

theorem qvi_vector_split_partition_witness:
  "qvi_vector_split [1, 2, 3, 4, 5::nat] 2 = [[1, 2, 3], [4, 5]] \<and>
   concat (qvi_vector_split [1, 2, 3, 4, 5::nat] 2) = [1, 2, 3, 4, 5]"
  using qvi_vector_split_partition [of 2 "[1, 2, 3, 4, 5::nat]"]
  by (simp add: qvi_vector_split_def vector_split_body_def Let_def upt_rec)

text \<open>The Cantor pairing identifies its arguments, provided that their sum fits 32 bits.\<close>

theorem qvi_cantor_pairing_injective:
  assumes "a + b < 2 ^ 32" "c + d < 2 ^ 32" "qvi_cantor_pairing a b = qvi_cantor_pairing c d"
  shows "a = c \<and> b = d"
  using triangle_inj [of "a + b" b "c + d" d] assms by (simp add: qvi_cantor_pairing_triangle)

theorem qvi_cantor_pairing_injective_witness:
  "qvi_cantor_pairing 3 4 = 32 \<and> (3 :: nat) = 3 \<and> (4 :: nat) = 4"
  using qvi_cantor_pairing_injective [of 3 4 3 4] by (simp add: qvi_cantor_pairing_def wrap32_def wrap64_def)


text \<open>C32: the cache implements the bounded recency list: on a consistent cache with positive capacity
  \<^verbatim>\<open>put\<close> and \<^verbatim>\<open>get\<close> never touch a dangling node, keep the list and the
  map consistent, and act on the recency list as the specification says (the least recently used
  entry is the one that is evicted).\<close>

theorem lru_cache_refines_recency_list:
  assumes "lru_ok c"
  shows "(\<exists>c'. lru_put key val c = Inr c' \<and> lru_ok c' \<and> lru_abs c' = spec_put (m_capacity c) key val (lru_abs c)) \<and>
    (\<exists>r c'. lru_get key c = Inr (r, c') \<and> lru_ok c' \<and> spec_get key (lru_abs c) = (r, lru_abs c'))"
  using lru_put_refines [OF assms, of key val] lru_get_refines [OF assms, of key] by blast

theorem lru_cache_refines_recency_list_witness:
  "\<exists>c'. lru_put (1::nat) (7::nat) (qvi_lru_cache_new 2) = Inr c' \<and> lru_ok c' \<and> lru_abs c' = [(1, 7)]"
  using lru_cache_refines_recency_list [of "qvi_lru_cache_new 2 :: (nat, nat) qvi_lru_cache" 1 7] lru_ok_new [of 2]
  by (auto simp: spec_put_def qvi_lru_cache_new_def lru_abs_def)

text \<open>A reference-counted object is deleted by exactly the release that balances its creation
  and all retains; until then it stays alive, and no call fails its assertion.\<close>

theorem refc_deleted_when_balanced:
  assumes "\<forall>k < length ops. length (filter Not (take k ops)) \<le> length (filter (\<lambda>b. b) (take k ops))"
  shows "refc_run ops (Some refc_new) =
    Inr (if length (filter Not ops) = Suc (length (filter (\<lambda>b. b) ops)) then None
         else Some (1 + int (length (filter (\<lambda>b. b) ops)) - int (length (filter Not ops))))"
proof -
  have "refc_run ops (Some 1) =
     Inr (let d = 1 + int (length (filter (\<lambda>b. b) ops)) - int (length (filter Not ops))
          in if d = 0 then None else Some d)"
    using assms by (intro refc_run_balance) auto
  then show ?thesis by (simp add: refc_new_def Let_def)
qed

theorem refc_deleted_when_balanced_witness:
  "refc_run [True, False, False] (Some refc_new) = Inr None"
  using refc_deleted_when_balanced [of "[True, False, False]"] by (auto simp: less_Suc_eq numeral_3_eq_3)

end
