(* ===== verification/QV_Strings.thy ===== *)
theory QV_Strings
  imports QV_Utils
begin

text \<open>
  The string helpers of \<^verbatim>\<open>qvi-utils.cc\<close>: splitting, padding, wrapping, banners,
  number conversion, and the error texts of \<^verbatim>\<open>quo-vadis.cc\<close>.
\<close>

section \<open>Numbers and text\<close>

abbreviation newline :: string where
  "newline \<equiv> [CHR 0x0A]"

definition isdigit :: "char \<Rightarrow> bool" where
  "isdigit c \<longleftrightarrow> 48 \<le> (of_char c :: nat) \<and> (of_char c :: nat) \<le> 57"

definition isspace :: "char \<Rightarrow> bool" where
  "isspace c \<longleftrightarrow> (of_char c :: nat) = 32 \<or> (9 \<le> (of_char c :: nat) \<and> (of_char c :: nat) \<le> 13)"

definition digit_value :: "char \<Rightarrow> nat" where
  "digit_value c = of_char c - 48"

definition digit_char :: "nat \<Rightarrow> char" where
  "digit_char d = char_of (48 + d)"

fun nat_to_string :: "nat \<Rightarrow> string" where
  "nat_to_string n = (if n < 10 then [digit_char n] else nat_to_string (n div 10) @ [digit_char (n mod 10)])"

declare nat_to_string.simps [simp del]

text \<open>\<^verbatim>\<open>std::to_string\<close>\<close>

definition std_to_string :: "int \<Rightarrow> string" where
  "std_to_string i = (if i < 0 then CHR ''-'' # nat_to_string (nat (- i)) else nat_to_string (nat i))"

fun digits_value :: "nat \<Rightarrow> string \<Rightarrow> nat" where
  "digits_value acc [] = acc"
| "digits_value acc (c # cs) = digits_value (acc * 10 + digit_value c) cs"

text \<open>
  \<^verbatim>\<open>qvi_stoi(str)\<close> in base 10: leading white space is skipped, one sign is accepted, the
  longest run of digits is converted, the rest is ignored. No digits and values outside of
  \<^verbatim>\<open>int\<close> are the two exceptions that the function translates.
\<close>

definition qvi_stoi :: "string \<Rightarrow> int res" where
  "qvi_stoi str =
     (let s = dropWhile isspace str;
          (neg, s) = (case s of [] \<Rightarrow> (False, [])
                      | c # cs \<Rightarrow> if c = CHR ''-'' then (True, cs)
                                  else if c = CHR ''+'' then (False, cs) else (False, s));
          ds = takeWhile isdigit s;
          v = (if neg then - int (digits_value 0 ds) else int (digits_value 0 ds))
      in if ds = [] \<or> v < - (2 ^ 31) \<or> v \<ge> 2 ^ 31 then Inl (Rterror QV_ERR_INVLD_ARG) else Inr v)"

lemma of_char_digit_char: "d < 10 \<Longrightarrow> (of_char (digit_char d) :: nat) = 48 + d"
  by (simp add: digit_char_def)

lemma isdigit_digit_char [simp]: "d < 10 \<Longrightarrow> isdigit (digit_char d)"
  by (simp add: isdigit_def of_char_digit_char)

lemma digit_value_digit_char [simp]: "d < 10 \<Longrightarrow> digit_value (digit_char d) = d"
  by (simp add: digit_value_def of_char_digit_char)

lemma nat_to_string_digits: "\<forall>c \<in> set (nat_to_string n). isdigit c"
proof (induction n rule: nat_to_string.induct)
  case (1 n)
  then show ?case by (subst nat_to_string.simps) auto
qed

lemma nat_to_string_not_Nil [simp]: "nat_to_string n \<noteq> []"
  by (subst nat_to_string.simps) simp

lemma digits_value_append: "digits_value acc (xs @ [c]) = digits_value acc xs * 10 + digit_value c"
  by (induction xs arbitrary: acc) auto

lemma digits_value_nat_to_string: "digits_value 0 (nat_to_string n) = n"
proof (induction n rule: nat_to_string.induct)
  case (1 n)
  show ?case
  proof (cases "n < 10")
    case True
    then show ?thesis by (subst nat_to_string.simps) simp
  next
    case False
    with 1 show ?thesis by (subst nat_to_string.simps) (simp add: digits_value_append)
  qed
qed

lemma isdigit_not_sign: "isdigit c \<Longrightarrow> c \<noteq> CHR ''-'' \<and> c \<noteq> CHR ''+'' \<and> \<not> isspace c"
  by (auto simp: isdigit_def isspace_def)

lemma qvi_stoi_nat_to_string:
  assumes "n < 2 ^ 31"
  shows "qvi_stoi (nat_to_string n) = Inr (int n)"
proof -
  obtain c cs where c: "nat_to_string n = c # cs" by (cases "nat_to_string n") auto
  have d: "isdigit c" using nat_to_string_digits [of n] by (auto simp: c)
  have tw: "takeWhile isdigit (nat_to_string n) = nat_to_string n"
    using nat_to_string_digits by (simp add: takeWhile_eq_all_conv)
  have "qvi_stoi (c # cs) =
     (let ds = takeWhile isdigit (c # cs); v = int (digits_value 0 ds)
      in if ds = [] \<or> v < - (2 ^ 31) \<or> v \<ge> 2 ^ 31 then Inl (Rterror QV_ERR_INVLD_ARG) else Inr v)"
    using isdigit_not_sign [OF d] by (simp add: qvi_stoi_def Let_def)
  then show ?thesis
    using assms by (simp only: c [symmetric] tw digits_value_nat_to_string Let_def) simp
qed

section \<open>Error texts\<close>

definition rc_code :: "qv_rc \<Rightarrow> nat" where
  "rc_code c = (case c of
      QV_SUCCESS \<Rightarrow> 0 | QV_SUCCESS_SHUTDOWN \<Rightarrow> 1 | QV_ERR \<Rightarrow> 2 | QV_ERR_ENV \<Rightarrow> 3
    | QV_ERR_INTERNAL \<Rightarrow> 4 | QV_ERR_FILE_IO \<Rightarrow> 5 | QV_ERR_SYS \<Rightarrow> 6 | QV_ERR_OOR \<Rightarrow> 7
    | QV_ERR_INVLD_ARG \<Rightarrow> 8 | QV_ERR_HWLOC \<Rightarrow> 9 | QV_ERR_MPI \<Rightarrow> 10 | QV_ERR_RPC \<Rightarrow> 11
    | QV_ERR_NOT_SUPPORTED \<Rightarrow> 12 | QV_ERR_NOT_FOUND \<Rightarrow> 13 | QV_ERR_SPLIT \<Rightarrow> 14
    | QV_RES_UNAVAILABLE \<Rightarrow> 15)"

definition qvi_rc2str :: "(qv_rc \<times> string) list" where
  "qvi_rc2str =
    [(QV_SUCCESS, ''Success''),
     (QV_SUCCESS_SHUTDOWN, ''Success, shut down''),
     (QV_ERR, ''Unspecified error''),
     (QV_ERR_ENV, ''Environment error''),
     (QV_ERR_INTERNAL, ''Internal error''),
     (QV_ERR_FILE_IO, ''File I/O error''),
     (QV_ERR_SYS, ''System error''),
     (QV_ERR_OOR, ''Out of resources''),
     (QV_ERR_INVLD_ARG, ''Invalid argument''),
     (QV_ERR_HWLOC, ''Hardware locality error''),
     (QV_ERR_MPI, ''MPI error''),
     (QV_ERR_RPC, ''Remote procedure call error''),
     (QV_ERR_NOT_SUPPORTED, ''Operation not supported''),
     (QV_ERR_NOT_FOUND, ''Not found''),
     (QV_ERR_SPLIT, ''Split error''),
     (QV_RES_UNAVAILABLE, ''Resources unavailable'')]"

text \<open>The keys of the table are unsigned, so a negative \<^verbatim>\<open>int\<close> is wrapped before the search.\<close>

definition qv_strerr :: "int \<Rightarrow> string" where
  "qv_strerr ec =
     (case map_of (map (\<lambda>(c, t). (rc_code c, t)) qvi_rc2str) (nat (ec mod 2 ^ 32)) of
        None \<Rightarrow> [] | Some t \<Rightarrow> t)"

section \<open>Splitting\<close>

text \<open>\<^verbatim>\<open>std::string::find\<close>, \<open>None\<close> for \<^verbatim>\<open>npos\<close>.\<close>

definition is_prefix_at :: "string \<Rightarrow> string \<Rightarrow> nat \<Rightarrow> bool" where
  "is_prefix_at str d i \<longleftrightarrow> i + length d \<le> length str \<and> take (length d) (drop i str) = d"

definition str_find :: "string \<Rightarrow> string \<Rightarrow> nat \<Rightarrow> nat option" where
  "str_find str d start = find (is_prefix_at str d) [start..<Suc (length str)]"

text \<open>
  With an empty delimiter the loop of \<^verbatim>\<open>qvi_split_string\<close> does not advance, so the function
  is partial.
\<close>

partial_function (option) split_string_loop ::
  "string \<Rightarrow> string \<Rightarrow> string list \<Rightarrow> nat \<Rightarrow> nat option \<Rightarrow> string list option" where
  "split_string_loop str delimiter tokens start end_pos =
     (case end_pos of
        None \<Rightarrow> Some (tokens @ [drop start str])
      | Some e \<Rightarrow>
          split_string_loop str delimiter (tokens @ [take (e - start) (drop start str)])
            (e + length delimiter) (str_find str delimiter (e + length delimiter)))"

definition qvi_split_string :: "string \<Rightarrow> string \<Rightarrow> string list option" where
  "qvi_split_string str delimiter = split_string_loop str delimiter [] 0 (str_find str delimiter 0)"

fun join :: "string \<Rightarrow> string list \<Rightarrow> string" where
  "join d [] = []"
| "join d [t] = t"
| "join d (t # ts) = t @ d @ join d ts"

lemma str_find_Some:
  assumes "str_find str d start = Some e"
  shows "start \<le> e" "e + length d \<le> length str" "take (length d) (drop e str) = d"
    "\<And>i. start \<le> i \<Longrightarrow> i < e \<Longrightarrow> \<not> is_prefix_at str d i"
proof -
  obtain k where k: "k < length [start..<Suc (length str)]" "is_prefix_at str d ([start..<Suc (length str)] ! k)"
    "e = [start..<Suc (length str)] ! k" "\<forall>j < k. \<not> is_prefix_at str d ([start..<Suc (length str)] ! j)"
    using assms by (auto simp: str_find_def find_Some_iff)
  then have ek: "e = start + k" by (simp del: upt_Suc)
  then show "start \<le> e" by simp
  show "e + length d \<le> length str" "take (length d) (drop e str) = d"
    using k(2,3) by (auto simp: is_prefix_at_def)
  fix i assume "start \<le> i" "i < e"
  then show "\<not> is_prefix_at str d i"
    using k(1) k(4) [rule_format, of "i - start"] ek by (simp del: upt_Suc)
qed

lemma join_snoc: "ts \<noteq> [] \<Longrightarrow> join d (ts @ [t]) = join d ts @ d @ t"
  by (induction d ts rule: join.induct) auto

lemma join_last: "join d (ts @ [t]) = join d (ts @ [[]]) @ t"
  by (cases "ts = []") (simp_all add: join_snoc)

lemma take_piece:
  assumes "start \<le> e" "e + length d \<le> length str" "take (length d) (drop e str) = d"
  shows "take (e + length d) str = take start str @ take (e - start) (drop start str) @ d"
proof -
  have "take (e + length d) str = take e str @ d"
    using assms(3) by (simp add: take_add)
  also have "take e str = take start str @ take (e - start) (drop start str)"
    using assms(1) by (metis le_add_diff_inverse take_add)
  finally show ?thesis by simp
qed

text \<open>The loop ends and cuts the string into the text before, between and after the delimiters.\<close>

lemma split_string_loop_ok:
  assumes d: "d \<noteq> []"
    and e: "e = str_find str d start" "start \<le> length str"
    and tk: "join d (tokens @ [[]]) = take start str"
  shows "\<exists>ts. split_string_loop str d tokens start e = Some ts \<and> join d ts = str \<and> ts \<noteq> []"
  using e tk
proof (induction "length str - start" arbitrary: tokens start e rule: less_induct)
  case less
  show ?case
  proof (cases e)
    case None
    have "join d (tokens @ [drop start str]) = str"
      using less.prems(3) by (simp add: join_last [of d tokens "drop start str"])
    with None show ?thesis by (simp add: split_string_loop.simps)
  next
    case (Some p)
    note f = str_find_Some [OF less.prems(1) [symmetric, unfolded Some]]
    let ?t = "take (p - start) (drop start str)"
    have "join d ((tokens @ [?t]) @ [[]]) = join d (tokens @ [?t]) @ d"
      using join_snoc [of "tokens @ [?t]" d "[]"] by simp
    also have "join d (tokens @ [?t]) = take start str @ ?t"
      using less.prems(3) by (simp add: join_last [of d tokens ?t])
    also have "(take start str @ ?t) @ d = take (p + length d) str"
      using take_piece [OF f(1-3)] by simp
    finally have j: "join d ((tokens @ [?t]) @ [[]]) = take (p + length d) str" .
    have "length str - (p + length d) < length str - start" using f(1,2) d by (cases d) auto
    from less.hyps [OF this refl f(2) j] show ?thesis
      by (subst split_string_loop.simps) (simp add: Some)
  qed
qed

lemma qvi_split_string_ok:
  "d \<noteq> [] \<Longrightarrow> \<exists>ts. qvi_split_string str d = Some ts \<and> join d ts = str \<and> ts \<noteq> []"
  unfolding qvi_split_string_def by (rule split_string_loop_ok) auto

section \<open>Padding, wrapping, banners\<close>

text \<open>The cyclic fill of \<^verbatim>\<open>qvi_spadtolen\<close>, one character per round until \<open>maxlen\<close> is reached.\<close>

function spad_loop :: "string \<Rightarrow> nat \<Rightarrow> nat \<Rightarrow> string \<Rightarrow> string" where
  "spad_loop padding maxlen pad_idx result =
     (if length result < maxlen
      then spad_loop padding maxlen ((pad_idx + 1) mod length padding) (result @ [padding ! pad_idx])
      else result)"
  by pat_completeness auto
termination by (relation "measure (\<lambda>(_, maxlen, _, result). maxlen - length result)") auto

declare spad_loop.simps [simp del]

definition qvi_spadtolen :: "string \<Rightarrow> string \<Rightarrow> nat \<Rightarrow> string" where
  "qvi_spadtolen txt padding maxlen =
     (if length txt \<ge> maxlen \<or> padding = [] then take maxlen txt
      else spad_loop padding maxlen 0 txt)"

text \<open>The successive results of \<^verbatim>\<open>istream >> word\<close>.\<close>

function stream_words :: "string \<Rightarrow> string list" where
  "stream_words s =
     (let s' = dropWhile isspace s in
      if s' = [] then []
      else takeWhile (\<lambda>c. \<not> isspace c) s' # stream_words (dropWhile (\<lambda>c. \<not> isspace c) s'))"
  by pat_completeness auto
termination
proof (relation "measure length")
  fix s s' :: string
  assume s': "s' = dropWhile isspace s" and ne: "s' \<noteq> []"
  then obtain c cs where c: "s' = c # cs" "\<not> isspace c"
    by (metis dropWhile_eq_Cons_conv neq_Nil_conv)
  have "length (dropWhile (\<lambda>c. \<not> isspace c) s') \<le> length cs"
    using c by (simp add: length_dropWhile_le)
  also have "length cs < length s'" using c by simp
  also have "length s' \<le> length s" by (simp add: s' length_dropWhile_le)
  finally show "(dropWhile (\<lambda>c. \<not> isspace c) s', s) \<in> measure length" by simp
qed simp

declare stream_words.simps [simp del]

text \<open>
  The inner loop of \<^verbatim>\<open>qvi_swrap\<close> on \<open>(result, curline, word)\<close>. It is only reached
  with a positive line length.
\<close>

function hard_split :: "nat \<Rightarrow> string \<times> string \<times> string \<Rightarrow> string \<times> string \<times> string" where
  "hard_split max_line_len (result, curline, word) =
     (if 0 < max_line_len \<and> length word > max_line_len
      then let (result, curline) = (if curline \<noteq> [] then (result @ curline @ newline, [])
                                    else (result, curline))
           in hard_split max_line_len
                (result @ take max_line_len word @ newline, curline, drop max_line_len word)
      else (result, curline, word))"
  by pat_completeness auto
termination by (relation "measure (\<lambda>(_, _, _, word). length word)") auto

declare hard_split.simps [simp del]

definition swrap_word :: "nat \<Rightarrow> string \<Rightarrow> string \<times> string \<Rightarrow> string \<times> string" where
  "swrap_word max_line_len word st =
     (case st of (result, curline) \<Rightarrow>
      case hard_split max_line_len (result, curline, word) of (result, curline, word) \<Rightarrow>
        if curline = [] then (result, word)
        else if length curline + 1 + length word \<le> max_line_len then (result, curline @ '' '' @ word)
        else (result @ curline @ newline, word))"

definition qvi_swrap :: "string \<Rightarrow> nat \<Rightarrow> string" where
  "qvi_swrap txt max_line_len =
     (if max_line_len = 0 then txt
      else case fold (swrap_word max_line_len) (stream_words txt) ([], []) of
             (result, curline) \<Rightarrow> if curline \<noteq> [] then result @ curline else result)"

definition qvi_sbanner :: "string \<Rightarrow> nat \<Rightarrow> string" where
  "qvi_sbanner txt maxlen =
     (let line = qvi_spadtolen [] ''#'' maxlen;
          bantop = newline @ newline @ line @ newline;
          banbot = newline @ line @ newline @ newline
      in bantop @ qvi_swrap txt maxlen @ banbot)"

subsection \<open>Padding\<close>

lemma spad_loop_length:
  "length result \<le> maxlen \<Longrightarrow> length (spad_loop padding maxlen i result) = maxlen"
proof (induction padding maxlen i result rule: spad_loop.induct)
  case (1 padding maxlen i result)
  show ?case
    using 1 by (subst spad_loop.simps) auto
qed

lemma spad_loop_prefix: "take (length result) (spad_loop padding maxlen i result) = result"
proof (induction padding maxlen i result rule: spad_loop.induct)
  case (1 padding maxlen i result)
  show ?case
  proof (cases "length result < maxlen")
    case True
    let ?X = "spad_loop padding maxlen ((i + 1) mod length padding) (result @ [padding ! i])"
    have "take (length result) (take (length (result @ [padding ! i])) ?X) = result"
      by (simp only: 1 [OF True]) simp
    then have "take (length result) ?X = result" by (simp add: min_def)
    with True show ?thesis by (subst spad_loop.simps) simp
  next
    case False
    then show ?thesis by (subst spad_loop.simps) simp
  qed
qed

lemma spad_loop_char:
  assumes "padding \<noteq> []" "i = (length result - b) mod length padding" "b \<le> length result"
    and "length result \<le> j" "j < maxlen"
  shows "spad_loop padding maxlen i result ! j = padding ! ((j - b) mod length padding)"
  using assms
proof (induction padding maxlen i result rule: spad_loop.induct)
  case (1 padding maxlen i result)
  then have lt: "length result < maxlen" by simp
  let ?r = "result @ [padding ! i]"
  have step: "spad_loop padding maxlen i result = spad_loop padding maxlen ((i + 1) mod length padding) ?r"
    using lt by (subst spad_loop.simps) simp
  show ?case
  proof (cases "j = length result")
    case True
    have "take (length ?r) (spad_loop padding maxlen ((i + 1) mod length padding) ?r) ! j = ?r ! j"
      by (simp only: spad_loop_prefix)
    then show ?thesis using True 1 step by simp
  next
    case False
    have "(i + 1) mod length padding = (length ?r - b) mod length padding"
      using 1 by (simp add: mod_Suc_eq Suc_diff_le)
    moreover have "length ?r \<le> j" "b \<le> length ?r" using False 1(4,5) by auto
    ultimately show ?thesis
      using 1(1) [OF lt 1(2)] 1(6) by (simp only: step)
  qed
qed

subsection \<open>Wrapping\<close>

text \<open>The lines of a text.\<close>

fun text_lines :: "string \<Rightarrow> string list" where
  "text_lines [] = [[]]"
| "text_lines (c # cs) =
     (if [c] = newline then [] # text_lines cs
      else case text_lines cs of [] \<Rightarrow> [[c]] | l # ls \<Rightarrow> (c # l) # ls)"

abbreviation (input) no_newline :: "string \<Rightarrow> bool" where
  "no_newline s \<equiv> CHR 0x0A \<notin> set s"

lemma text_lines_no_newline [simp]: "no_newline s \<Longrightarrow> text_lines s = [s]"
  by (induction s) auto

lemma text_lines_line: "no_newline l \<Longrightarrow> text_lines (l @ newline @ s) = l # text_lines s"
  by (induction l) auto

definition fits :: "nat \<Rightarrow> string \<Rightarrow> bool" where
  "fits m l \<longleftrightarrow> length l \<le> m \<and> no_newline l"

text \<open>The loop invariant: the finished lines and the current line all fit.\<close>

definition wrapped :: "nat \<Rightarrow> string \<Rightarrow> bool" where
  "wrapped m result \<longleftrightarrow> (\<exists>ls. result = concat (map (\<lambda>l. l @ newline) ls) \<and> (\<forall>l \<in> set ls. fits m l))"

lemma wrapped_add: "wrapped m r \<Longrightarrow> fits m l \<Longrightarrow> wrapped m (r @ l @ newline)"
proof -
  assume "wrapped m r" and l: "fits m l"
  then obtain ls where "r = concat (map (\<lambda>l. l @ newline) ls)" "\<forall>l \<in> set ls. fits m l"
    by (auto simp: wrapped_def)
  with l show ?thesis
    unfolding wrapped_def by (intro exI [of _ "ls @ [l]"]) auto
qed

lemma wrapped_Nil [simp]: "wrapped m []"
  by (simp add: wrapped_def exI [of _ "[]"])

lemma text_lines_wrapped:
  assumes "wrapped m r" "fits m l"
  shows "\<forall>x \<in> set (text_lines (r @ l)). length x \<le> m"
proof -
  obtain ls where ls: "r = concat (map (\<lambda>l. l @ newline) ls)" "\<forall>l \<in> set ls. fits m l"
    using assms by (auto simp: wrapped_def)
  have "text_lines (concat (map (\<lambda>l. l @ newline) ls) @ l) = ls @ [l]"
    using ls(2) assms(2)
  proof (induction ls)
    case (Cons a ls)
    then show ?case
      using text_lines_line [of a "concat (map (\<lambda>l. l @ newline) ls) @ l"] by (simp add: fits_def)
  qed (simp add: fits_def)
  then show ?thesis using ls assms(2) by (auto simp: fits_def)
qed

abbreviation (input) visible :: "string \<Rightarrow> string" where
  "visible s \<equiv> filter (\<lambda>c. \<not> isspace c) s"

lemma isspace_newline [simp]: "isspace (CHR 0x0A)" and isspace_blank [simp]: "isspace (CHR '' '')"
  by (simp_all add: isspace_def)

lemma hard_split_wrapped:
  assumes "wrapped m r" "fits m c" "no_newline w" "0 < m"
  shows "case hard_split m (r, c, w) of (r', c', w') \<Rightarrow>
    wrapped m r' \<and> fits m c' \<and> fits m w' \<and> visible (r' @ c' @ w') = visible (r @ c @ w)"
  using assms
proof (induction m "(r, c, w)" arbitrary: r c w rule: hard_split.induct)
  case (1 m r c w)
  show ?case
  proof (cases "length w > m")
    case False
    with 1 show ?thesis by (subst hard_split.simps) (simp add: fits_def)
  next
    case True
    define r1 where "r1 = (if c \<noteq> [] then r @ c @ newline else r)"
    have step: "hard_split m (r, c, w) = hard_split m (r1 @ take m w @ newline, [], drop m w)"
      using True 1 by (subst hard_split.simps) (simp add: r1_def Let_def)
    have fw: "fits m (take m w)" "no_newline (drop m w)"
      using 1 by (auto simp: fits_def dest: in_set_takeD in_set_dropD)
    have "wrapped m r1" using 1 by (auto simp: r1_def intro!: wrapped_add)
    then have w1: "wrapped m (r1 @ take m w @ newline)" by (rule wrapped_add [OF _ fw(1)])
    have "visible (take m w) @ visible (drop m w) = visible w"
      by (metis append_take_drop_id filter_append)
    moreover have "visible r1 = visible r @ visible c" by (simp add: r1_def)
    ultimately have v: "visible ((r1 @ take m w @ newline) @ [] @ drop m w) = visible (r @ c @ w)"
      by simp
    have "case hard_split m (r1 @ take m w @ newline, [], drop m w) of (r', c', w') \<Rightarrow>
        wrapped m r' \<and> fits m c' \<and> fits m w' \<and>
        visible (r' @ c' @ w') = visible ((r1 @ take m w @ newline) @ [] @ drop m w)"
      by (rule 1(1) [OF _ _ _ w1 _ fw(2)])
         (use True 1 in \<open>auto simp: r1_def fits_def\<close>)
    with v show ?thesis by (simp only: step)
  qed
qed

lemma swrap_word_wrapped:
  assumes "wrapped m r" "fits m c" "no_newline w" "0 < m"
  shows "case swrap_word m w (r, c) of (r', c') \<Rightarrow>
    wrapped m r' \<and> fits m c' \<and> visible (r' @ c') = visible (r @ c @ w)"
proof -
  obtain r1 c1 w1 where h: "hard_split m (r, c, w) = (r1, c1, w1)" by (cases "hard_split m (r, c, w)")
  with hard_split_wrapped [OF assms] have
    i: "wrapped m r1" "fits m c1" "fits m w1" "visible (r1 @ c1 @ w1) = visible (r @ c @ w)" by auto
  show ?thesis
    using i wrapped_add [OF i(1,2)] by (auto simp: swrap_word_def h fits_def)
qed

lemma stream_words_no_newline: "\<forall>w \<in> set (stream_words s). no_newline w"
proof (induction s rule: stream_words.induct)
  case (1 s)
  then show ?case
    by (subst stream_words.simps) (auto simp: Let_def dest: set_takeWhileD)
qed

lemma visible_stream_words: "visible (concat (stream_words s)) = visible s"
proof (induction s rule: stream_words.induct)
  case (1 s)
  have v: "visible (dropWhile isspace s) = visible s"
    by (induction s) auto
  let ?d = "dropWhile isspace s"
  show ?case
  proof (cases "?d = []")
    case True
    then show ?thesis using v by (subst stream_words.simps) simp
  next
    case False
    have "visible (takeWhile (\<lambda>c. \<not> isspace c) ?d) @ visible (dropWhile (\<lambda>c. \<not> isspace c) ?d) = visible ?d"
      by (metis filter_append takeWhile_dropWhile_id)
    with 1 [OF refl False] False v show ?thesis by (subst stream_words.simps) (simp add: Let_def)
  qed
qed

lemma swrap_fold_wrapped:
  assumes "wrapped m r" "fits m c" "\<forall>w \<in> set ws. no_newline w" "0 < m"
  shows "case fold (swrap_word m) ws (r, c) of (r', c') \<Rightarrow>
    wrapped m r' \<and> fits m c' \<and> visible (r' @ c') = visible (r @ c @ concat ws)"
  using assms
proof (induction ws arbitrary: r c)
  case (Cons w ws)
  obtain r1 c1 where s: "swrap_word m w (r, c) = (r1, c1)" by (cases "swrap_word m w (r, c)")
  with swrap_word_wrapped [of m r c w] Cons.prems
  have i: "wrapped m r1" "fits m c1" "visible (r1 @ c1) = visible (r @ c @ w)" by auto
  from Cons.IH [OF i(1,2)] Cons.prems i(3) show ?case by (auto simp: s)
qed simp

lemma qvi_swrap_wrapped:
  assumes "0 < m"
  shows "(\<forall>l \<in> set (text_lines (qvi_swrap s m)). length l \<le> m) \<and> visible (qvi_swrap s m) = visible s"
proof -
  obtain r c where f: "fold (swrap_word m) (stream_words s) ([], []) = (r, c)"
    by (cases "fold (swrap_word m) (stream_words s) ([], [])")
  with swrap_fold_wrapped [of m "[]" "[]" "stream_words s"] assms stream_words_no_newline
  have i: "wrapped m r" "fits m c" "visible (r @ c) = visible (concat (stream_words s))"
    by (auto simp: fits_def)
  have "qvi_swrap s m = r @ c" using assms by (simp add: qvi_swrap_def f)
  with i text_lines_wrapped [OF i(1,2)] show ?thesis by (simp add: visible_stream_words)
qed

lemma split_string_empty_delimiter_loop:
  assumes "split_string_loop str [] tokens start e = Some ts" "start \<le> length str" "e = Some start"
  shows False
proof -
  have find: "str_find str [] s = Some s" if "s \<le> length str" for s
    using that by (simp add: str_find_def is_prefix_at_def upt_conv_Cons del: upt_Suc)
  have "d = [] \<longrightarrow> s = str \<longrightarrow> st \<le> length str \<longrightarrow> en = Some st \<longrightarrow> False"
    if "split_string_loop s d tk st en = Some y" for s d tk st en y
  proof (rule split_string_loop.raw_induct [where P = "\<lambda>s d tk st en y.
      d = [] \<longrightarrow> s = str \<longrightarrow> st \<le> length str \<longrightarrow> en = Some st \<longrightarrow> False", OF _ that])
    fix loop s d tk st en y
    assume IH: "\<And>s d tk st en y. loop s d tk st en = Some y \<Longrightarrow>
        d = [] \<longrightarrow> s = str \<longrightarrow> st \<le> length str \<longrightarrow> en = Some st \<longrightarrow> False"
      and run: "(case en of None \<Rightarrow> Some (tk @ [drop st s])
        | Some e \<Rightarrow> loop s d (tk @ [take (e - st) (drop st s)]) (e + length d) (str_find s d (e + length d))) = Some y"
    show "d = [] \<longrightarrow> s = str \<longrightarrow> st \<le> length str \<longrightarrow> en = Some st \<longrightarrow> False"
    proof (intro impI)
      assume a: "d = []" "s = str" "st \<le> length str" "en = Some st"
      then have "loop str [] (tk @ [[]]) st (Some st) = Some y" using run by (simp add: find)
      from IH [OF this] a show False by blast
    qed
  qed
  with assms show False by blast
qed

section \<open>Properties\<close>

text \<open>Splitting at a non-empty delimiter always returns, and joining the tokens with the delimiter
  gives back the string.\<close>

theorem qvi_split_string_join:
  assumes "delimiter \<noteq> []"
  shows "\<exists>tokens. qvi_split_string str delimiter = Some tokens \<and> tokens \<noteq> [] \<and> join delimiter tokens = str"
  using qvi_split_string_ok [OF assms] by blast

theorem qvi_split_string_join_witness:
  "\<exists>tokens. qvi_split_string ''--port=5'' ''='' = Some tokens \<and> tokens \<noteq> [] \<and> join ''='' tokens = ''--port=5''"
  using qvi_split_string_join [of "''=''" "''--port=5''"] by simp

text \<open>With an empty delimiter the loop does not advance and never returns.\<close>

theorem qvi_split_string_empty_delimiter_diverges:
  "qvi_split_string str [] = None"
proof (cases "qvi_split_string str []")
  case (Some ts)
  have "str_find str [] 0 = Some 0"
    by (simp add: str_find_def is_prefix_at_def upt_conv_Cons del: upt_Suc)
  with Some split_string_empty_delimiter_loop [of str "[]" 0] show ?thesis
    by (auto simp: qvi_split_string_def)
qed

text \<open>Converting a non-negative \<^verbatim>\<open>int\<close> to text and back gives the number.\<close>

theorem qvi_stoi_to_string:
  assumes "0 \<le> i" "i < 2 ^ 31"
  shows "qvi_stoi (std_to_string i) = Inr i"
  using qvi_stoi_nat_to_string [of "nat i"] assms by (simp add: std_to_string_def)

theorem qvi_stoi_to_string_witness: "qvi_stoi (std_to_string 55999) = Inr 55999"
  using qvi_stoi_to_string [of 55999] by simp

text \<open>Wrapped text has no line longer than the limit and has the same visible characters as the
  input, in the same order.\<close>

theorem qvi_swrap_lines:
  assumes "0 < m"
  shows "(\<forall>l \<in> set (text_lines (qvi_swrap s m)). length l \<le> m) \<and>
    filter (\<lambda>c. \<not> isspace c) (qvi_swrap s m) = filter (\<lambda>c. \<not> isspace c) s"
  by (rule qvi_swrap_wrapped [OF assms])

theorem qvi_swrap_lines_witness:
  "\<exists>r. r = qvi_swrap ''Could not start the daemon'' 7 \<and> (\<forall>l \<in> set (text_lines r). length l \<le> 7) \<and>
    filter (\<lambda>c. \<not> isspace c) r = filter (\<lambda>c. \<not> isspace c) ''Could not start the daemon''"
  using qvi_swrap_lines [of 7 "''Could not start the daemon''"] by simp

text \<open>Padding gives exactly the requested length: the text (cut if it is longer) followed by the
  padding string repeated from its start.\<close>

theorem qvi_spadtolen_spec:
  assumes "padding \<noteq> []"
  shows "length (qvi_spadtolen txt padding m) = m \<and>
    take (length txt) (qvi_spadtolen txt padding m) = take m txt \<and>
    (\<forall>j. length txt \<le> j \<and> j < m \<longrightarrow>
       qvi_spadtolen txt padding m ! j = padding ! ((j - length txt) mod length padding))"
proof (cases "m \<le> length txt")
  case True
  then show ?thesis by (auto simp: qvi_spadtolen_def)
next
  case False
  then have eq: "qvi_spadtolen txt padding m = spad_loop padding m 0 txt"
    using assms by (simp add: qvi_spadtolen_def)
  then show ?thesis
    using False spad_loop_length [of "txt" m padding 0] spad_loop_prefix [of "txt" padding m 0]
      spad_loop_char [OF assms, of 0 "txt" "length txt"] by auto
qed

theorem qvi_spadtolen_spec_witness: "length (qvi_spadtolen ''Done '' ''='' 80) = 80"
  using qvi_spadtolen_spec [of "''=''" "''Done ''" 80] by simp

end
