(* ===== verification/QV_Discover.thy ===== *)
theory QV_Discover
  imports QV_Strings
begin

text \<open>
  How a client finds a running daemon (\<^verbatim>\<open>qvi-utils.cc\<close>): the scan of
  \<^verbatim>\<open>/proc\<close> for processes of a given name, the tokenisation of a process's command
  line and environment, the extraction of the port number, and the retry loop with exponential
  backoff. The file system and the environment of the calling process are arguments.
\<close>

section \<open>The environment of the process\<close>

definition QVI_PORT_UNSET :: int where
  "QVI_PORT_UNSET = -1"

definition QVI_DAEMON_NAME :: string where
  "QVI_DAEMON_NAME = ''quo-vadisd''"

definition QVI_ENV_PORT :: string where
  "QVI_ENV_PORT = ''QV_PORT''"

definition QVI_ENV_TMPDIR :: string where
  "QVI_ENV_TMPDIR = ''QV_TMPDIR''"

type_synonym getenv = "string \<Rightarrow> string option"

definition qvi_envset :: "getenv \<Rightarrow> string \<Rightarrow> bool" where
  "qvi_envset getenv varname \<longleftrightarrow> getenv varname \<noteq> None"

definition qvi_tmpdir :: "getenv \<Rightarrow> string" where
  "qvi_tmpdir getenv =
     (case getenv QVI_ENV_TMPDIR of Some qvenv \<Rightarrow> qvenv
      | None \<Rightarrow> case getenv ''TMPDIR'' of Some qvenv \<Rightarrow> qvenv | None \<Rightarrow> ''/tmp'')"

definition qvi_port_from_env :: "getenv \<Rightarrow> int res" where
  "qvi_port_from_env getenv =
     (case getenv QVI_ENV_PORT of None \<Rightarrow> Inr QVI_PORT_UNSET | Some ports \<Rightarrow> qvi_stoi ports)"

section \<open>Processes\<close>

text \<open>
  What the code reads of \<^verbatim>\<open>/proc\<close>: its entries (\<open>None\<close> when the iteration throws
  \<^verbatim>\<open>filesystem_error\<close>), and the files of a process by path.
\<close>

record proc_entry =
  pe_is_directory :: bool
  pe_filename :: string
  pe_comm :: "string option"

datatype file_read = Missing | Fs_error | Content string

record proc_fs =
  proc_dir :: "proc_entry list option"
  proc_file :: "string \<Rightarrow> file_read"

definition is_numeric :: "string \<Rightarrow> bool" where
  "is_numeric str \<longleftrightarrow> str \<noteq> [] \<and> list_all isdigit str"

text \<open>\<^verbatim>\<open>std::getline\<close> on a fresh stream: fails on an empty file.\<close>

definition getline :: "string \<Rightarrow> string option" where
  "getline content = (if content = [] then None else Some (takeWhile (\<lambda>c. [c] \<noteq> newline) content))"

definition strip_newline :: "string \<Rightarrow> string" where
  "strip_newline s = (if s \<noteq> [] \<and> [last s] = newline then butlast s else s)"

definition running_entry :: "string \<Rightarrow> proc_entry \<Rightarrow> int list \<Rightarrow> int list res" where
  "running_entry name entry pids =
     (if \<not> pe_is_directory entry then Inr pids
      else if \<not> is_numeric (pe_filename entry) then Inr pids
      else case pe_comm entry of
             None \<Rightarrow> Inr pids
           | Some content \<Rightarrow>
               (case getline content of
                  None \<Rightarrow> Inr pids
                | Some process_name \<Rightarrow>
                    if strip_newline process_name \<noteq> name then Inr pids
                    else rbind (qvi_stoi (pe_filename entry)) (\<lambda>pid. Inr (pids @ [pid]))))"

definition qvi_running :: "proc_fs \<Rightarrow> string \<Rightarrow> int list res" where
  "qvi_running fs name =
     (case proc_dir fs of
        None \<Rightarrow> Inl (Rc QV_ERR_FILE_IO)
      | Some entries \<Rightarrow> rfold (running_entry name) entries [])"

text \<open>The tokenizer of \<^verbatim>\<open>qvi_pid_cmdline\<close>: text after the last null byte is dropped.\<close>

fun cmdline_tokens :: "string \<Rightarrow> string \<Rightarrow> string list \<Rightarrow> string list" where
  "cmdline_tokens [] current_arg argv = argv"
| "cmdline_tokens (c # cs) current_arg argv =
     (if c = CHR 0x00
      then if current_arg \<noteq> [] then cmdline_tokens cs [] (argv @ [current_arg])
           else cmdline_tokens cs current_arg argv
      else cmdline_tokens cs (current_arg @ [c]) argv)"

definition qvi_pid_cmdline :: "proc_fs \<Rightarrow> int \<Rightarrow> string list res" where
  "qvi_pid_cmdline fs pid =
     (case proc_file fs (''/proc/'' @ std_to_string pid @ ''/cmdline'') of
        Missing \<Rightarrow> Inl (Rc QV_ERR_NOT_FOUND)
      | Fs_error \<Rightarrow> Inl (Rc QV_ERR_FILE_IO)
      | Content content \<Rightarrow> Inr (cmdline_tokens content [] []))"

text \<open>The loop of \<^verbatim>\<open>qvi_pid_environ\<close>: it returns the entries and the final \<open>start\<close>.\<close>

function environ_loop :: "string \<Rightarrow> string list \<Rightarrow> nat \<Rightarrow> string list \<times> nat" where
  "environ_loop content envs start =
     (case str_find content [CHR 0x00] start of
        None \<Rightarrow> (envs, start)
      | Some e \<Rightarrow> environ_loop content (envs @ [take (e - start) (drop start content)]) (e + 1))"
  by pat_completeness auto
termination
proof (relation "measure (\<lambda>(content, _, start). length content - start)")
  fix content envs start e
  assume "str_find content [CHR 0x00] start = Some e"
  from str_find_Some(1,2) [OF this]
  show "((content, envs @ [take (e - start) (drop start content)], e + 1), content, envs, start)
    \<in> measure (\<lambda>(content, _, start). length content - start)" by simp
qed simp

declare environ_loop.simps [simp del]

definition environ_tokens :: "string \<Rightarrow> string list" where
  "environ_tokens content =
     (case environ_loop content [] 0 of (envs, start) \<Rightarrow>
        if start < length content then envs @ [drop start content] else envs)"

definition qvi_pid_environ :: "proc_fs \<Rightarrow> int \<Rightarrow> string list res" where
  "qvi_pid_environ fs pid =
     (case proc_file fs (''/proc/'' @ std_to_string pid @ ''/environ'') of
        Missing \<Rightarrow> Inl (Rc QV_ERR_NOT_FOUND)
      | Fs_error \<Rightarrow> Inl (Rc QV_ERR_FILE_IO)
      | Content content \<Rightarrow> Inr (environ_tokens content))"

section \<open>Port numbers of daemons\<close>

text \<open>
  Splits \<open>key=value\<close>. The delimiter is not empty, so the split always returns
  (\<open>qvi_split_string_ok\<close>) and the first branch is never taken.
\<close>

definition port_of_pair :: "string \<Rightarrow> int res" where
  "port_of_pair s =
     (case qvi_split_string s ''='' of
        None \<Rightarrow> Inl StdExn
      | Some kv \<Rightarrow>
          if length kv \<noteq> 2 then Inl (Rterror QV_ERR_INTERNAL)
          else rbind (vec_at kv 1) qvi_stoi)"

fun portno_in_cmdline :: "string list \<Rightarrow> int res" where
  "portno_in_cmdline [] = Inr QVI_PORT_UNSET"
| "portno_in_cmdline (arg # rest) =
     (if is_prefix_at arg ''--port='' 0 then port_of_pair arg
      else if arg = ''--port''
      then (case rest of [] \<Rightarrow> Inr QVI_PORT_UNSET | val # _ \<Rightarrow> qvi_stoi val)
      else portno_in_cmdline rest)"

definition get_portno_from_pid_cmdline :: "proc_fs \<Rightarrow> int \<Rightarrow> int res" where
  "get_portno_from_pid_cmdline fs pid =
     (case qvi_pid_cmdline fs pid of
        Inl _ \<Rightarrow> Inr QVI_PORT_UNSET
      | Inr argv \<Rightarrow> portno_in_cmdline argv)"

fun portno_in_environ :: "string list \<Rightarrow> int res" where
  "portno_in_environ [] = Inr QVI_PORT_UNSET"
| "portno_in_environ (env # rest) =
     (if is_prefix_at env (QVI_ENV_PORT @ ''='') 0 then port_of_pair env
      else portno_in_environ rest)"

definition get_portno_from_pid_environ :: "proc_fs \<Rightarrow> int \<Rightarrow> int res" where
  "get_portno_from_pid_environ fs pid =
     (case qvi_pid_environ fs pid of
        Inl _ \<Rightarrow> Inr QVI_PORT_UNSET
      | Inr envs \<Rightarrow> portno_in_environ envs)"

text \<open>The port of one process: the command line first, then the environment.\<close>

definition portno_of_pid :: "proc_fs \<Rightarrow> int \<Rightarrow> int res" where
  "portno_of_pid fs pid =
     rbind (get_portno_from_pid_cmdline fs pid) (\<lambda>port.
       if port = QVI_PORT_UNSET then get_portno_from_pid_environ fs pid else Inr port)"

fun discover_pids :: "proc_fs \<Rightarrow> int list \<Rightarrow> int \<Rightarrow> (qv_rc \<times> int) res" where
  "discover_pids fs [] target_port = Inr (QV_ERR_NOT_FOUND, target_port)"
| "discover_pids fs (pid # pids) target_port =
     rbind (portno_of_pid fs pid) (\<lambda>port.
       if port = QVI_PORT_UNSET then discover_pids fs pids target_port
       else if target_port = QVI_PORT_UNSET then Inr (QV_SUCCESS, port)
       else if target_port = port then Inr (QV_SUCCESS, target_port)
       else discover_pids fs pids target_port)"

text \<open>The returned code and the value that \<^verbatim>\<open>target_port\<close> then has.\<close>

definition discover_impl :: "proc_fs \<Rightarrow> int \<Rightarrow> (qv_rc \<times> int) res" where
  "discover_impl fs target_port =
     (case qvi_running fs QVI_DAEMON_NAME of
        Inl (Rc rc) \<Rightarrow> Inr (rc, target_port)
      | Inl e \<Rightarrow> Inl e
      | Inr pids \<Rightarrow> discover_pids fs pids target_port)"

section \<open>Retrying\<close>

text \<open>
  \<^verbatim>\<open>discover_with_backoff\<close>. \<open>discover_fn n\<close> is the \<open>n\<close>-th call of the discovery function
  (the system changes between calls); the result carries the number of calls made. The jitter only
  lengthens the sleep between two calls. The delay starts at one millisecond and is doubled, so the
  test for a zero delay never holds; it is there for the termination argument.
\<close>

function backoff_loop ::
  "(nat \<Rightarrow> int \<Rightarrow> (qv_rc \<times> int) res) \<Rightarrow> nat \<Rightarrow> nat \<Rightarrow> nat \<Rightarrow> int \<Rightarrow> (qv_rc \<times> int \<times> nat) res" where
  "backoff_loop discover_fn max_delay cur_delay n portno =
     rbind (discover_fn n portno) (\<lambda>(rc, portno).
       if rc = QV_SUCCESS then Inr (rc, portno, Suc n)
       else if cur_delay \<ge> max_delay \<or> cur_delay = 0 then Inr (rc, portno, Suc n)
       else backoff_loop discover_fn max_delay (min (cur_delay * 2) max_delay) (Suc n) portno)"
  by pat_completeness auto
termination by (relation "measure (\<lambda>(_, max_delay, cur_delay, _, _). max_delay - cur_delay)") auto

declare backoff_loop.simps [simp del]

definition discover_with_backoff ::
  "(nat \<Rightarrow> int \<Rightarrow> (qv_rc \<times> int) res) \<Rightarrow> int \<Rightarrow> nat \<Rightarrow> (qv_rc \<times> int \<times> nat) res" where
  "discover_with_backoff discover_fn portno max_delay_in_ms =
     (let start_delay = 1;
          max_delay = (if max_delay_in_ms < start_delay then start_delay else max_delay_in_ms)
      in backoff_loop discover_fn max_delay start_delay 0 portno)"

definition qvi_session_discover :: "(nat \<Rightarrow> proc_fs) \<Rightarrow> nat \<Rightarrow> int \<Rightarrow> (qv_rc \<times> int \<times> nat) res" where
  "qvi_session_discover fs max_timeout_in_ms portno =
     discover_with_backoff (\<lambda>n. discover_impl (fs n)) portno max_timeout_in_ms"

text \<open>The command line of the daemon that \<^verbatim>\<open>qvi_start_quo_vadisd\<close> executes.\<close>

definition qvi_start_quo_vadisd_argss :: "int \<Rightarrow> string list" where
  "qvi_start_quo_vadisd_argss portno = [QVI_DAEMON_NAME, ''--port'', std_to_string portno]"

text \<open>
  \<^verbatim>\<open>qvi_start_quo_vadisd\<close>: \<open>fork\<close> is \<open>None\<close> when the call fails; \<open>exec\<close> tells whether the
  child's \<^verbatim>\<open>execvp\<close> of these arguments succeeds. The first component is the value that
  the parent returns, the second the command line of the process that runs in the child
  (\<open>None\<close>: it has exited with a failure).
\<close>

definition qvi_start_quo_vadisd ::
  "int option \<Rightarrow> (string list \<Rightarrow> bool) \<Rightarrow> int \<Rightarrow> qv_rc \<times> string list option" where
  "qvi_start_quo_vadisd fork exec portno =
     (case fork of
        None \<Rightarrow> (QV_ERR_SYS, None)
      | Some pid \<Rightarrow>
          (QV_SUCCESS, if exec (qvi_start_quo_vadisd_argss portno)
                       then Some (qvi_start_quo_vadisd_argss portno) else None))"

section \<open>Lemmas\<close>

lemma cmdline_tokens_arg:
  "CHR 0x00 \<notin> set a \<Longrightarrow>
    cmdline_tokens (a @ CHR 0x00 # cs) cur argv =
      (if cur @ a = [] then cmdline_tokens cs [] argv else cmdline_tokens cs [] (argv @ [cur @ a]))"
  by (induction a arbitrary: cur) auto

text \<open>The kernel's format: every argument followed by a null byte.\<close>

definition proc_cmdline :: "string list \<Rightarrow> string" where
  "proc_cmdline args = concat (map (\<lambda>a. a @ [CHR 0x00]) args)"

lemma cmdline_tokens_proc_cmdline:
  "\<forall>a \<in> set args. CHR 0x00 \<notin> set a \<Longrightarrow>
    cmdline_tokens (proc_cmdline args) [] argv = argv @ filter (\<lambda>a. a \<noteq> []) args"
  by (induction args arbitrary: argv) (auto simp: proc_cmdline_def cmdline_tokens_arg)

lemma str_find_char_drop:
  assumes "CHR 0x00 \<notin> set a" "content = p @ a @ CHR 0x00 # cs" "start = length p"
  shows "str_find content [CHR 0x00] start = Some (start + length a)"
proof (cases "str_find content [CHR 0x00] start")
  case None
  have "is_prefix_at content [CHR 0x00] (start + length a)"
    using assms by (simp add: is_prefix_at_def)
  with None assms show ?thesis
    by (auto simp: str_find_def find_None_iff simp del: upt_Suc)
next
  case (Some e)
  note f = str_find_Some [OF Some]
  have at: "is_prefix_at content [CHR 0x00] (start + length a)"
    using assms by (simp add: is_prefix_at_def)
  have "e = start + length a"
  proof (rule ccontr)
    assume ne: "e \<noteq> start + length a"
    have "\<not> start + length a < e" using f(4) at by auto
    with ne f(1) have e: "e < start + length a" "start \<le> e" by auto
    have "content ! e = CHR 0x00"
      using f(2,3) by (auto simp: take_Suc_conv_app_nth dest: arg_cong [where f = hd])
    moreover have "content ! e = a ! (e - start)" using e assms by (simp add: nth_append less_diff_conv2)
    moreover have "a ! (e - start) \<in> set a" using e by auto
    ultimately show False using assms(1) by auto
  qed
  with Some show ?thesis by simp
qed

lemma str_find_char_None:
  "CHR 0x00 \<notin> set (drop start content) \<Longrightarrow> str_find content [CHR 0x00] start = None"
proof -
  assume a: "CHR 0x00 \<notin> set (drop start content)"
  have "\<not> is_prefix_at content [CHR 0x00] i" if "start \<le> i" for i
    using a that unfolding is_prefix_at_def
    by (metis append_take_drop_id drop_drop in_set_dropD le_add_diff_inverse2 length_Cons list.set_intros(1) list.size(3) set_append Un_iff One_nat_def)
  then show ?thesis by (auto simp: str_find_def find_None_iff simp del: upt_Suc)
qed

lemma environ_loop_proc:
  assumes "\<forall>a \<in> set es. CHR 0x00 \<notin> set a"
  shows "environ_loop (p @ proc_cmdline es) envs (length p) =
    (envs @ es, length (p @ proc_cmdline es))"
  using assms
proof (induction es arbitrary: p envs)
  case Nil
  then show ?case
    by (subst environ_loop.simps) (simp add: str_find_char_None proc_cmdline_def)
next
  case (Cons a es)
  have eq: "p @ proc_cmdline (a # es) = (p @ a @ [CHR 0x00]) @ proc_cmdline es"
    by (simp add: proc_cmdline_def)
  have "str_find (p @ proc_cmdline (a # es)) [CHR 0x00] (length p) = Some (length p + length a)"
    using Cons.prems by (intro str_find_char_drop [where cs = "proc_cmdline es"]) (auto simp: proc_cmdline_def)
  then have "environ_loop (p @ proc_cmdline (a # es)) envs (length p) =
     environ_loop ((p @ a @ [CHR 0x00]) @ proc_cmdline es) (envs @ [a]) (length (p @ a @ [CHR 0x00]))"
    by (subst environ_loop.simps) (simp add: eq)
  also have "\<dots> = ((envs @ [a]) @ es, length ((p @ a @ [CHR 0x00]) @ proc_cmdline es))"
    by (rule Cons.IH) (use Cons.prems in simp)
  finally show ?case by (simp add: eq)
qed

lemma environ_tokens_proc:
  "\<forall>a \<in> set es. CHR 0x00 \<notin> set a \<Longrightarrow> environ_tokens (proc_cmdline es) = es"
  using environ_loop_proc [of es "[]" "[]"] by (simp add: environ_tokens_def)

lemma nat_to_string_no_null: "CHR 0x00 \<notin> set (nat_to_string n)"
  using nat_to_string_digits [of n] by (auto simp: isdigit_def)

lemma discover_pids_sound:
  assumes "discover_pids fs pids t = Inr (rc, p)"
  shows "(rc = QV_SUCCESS \<and> p \<noteq> QVI_PORT_UNSET \<and> (t = QVI_PORT_UNSET \<or> p = t) \<and>
          (\<exists>pid \<in> set pids. portno_of_pid fs pid = Inr p)) \<or>
         (rc = QV_ERR_NOT_FOUND \<and> p = t \<and>
          (\<forall>pid \<in> set pids. \<exists>q. portno_of_pid fs pid = Inr q \<and>
             (q = QVI_PORT_UNSET \<or> (t \<noteq> QVI_PORT_UNSET \<and> q \<noteq> t))))"
  using assms
proof (induction pids)
  case (Cons pid pids)
  then obtain q where q: "portno_of_pid fs pid = Inr q" by (auto simp: rc_simps)
  from Cons q show ?case by (auto split: if_splits)
qed simp

lemma backoff_loop_bound:
  assumes "\<And>n p. \<exists>rc q. f n p = Inr (rc, q)"
    and "0 < cur" "mx \<le> cur * 2 ^ j"
  shows "\<exists>rc q k. backoff_loop f mx cur n p = Inr (rc, q, n + Suc k) \<and> k \<le> j \<and>
    (rc = QV_SUCCESS \<or> mx \<le> cur * 2 ^ k)"
  using assms(2,3)
proof (induction j arbitrary: cur n p)
  case 0
  obtain rc q where f: "f n p = Inr (rc, q)" using assms(1) by blast
  show ?case using 0 by (subst backoff_loop.simps) (auto simp: f)
next
  case (Suc j)
  obtain rc q where f: "f n p = Inr (rc, q)" using assms(1) by blast
  show ?case
  proof (cases "rc = QV_SUCCESS \<or> mx \<le> cur")
    case True
    then show ?thesis by (subst backoff_loop.simps) (auto simp: f)
  next
    case False
    define cur' where "cur' = min (cur * 2) mx"
    have step: "backoff_loop f mx cur n p = backoff_loop f mx cur' (Suc n) q"
      using False Suc.prems by (subst backoff_loop.simps) (auto simp: f cur'_def)
    have "mx \<le> mx * 2 ^ j" by simp
    then have c: "0 < cur'" "mx \<le> cur' * 2 ^ j" "cur' \<le> cur * 2"
      using False Suc.prems by (auto simp: cur'_def min_def)
    from Suc.IH [OF c(1,2)] obtain rc' q' k where
      k: "backoff_loop f mx cur' (Suc n) q = Inr (rc', q', Suc n + Suc k)" "k \<le> j"
        "rc' = QV_SUCCESS \<or> mx \<le> cur' * 2 ^ k" by blast
    have "cur' * 2 ^ k \<le> cur * 2 ^ Suc k" using mult_le_mono1 [OF c(3), of "2 ^ k"] by simp
    then have "rc' = QV_SUCCESS \<or> mx \<le> cur * 2 ^ Suc k" using k(3) by linarith
    with k(1,2) step show ?thesis by (intro exI [of _ rc'] exI [of _ q'] exI [of _ "Suc k"]) auto
  qed
qed

section \<open>Properties\<close>

text \<open>Discovery with a given port succeeds only for a running daemon that uses it, discovery
  without one yields the port of some running daemon, and a failed discovery means that no running
  daemon matches.\<close>

theorem discover_impl_correct:
  assumes "qvi_running fs QVI_DAEMON_NAME = Inr pids" "discover_impl fs t = Inr (rc, p)"
  shows "(rc = QV_SUCCESS \<and> p \<noteq> QVI_PORT_UNSET \<and> (t = QVI_PORT_UNSET \<or> p = t) \<and>
          (\<exists>pid \<in> set pids. portno_of_pid fs pid = Inr p)) \<or>
         (rc = QV_ERR_NOT_FOUND \<and> p = t \<and>
          (\<forall>pid \<in> set pids. \<exists>q. portno_of_pid fs pid = Inr q \<and>
             (q = QVI_PORT_UNSET \<or> (t \<noteq> QVI_PORT_UNSET \<and> q \<noteq> t))))"
  using discover_pids_sound [of fs pids t rc p] assms by (simp add: discover_impl_def)

text \<open>A daemon that \<^verbatim>\<open>qvi_start_quo_vadisd\<close> has started is found with its port: the
  kernel's record of its command line is parsed back to the port number it was started with.\<close>

theorem started_daemon_is_found:
  assumes "0 \<le> port" "port < 2 ^ 31"
    and "qvi_start_quo_vadisd (Some child) exec port = (QV_SUCCESS, Some argv)"
    and "proc_file fs (''/proc/'' @ std_to_string pid @ ''/cmdline'') = Content (proc_cmdline argv)"
  shows "portno_of_pid fs pid = Inr port"
proof -
  have argv: "argv = qvi_start_quo_vadisd_argss port"
    using assms(3) by (auto simp: qvi_start_quo_vadisd_def split: if_splits)
  have s: "std_to_string port = nat_to_string (nat port)" using assms(1) by (simp add: std_to_string_def)
  have "\<forall>a \<in> set argv. CHR 0x00 \<notin> set a"
    using nat_to_string_no_null by (auto simp: argv qvi_start_quo_vadisd_argss_def QVI_DAEMON_NAME_def s)
  then have "cmdline_tokens (proc_cmdline argv) [] [] = argv"
    using cmdline_tokens_proc_cmdline [of argv "[]"]
    by (simp add: argv qvi_start_quo_vadisd_argss_def QVI_DAEMON_NAME_def s)
  then have "get_portno_from_pid_cmdline fs pid = portno_in_cmdline argv"
    using assms(4) by (simp add: get_portno_from_pid_cmdline_def qvi_pid_cmdline_def)
  also have "\<dots> = Inr port"
    using qvi_stoi_nat_to_string [of "nat port"] assms(1,2)
    by (simp add: argv qvi_start_quo_vadisd_argss_def QVI_DAEMON_NAME_def is_prefix_at_def s)
  finally show ?thesis using assms(1) by (simp add: portno_of_pid_def QVI_PORT_UNSET_def)
qed

definition one_daemon_fs :: "string list \<Rightarrow> proc_fs" where
  "one_daemon_fs argv =
     \<lparr>proc_dir = Some [\<lparr>pe_is_directory = True, pe_filename = ''42'', pe_comm = Some (QVI_DAEMON_NAME @ newline)\<rparr>],
      proc_file = (\<lambda>path. if path = ''/proc/42/cmdline'' then Content (proc_cmdline argv) else Missing)\<rparr>"

lemma nat_to_string_42: "std_to_string 42 = ''42''"
  by code_simp

lemma portno_one_daemon:
  "portno_of_pid (one_daemon_fs [''quo-vadisd'', ''--port'', ''7'']) 42 = Inr 7"
  by (simp add: portno_of_pid_def get_portno_from_pid_cmdline_def qvi_pid_cmdline_def one_daemon_fs_def
      nat_to_string_42 proc_cmdline_def is_prefix_at_def QVI_PORT_UNSET_def)
     (code_simp)

theorem started_daemon_is_found_witness:
  "portno_of_pid (one_daemon_fs (qvi_start_quo_vadisd_argss 55999)) 42 = Inr 55999"
  using started_daemon_is_found [of 55999 1 "\<lambda>_. True" "qvi_start_quo_vadisd_argss 55999"
      "one_daemon_fs (qvi_start_quo_vadisd_argss 55999)" 42]
  by (simp add: qvi_start_quo_vadisd_def one_daemon_fs_def nat_to_string_42)

lemma running_one_daemon: "qvi_running (one_daemon_fs argv) QVI_DAEMON_NAME = Inr [42]"
proof -
  have "qvi_stoi ''42'' = Inr 42" by code_simp
  then show ?thesis
    by (simp add: qvi_running_def one_daemon_fs_def running_entry_def is_numeric_def isdigit_def getline_def
        QVI_DAEMON_NAME_def strip_newline_def)
qed

theorem discover_impl_correct_witness:
  "discover_impl (one_daemon_fs [''quo-vadisd'', ''--port'', ''7'']) QVI_PORT_UNSET = Inr (QV_SUCCESS, 7) \<and>
   (\<exists>pid \<in> set [42]. portno_of_pid (one_daemon_fs [''quo-vadisd'', ''--port'', ''7'']) pid = Inr 7)"
proof -
  let ?fs = "one_daemon_fs [''quo-vadisd'', ''--port'', ''7'']"
  have d: "discover_impl ?fs QVI_PORT_UNSET = Inr (QV_SUCCESS, 7)"
    by (simp add: discover_impl_def running_one_daemon portno_one_daemon QVI_PORT_UNSET_def)
  from discover_impl_correct [OF running_one_daemon d] d show ?thesis by auto
qed

text \<open>C39: the retry loop ends: with a timeout of at most \<open>2 ^ j\<close> milliseconds it makes at most
  \<open>j + 1\<close> attempts, and it gives up only after the delay has reached the timeout.\<close>

theorem discover_with_backoff_bounded:
  assumes "\<And>n p. \<exists>rc q. discover_fn n p = Inr (rc, q)" "max_delay_in_ms \<le> 2 ^ j"
  shows "\<exists>rc q n. discover_with_backoff discover_fn portno max_delay_in_ms = Inr (rc, q, Suc n) \<and> n \<le> j \<and>
    (rc = QV_SUCCESS \<or> max_delay_in_ms \<le> 2 ^ n)"
proof -
  define mx where "mx = (if max_delay_in_ms < 1 then 1 else max_delay_in_ms)"
  have "mx \<le> 1 * 2 ^ j" using assms(2) by (auto simp: mx_def)
  from backoff_loop_bound [of discover_fn, OF assms(1) _ this, of 0 portno] obtain rc q k where
    "backoff_loop discover_fn mx 1 0 portno = Inr (rc, q, 0 + Suc k)" "k \<le> j" "rc = QV_SUCCESS \<or> mx \<le> 1 * 2 ^ k"
    by auto
  then show ?thesis by (auto simp: discover_with_backoff_def mx_def Let_def split: if_splits)
qed

theorem discover_with_backoff_bounded_witness:
  "\<exists>rc q n. discover_with_backoff (\<lambda>n p. Inr (if n = 3 then QV_SUCCESS else QV_ERR_NOT_FOUND, p)) 7 5000 = Inr (rc, q, Suc n) \<and> n \<le> 13"
  using discover_with_backoff_bounded [of "\<lambda>n p. Inr (if n = 3 then QV_SUCCESS else QV_ERR_NOT_FOUND, p)" 5000 13 7] by auto

end
