(* ===== verification/QV_Map.thy ===== *)
theory QV_Map
  imports QV_Utils
begin

text \<open>
  The mapping functions of \<^verbatim>\<open>qvi-map.h\<close> and \<^verbatim>\<open>qvi-map.cc\<close> apart
  from the stable matching solver: inversion, uniqueness, affinity calculation, the colour, packed
  and spread mappers, colour clamping and the textual form of an assignment.
  The test \<^verbatim>\<open>hwloc_bitmap_intersects\<close> of the hwloc library is the parameter
  \<open>intersects\<close>. Log output is not modelled.
\<close>

section \<open>Data\<close>

type_synonym qvi_map_t = "(nat, nat oset) omap"

text \<open>The invariant of a \<^verbatim>\<open>std::map<size_t, std::set<size_t>>\<close>.\<close>

definition map_ok :: "qvi_map_t \<Rightarrow> bool" where
  "map_ok m \<longleftrightarrow> om_ok m \<and> (\<forall>(k, s) \<in> set m. os_ok s)"

text \<open>The destinations of a source, empty for a source that is not in the map.\<close>

definition dests :: "qvi_map_t \<Rightarrow> nat \<Rightarrow> nat set" where
  "dests m k = set (om_ref [] k m)"

definition keys :: "('k, 'v) omap \<Rightarrow> 'k set" where
  "keys m = dom (map_of m)"

text \<open>\<^verbatim>\<open>map[k].insert(v)\<close>\<close>

definition map_ins :: "nat \<Rightarrow> nat \<Rightarrow> qvi_map_t \<Rightarrow> qvi_map_t" where
  "map_ins k v m = om_upd [] k (os_insert v) m"

lemma map_ok_Nil [simp]: "map_ok []"
  by (simp add: map_ok_def)

lemma map_ok_om_ok: "map_ok m \<Longrightarrow> om_ok m"
  by (simp add: map_ok_def)

lemma map_ok_iff: "map_ok m \<longleftrightarrow> om_ok m \<and> (\<forall>k s. map_of m k = Some s \<longrightarrow> os_ok s)"
  using map_of_Some_iff [of m] by (fastforce simp: map_ok_def)

lemma map_ok_ref: "map_ok m \<Longrightarrow> os_ok (om_ref [] k m)"
  by (auto simp: map_ok_iff om_ref_def split: option.split)

lemma map_ok_add [simp]: "map_ok m \<Longrightarrow> map_ok (map_ins k v m)"
  using map_ok_ref by (auto simp: map_ok_iff map_ins_def split: if_splits)

lemma dests_Nil [simp]: "dests [] k = {}"
  by (simp add: dests_def om_ref_def)

lemma dests_add [simp]: "dests (map_ins k v m) k' = (if k' = k then insert v (dests m k) else dests m k')"
  by (simp add: dests_def map_ins_def)

lemma keys_Nil [simp]: "keys [] = {}"
  by (simp add: keys_def)

lemma keys_put [simp]: "keys (om_put k v m) = insert k (keys m)"
  by (simp add: keys_def)

lemma finite_keys [simp]: "finite (keys m)"
  by (simp add: keys_def finite_dom_map_of)

lemma keys_add [simp]: "keys (map_ins k v m) = insert k (keys m)"
  by (simp add: map_ins_def om_upd_def)

lemma map_of_add [simp]: "map_of (map_ins k v m) = (map_of m)(k \<mapsto> os_insert v (om_ref [] k m))"
  by (simp add: map_ins_def)

lemma dests_empty_iff: "dests m k \<noteq> {} \<Longrightarrow> k \<in> keys m"
  by (cases "map_of m k") (auto simp: dests_def om_ref_def keys_def)

lemma map_eqI:
  assumes "map_ok m" "map_ok m'" "keys m = keys m'" "\<And>k. dests m k = dests m' k"
  shows "m = m'"
proof (rule om_eqI)
  show "map_of m = map_of m'"
  proof (rule ext)
    fix k
    have "os_ok (om_ref [] k m)" "os_ok (om_ref [] k m')" "set (om_ref [] k m) = set (om_ref [] k m')"
      using assms by (simp_all add: map_ok_ref dests_def)
    then have *: "om_ref [] k m = om_ref [] k m'" by (rule os_eqI)
    have "map_of m k = None \<longleftrightarrow> map_of m' k = None"
      using assms(3) by (metis keys_def domIff)
    with * show "map_of m k = map_of m' k"
      by (auto simp: om_ref_def split: option.splits)
  qed
qed (use assms in \<open>auto simp: map_ok_def\<close>)

text \<open>A loop of insertions, read as a relation between sources and destinations.\<close>

lemma map_ok_adds [simp]: "map_ok m \<Longrightarrow> map_ok (fold (\<lambda>(k, v). map_ins k v) ps m)"
  by (induction ps arbitrary: m) auto

lemma dests_adds: "dests (fold (\<lambda>(k, v). map_ins k v) ps m) k = dests m k \<union> {v. (k, v) \<in> set ps}"
proof (induction ps arbitrary: m)
  case (Cons p ps)
  then show ?case by (cases p) auto
qed simp

lemma keys_adds: "keys (fold (\<lambda>(k, v). map_ins k v) ps m) = keys m \<union> fst ` set ps"
proof (induction ps arbitrary: m)
  case (Cons p ps)
  then show ?case by (cases p) auto
qed simp

section \<open>Inversion and uniqueness\<close>

definition invert_map :: "qvi_map_t \<Rightarrow> qvi_map_t" where
  "invert_map original =
     fold (\<lambda>(key, values) inverted. fold (\<lambda>value inverted. map_ins value key inverted) values inverted)
          original []"

lemma invert_map_inss:
  "fold (\<lambda>(key, values) acc. fold (\<lambda>value acc. map_ins value key acc) values acc) m acc =
     fold (\<lambda>(k, v). map_ins k v) (concat (map (\<lambda>(key, values). map (\<lambda>v. (v, key)) values) m)) acc"
proof (induction m arbitrary: acc)
  case (Cons e m)
  obtain key vs where e: "e = (key, vs)" by (cases e)
  have "fold (\<lambda>value acc. map_ins value key acc) vs a =
      fold (\<lambda>(k, v). map_ins k v) (map (\<lambda>v. (v, key)) vs) a" for a
    by (induction vs arbitrary: a) auto
  with Cons e show ?case by simp
qed simp

lemma map_ok_invert [simp]: "map_ok (invert_map m)"
  by (simp add: invert_map_def invert_map_inss)

lemma dests_eq_pairs: "om_ok m \<Longrightarrow> dests m k = {v. \<exists>s. (k, s) \<in> set m \<and> v \<in> set s}"
  by (cases "map_of m k") (auto simp: dests_def om_ref_def map_of_Some_iff [symmetric])

lemma dests_invert: "om_ok m \<Longrightarrow> dests (invert_map m) v = {k. v \<in> dests m k}"
  by (auto simp: invert_map_def invert_map_inss dests_adds dests_eq_pairs)

lemma keys_invert: "om_ok m \<Longrightarrow> keys (invert_map m) = (\<Union>k. dests m k)"
  by (force simp: invert_map_def invert_map_inss keys_adds dests_eq_pairs)

text \<open>\<^verbatim>\<open>k_set_intersection\<close>: with the early exit on an empty intermediate result.\<close>

fun k_set_intersection_loop :: "'a oset \<Rightarrow> 'a oset list \<Rightarrow> 'a oset" where
  "k_set_intersection_loop result [] = result"
| "k_set_intersection_loop result (s # sets) =
     (let tmp = filter (\<lambda>x. x \<in> set s) result
      in if tmp = [] then tmp else k_set_intersection_loop tmp sets)"

definition k_set_intersection :: "'a oset list \<Rightarrow> 'a oset" where
  "k_set_intersection sets =
     (case sets of [] \<Rightarrow> [] | [s] \<Rightarrow> s | s # ss \<Rightarrow> k_set_intersection_loop s ss)"

lemma set_k_set_intersection_loop:
  "set (k_set_intersection_loop r ss) = set r \<inter> (\<Inter>s \<in> set ss. set s)"
proof (induction ss arbitrary: r)
  case (Cons s ss)
  then show ?case by (auto simp: Let_def filter_empty_conv)
qed simp

lemma os_ok_k_set_intersection_loop: "os_ok r \<Longrightarrow> os_ok (k_set_intersection_loop r ss)"
  by (induction ss arbitrary: r) (auto simp: Let_def)

text \<open>\<^verbatim>\<open>qvi_map_uniq\<close>: the inner loop takes the first destination not seen yet.\<close>

definition map_uniq_step :: "nat \<times> nat oset \<Rightarrow> qvi_map_t \<times> nat oset \<Rightarrow> qvi_map_t \<times> nat oset" where
  "map_uniq_step e st =
     (case e of (src, dsts) \<Rightarrow> case st of (result, seen) \<Rightarrow>
        case find (\<lambda>dst. dst \<notin> set seen) dsts of
          None \<Rightarrow> (result, seen)
        | Some dst \<Rightarrow> (om_insert src [dst] result, os_insert dst seen))"

definition qvi_map_uniq :: "qvi_map_t \<Rightarrow> qvi_map_t" where
  "qvi_map_uniq m = fst (fold map_uniq_step m ([], []))"

section \<open>Affinities\<close>

definition qvi_map_calc_affinities ::
  "('b \<Rightarrow> 'b \<Rightarrow> bool) \<Rightarrow> 'b list \<Rightarrow> 'b list \<Rightarrow> qvi_map_t" where
  "qvi_map_calc_affinities intersects src dst =
     fold (\<lambda>srci result.
             fold (\<lambda>dsti result.
                     if intersects (src ! srci) (dst ! dsti) then map_ins srci dsti result else result)
                  [0..<length dst] result)
          [0..<length src] []"

lemma fold_if_filter:
  "fold (\<lambda>x acc. if P x then f x acc else acc) xs acc = fold f (filter P xs) acc"
  by (induction xs arbitrary: acc) auto

lemma fold_map_ins_row: "fold (\<lambda>d. map_ins i d) ds a = fold (\<lambda>(k, v). map_ins k v) (map (Pair i) ds) a"
  by (induction ds arbitrary: a) auto

lemma fold_fold_concat:
  "fold (\<lambda>i a. fold f (g i) a) xs a = fold f (concat (map g xs)) a"
  by (induction xs arbitrary: a) auto

definition affinity_pairs :: "('b \<Rightarrow> 'b \<Rightarrow> bool) \<Rightarrow> 'b list \<Rightarrow> 'b list \<Rightarrow> (nat \<times> nat) list" where
  "affinity_pairs intersects src dst =
     concat (map (\<lambda>i. map (Pair i) (filter (\<lambda>d. intersects (src ! i) (dst ! d)) [0..<length dst]))
          [0..<length src])"

lemma calc_affinities_adds:
  "qvi_map_calc_affinities intersects src dst =
     fold (\<lambda>(k, v). map_ins k v) (affinity_pairs intersects src dst) []"
  by (simp add: qvi_map_calc_affinities_def affinity_pairs_def fold_if_filter fold_map_ins_row
      fold_fold_concat)

lemma set_affinity_pairs:
  "set (affinity_pairs intersects src dst) =
     {(i, d). i < length src \<and> d < length dst \<and> intersects (src ! i) (dst ! d)}"
  by (auto simp: affinity_pairs_def)

lemma calc_affinities_ok [simp]: "map_ok (qvi_map_calc_affinities intersects src dst)"
  by (simp add: calc_affinities_adds)

lemma dests_calc_affinities:
  "dests (qvi_map_calc_affinities intersects src dst) i =
     {d. i < length src \<and> d < length dst \<and> intersects (src ! i) (dst ! d)}"
  by (simp add: calc_affinities_adds dests_adds set_affinity_pairs)

lemma keys_calc_affinities:
  "keys (qvi_map_calc_affinities intersects src dst) =
     {i. i < length src \<and> (\<exists>d < length dst. intersects (src ! i) (dst ! d))}"
  by (force simp: calc_affinities_adds keys_adds set_affinity_pairs)

text \<open>A source without any affinity has no entry at all, so no entry is an empty set.\<close>

lemma calc_affinities_entry:
  assumes "map_of (qvi_map_calc_affinities intersects src dst) i = Some s"
  shows "i < length src" "s \<noteq> []" "set s \<subseteq> {..<length dst}"
proof -
  have k: "i \<in> keys (qvi_map_calc_affinities intersects src dst)"
    using assms by (auto simp: keys_def)
  then show "i < length src" by (simp add: keys_calc_affinities)
  have s: "set s = dests (qvi_map_calc_affinities intersects src dst) i"
    using assms by (simp add: dests_def om_ref_def)
  have "set s \<noteq> {}"
    using k unfolding s keys_calc_affinities dests_calc_affinities by blast
  then show "s \<noteq> []" by simp
  show "set s \<subseteq> {..<length dst}" unfolding s dests_calc_affinities by blast
qed

section \<open>Configuration\<close>

text \<open>
  \<^verbatim>\<open>qvi_map_fn_t\<close> is a \<^verbatim>\<open>std::function\<close>; the program only ever stores
  one of the four mappers in it or leaves it empty.
\<close>

datatype qvi_map_fn_t = Map_none | Map_colors | Map_packed | Map_spread | Map_close

record 'b qvi_map_config =
  nsrc :: nat
  ndst :: nat
  src_affinities :: "'b list"
  dst_affinities :: "'b list"
  src_colors :: "int list"
  map_fn :: qvi_map_fn_t

definition map_config_sizes :: "nat \<Rightarrow> nat \<Rightarrow> qvi_map_fn_t \<Rightarrow> 'b qvi_map_config" where
  "map_config_sizes n m fn =
     \<lparr>nsrc = n, ndst = m, src_affinities = [], dst_affinities = [], src_colors = [], map_fn = fn\<rparr>"

definition map_config_affinities :: "'b list \<Rightarrow> 'b list \<Rightarrow> qvi_map_fn_t \<Rightarrow> 'b qvi_map_config" where
  "map_config_affinities src dst fn =
     \<lparr>nsrc = 0, ndst = 0, src_affinities = src, dst_affinities = dst, src_colors = [], map_fn = fn\<rparr>"

definition map_config_colors :: "int list \<Rightarrow> qvi_map_fn_t \<Rightarrow> 'b qvi_map_config" where
  "map_config_colors colors fn =
     \<lparr>nsrc = 0, ndst = 0, src_affinities = [], dst_affinities = [], src_colors = colors, map_fn = fn\<rparr>"

section \<open>The simple mappers\<close>

definition qvi_map_colors :: "'b qvi_map_config \<Rightarrow> qvi_map_t \<Rightarrow> qvi_map_t res" where
  "qvi_map_colors config mp =
     (if \<not> list_all (\<lambda>val. val \<ge> 0) (src_colors config) then Inl Abort
      else Inr (fold (\<lambda>i mp. map_ins i (nat (src_colors config ! i)) mp)
                     [0..<length (src_colors config)] mp))"

definition packed_fill :: "nat \<Rightarrow> nat \<Rightarrow> nat \<times> qvi_map_t \<Rightarrow> nat \<times> qvi_map_t" where
  "packed_fill dest_id cnt st =
     fold (\<lambda>i (source_id, mp). (source_id + 1, map_ins source_id dest_id mp)) [0..<cnt] st"

definition qvi_map_packed :: "'b qvi_map_config \<Rightarrow> qvi_map_t \<Rightarrow> qvi_map_t res" where
  "qvi_map_packed config mp =
     (let inverted = nsrc config < ndst config;
          n = (if inverted then ndst config else nsrc config);
          m = (if inverted then nsrc config else ndst config)
      in if n = 0 \<or> m = 0 then Inr []
         else
           let base_count = n div m;
               extra = n mod m;
               (source_id, mp) =
                 fold (\<lambda>dest_id. packed_fill dest_id (base_count + (if dest_id < extra then 1 else 0)))
                      [0..<m] (0, mp)
           in Inr (if inverted then invert_map mp else mp))"

definition qvi_map_spread :: "'b qvi_map_config \<Rightarrow> qvi_map_t \<Rightarrow> qvi_map_t res" where
  "qvi_map_spread config mp =
     (let inverted = nsrc config < ndst config;
          n = (if inverted then ndst config else nsrc config);
          m = (if inverted then nsrc config else ndst config)
      in rbind (rfold (\<lambda>srci (dsti, mp).
                         if m = 0 then Inl Undef
                         else Inr (dsti + 1, map_ins srci (dsti mod m) mp))
                      [0..<n] (0, mp))
           (\<lambda>(dsti, mp). Inr (if inverted then invert_map mp else mp)))"

text \<open>
  \<^verbatim>\<open>qvi_map_clamp_colors\<close>: the set of colours is ordered, so every colour is
  replaced by its rank. \<open>colorp\<close> is an \<^verbatim>\<open>int\<close> bounded by the number of colours.
\<close>

definition clamp_table :: "int list \<Rightarrow> (int, int) omap" where
  "clamp_table colors =
     snd (fold (\<lambda>val (colorp, color2clamped). (colorp + 1, om_insert val colorp color2clamped))
               (os_of_list colors) (0, []))"

definition qvi_map_clamp_colors :: "int list \<Rightarrow> int list" where
  "qvi_map_clamp_colors colors = map (\<lambda>c. om_ref 0 c (clamp_table colors)) colors"

subsection \<open>The colour mapper\<close>

lemma fold_map_ins_adds:
  "fold (\<lambda>i m. map_ins (f i) (g i) m) xs m = fold (\<lambda>(k, v). map_ins k v) (map (\<lambda>i. (f i, g i)) xs) m"
  by (induction xs arbitrary: m) auto

lemma qvi_map_colors_Inr:
  assumes "qvi_map_colors config [] = Inr m"
  shows "map_ok m" "keys m = {..<length (src_colors config)}"
    "\<And>i. i < length (src_colors config) \<Longrightarrow> dests m i = {nat (src_colors config ! i)}"
proof -
  have m: "m = fold (\<lambda>(k, v). map_ins k v)
      (map (\<lambda>i. (i, nat (src_colors config ! i))) [0..<length (src_colors config)]) []"
    using assms by (simp add: qvi_map_colors_def fold_map_ins_adds split: if_splits)
  show "map_ok m" by (simp add: m)
  show "keys m = {..<length (src_colors config)}" by (auto simp: m keys_adds image_iff)
  show "dests m i = {nat (src_colors config ! i)}" if "i < length (src_colors config)" for i
    using that by (auto simp: m dests_adds)
qed

subsection \<open>The packed mapper\<close>

lemma packed_fill_eq:
  "packed_fill d c (s, m) = (s + c, fold (\<lambda>(k, v). map_ins k v) (map (\<lambda>i. (s + i, d)) [0..<c]) m)"
  by (induction c) (simp_all add: packed_fill_def)

definition packed_pairs :: "nat \<Rightarrow> nat \<Rightarrow> nat \<Rightarrow> (nat \<times> nat) list" where
  "packed_pairs n m k =
     concat (map (\<lambda>d. map (\<lambda>i. (chunk_start n m d + i, d)) [0..<chunk_size n m d]) [0..<k])"

lemma packed_loop:
  "fold (\<lambda>d. packed_fill d (n div m + (if d < n mod m then 1 else 0))) [0..<k] (0, mp) =
     (chunk_start n m k, fold (\<lambda>(k, v). map_ins k v) (packed_pairs n m k) mp)"
proof (induction k)
  case (Suc k)
  have "n div m + (if k < n mod m then 1 else 0) = chunk_size n m k"
    by (simp add: chunk_size_def)
  with Suc show ?case
    by (simp add: packed_fill_eq chunk_start_Suc packed_pairs_def del: One_nat_def)
qed (simp add: packed_pairs_def)

lemma set_packed_pairs:
  "set (packed_pairs n m k) = {(x, d). d < k \<and> chunk_start n m d \<le> x \<and> x < chunk_start n m (Suc d)}"
proof (rule set_eqI)
  fix p :: "nat \<times> nat"
  obtain x d where p: "p = (x, d)" by (cases p)
  have "p \<in> set (packed_pairs n m k) \<longleftrightarrow> d < k \<and> (\<exists>i < chunk_size n m d. x = chunk_start n m d + i)"
    by (auto simp: p packed_pairs_def image_iff)
  also have "\<dots> \<longleftrightarrow> d < k \<and> chunk_start n m d \<le> x \<and> x < chunk_start n m (Suc d)"
    unfolding chunk_start_Suc by (metis add_less_cancel_left le_Suc_ex le_add1)
  finally show "p \<in> set (packed_pairs n m k) \<longleftrightarrow>
      p \<in> {(x, d). d < k \<and> chunk_start n m d \<le> x \<and> x < chunk_start n m (Suc d)}"
    by (simp add: p)
qed

text \<open>The map that the packed mapper computes for at least as many sources as destinations.\<close>

lemma qvi_map_packed_direct:
  assumes "0 < ndst config" "ndst config \<le> nsrc config"
  shows "qvi_map_packed config [] =
    Inr (fold (\<lambda>(k, v). map_ins k v) (packed_pairs (nsrc config) (ndst config) (ndst config)) [])"
proof -
  have "\<not> nsrc config < ndst config" "nsrc config \<noteq> 0" "ndst config \<noteq> 0" using assms by auto
  then show ?thesis
    unfolding qvi_map_packed_def Let_def by (simp only: if_False packed_loop) simp
qed

lemma qvi_map_packed_inverted:
  assumes "0 < nsrc config" "nsrc config < ndst config"
  shows "qvi_map_packed config [] =
    Inr (invert_map
      (fold (\<lambda>(k, v). map_ins k v) (packed_pairs (ndst config) (nsrc config) (nsrc config)) []))"
proof -
  have "nsrc config \<noteq> 0" "ndst config \<noteq> 0" using assms by auto
  with assms show ?thesis
    unfolding qvi_map_packed_def Let_def by (simp only: if_True packed_loop) simp
qed

text \<open>
  What the mappers promise, stated once: with at least as many sources as destinations every source
  gets exactly one destination, every destination is used, and no two destinations differ by more
  than one in the number of their sources.
\<close>

definition load :: "qvi_map_t \<Rightarrow> nat \<Rightarrow> nat" where
  "load m d = card {s. d \<in> dests m s}"

definition balanced_assignment :: "nat \<Rightarrow> nat \<Rightarrow> qvi_map_t \<Rightarrow> bool" where
  "balanced_assignment n m mp \<longleftrightarrow>
     map_ok mp \<and> keys mp = {..<n} \<and>
     (\<forall>s < n. \<exists>d < m. dests mp s = {d}) \<and>
     (\<forall>d < m. load mp d = n div m \<or> load mp d = n div m + 1)"

lemma packed_map_dests:
  "dests (fold (\<lambda>(k, v). map_ins k v) (packed_pairs n m k) []) x =
     {d. d < k \<and> chunk_start n m d \<le> x \<and> x < chunk_start n m (Suc d)}"
  by (simp add: dests_adds set_packed_pairs)

lemma packed_map_single:
  assumes "0 < m" "x < n"
  shows "\<exists>d < m. dests (fold (\<lambda>(k, v). map_ins k v) (packed_pairs n m m) []) x = {d}"
proof -
  obtain d where d: "d < m" "chunk_start n m d \<le> x" "x < chunk_start n m (Suc d)"
    using chunk_of_position [OF assms] by blast
  then have "dests (fold (\<lambda>(k, v). map_ins k v) (packed_pairs n m m) []) x = {d}"
    using chunk_position_unique by (auto simp: packed_map_dests)
  with d(1) show ?thesis by blast
qed

lemma packed_map_keys:
  assumes "0 < m"
  shows "keys (fold (\<lambda>(k, v). map_ins k v) (packed_pairs n m m) []) = {..<n}"
proof
  show "keys (fold (\<lambda>(k, v). map_ins k v) (packed_pairs n m m) []) \<subseteq> {..<n}"
    using assms chunk_start_le [of m _ n]
    by (auto simp: keys_adds set_packed_pairs Suc_le_eq intro: less_le_trans)
  show "{..<n} \<subseteq> keys (fold (\<lambda>(k, v). map_ins k v) (packed_pairs n m m) [])"
    using packed_map_single [OF assms] dests_empty_iff by fastforce
qed

lemma packed_map_load:
  "d < m \<Longrightarrow> load (fold (\<lambda>(k, v). map_ins k v) (packed_pairs n m m) []) d = chunk_size n m d"
proof -
  assume d: "d < m"
  have "{s. d \<in> dests (fold (\<lambda>(k, v). map_ins k v) (packed_pairs n m m) []) s} =
      {chunk_start n m d..<chunk_start n m (Suc d)}"
    using d by (auto simp: packed_map_dests)
  then show ?thesis by (simp add: load_def chunk_start_Suc)
qed

lemma packed_map_balanced:
  "0 < m \<Longrightarrow> balanced_assignment n m (fold (\<lambda>(k, v). map_ins k v) (packed_pairs n m m) [])"
  by (simp add: balanced_assignment_def packed_map_keys packed_map_single packed_map_load
      chunk_size_def)

text \<open>The dual promise for fewer sources than destinations: the destinations are shared out.\<close>

definition partitioned_assignment :: "nat \<Rightarrow> nat \<Rightarrow> qvi_map_t \<Rightarrow> bool" where
  "partitioned_assignment n m mp \<longleftrightarrow>
     map_ok mp \<and> keys mp = {..<n} \<and>
     (\<forall>d < m. \<exists>!s. d \<in> dests mp s) \<and>
     (\<forall>s < n. dests mp s \<subseteq> {..<m} \<and>
        (card (dests mp s) = m div n \<or> card (dests mp s) = m div n + 1))"

lemma invert_balanced:
  assumes "balanced_assignment m n mp" "0 < n" "n \<le> m"
  shows "partitioned_assignment n m (invert_map mp)"
proof -
  have ok: "om_ok mp" and keys: "keys mp = {..<m}"
    and single: "\<And>d. d < m \<Longrightarrow> \<exists>s < n. dests mp d = {s}"
    and bal: "\<And>s. s < n \<Longrightarrow> load mp s = m div n \<or> load mp s = m div n + 1"
    using assms(1) by (auto simp: balanced_assignment_def map_ok_om_ok)
  have dom: "d < m" if "s \<in> dests mp d" for s d
    using that dests_empty_iff [of mp d] keys by blast
  have img: "s < n" if "s \<in> dests mp d" for s d
    using that single [OF dom [OF that]] by auto
  have pos: "load mp s > 0" if "s < n" for s
    using bal [OF that] assms(2,3) by (auto simp: div_greater_zero_iff)
  have "s \<in> (\<Union>d. dests mp d)" if "s < n" for s
    using pos [OF that] by (auto simp: load_def card_gt_0_iff)
  then have "keys (invert_map mp) = {..<n}"
    using img by (auto simp: keys_invert [OF ok])
  moreover have "\<exists>!s. d \<in> dests (invert_map mp) s" if "d < m" for d
    using single [OF that] by (auto simp: dests_invert [OF ok])
  moreover have "dests (invert_map mp) s \<subseteq> {..<m}" for s
    using dom by (auto simp: dests_invert [OF ok])
  moreover have "card (dests (invert_map mp) s) = m div n \<or>
      card (dests (invert_map mp) s) = m div n + 1" if "s < n" for s
    using bal [OF that] by (simp add: dests_invert [OF ok] load_def)
  ultimately show ?thesis by (simp add: partitioned_assignment_def)
qed

subsection \<open>The spread mapper\<close>

definition spread_pairs :: "nat \<Rightarrow> nat \<Rightarrow> (nat \<times> nat) list" where
  "spread_pairs n m = map (\<lambda>i. (i, i mod m)) [0..<n]"

lemma spread_loop:
  assumes "0 < m"
  shows "rfold (\<lambda>srci (dsti, mp). if m = 0 then Inl Undef else Inr (dsti + 1, map_ins srci (dsti mod m) mp))
      [0..<n] (0, mp) = Inr (n, fold (\<lambda>(k, v). map_ins k v) (spread_pairs n m) mp)"
  using assms by (induction n) (simp_all add: rfold_append spread_pairs_def)

lemma qvi_map_spread_direct:
  assumes "0 < ndst config" "ndst config \<le> nsrc config"
  shows "qvi_map_spread config [] =
    Inr (fold (\<lambda>(k, v). map_ins k v) (spread_pairs (nsrc config) (ndst config)) [])"
proof -
  have "\<not> nsrc config < ndst config" using assms by simp
  then show ?thesis
    unfolding qvi_map_spread_def Let_def by (simp only: if_False spread_loop [OF assms(1)]) simp
qed

lemma qvi_map_spread_inverted:
  assumes "0 < nsrc config" "nsrc config < ndst config"
  shows "qvi_map_spread config [] =
    Inr (invert_map (fold (\<lambda>(k, v). map_ins k v) (spread_pairs (ndst config) (nsrc config)) []))"
  using assms(2) unfolding qvi_map_spread_def Let_def
  by (simp only: if_True spread_loop [OF assms(1)]) simp

lemma card_residue:
  assumes "0 < m" "d < m"
  shows "card {s. s < n \<and> s mod m = d} = chunk_size n m d"
proof (induction n)
  case (Suc n)
  have split: "{s. s < Suc n \<and> s mod m = d} =
      (if n mod m = d then insert n {s. s < n \<and> s mod m = d} else {s. s < n \<and> s mod m = d})"
    by (auto simp: less_Suc_eq)
  have fin: "finite {s. s < n \<and> s mod m = d}" by simp
  have "n mod m < m" using assms by simp
  with Suc assms fin show ?case
    unfolding split by (auto simp: chunk_size_def mod_Suc div_Suc)
qed (simp add: chunk_size_def)

lemma spread_map_balanced:
  assumes "0 < m"
  shows "balanced_assignment n m (fold (\<lambda>(k, v). map_ins k v) (spread_pairs n m) [])"
proof -
  let ?M = "fold (\<lambda>(k, v). map_ins k v) (spread_pairs n m) []"
  have d: "dests ?M s = {s mod m}" if "s < n" for s
    using that by (auto simp: dests_adds spread_pairs_def)
  have k: "keys ?M = {..<n}" by (force simp: keys_adds spread_pairs_def)
  have "{s. d \<in> dests ?M s} = {s. s < n \<and> s mod m = d}" for d
    by (auto simp: dests_adds spread_pairs_def)
  then have "load ?M d = chunk_size n m d" if "d < m" for d
    using card_residue [OF assms that] by (simp add: load_def)
  with d k assms show ?thesis by (simp add: balanced_assignment_def chunk_size_def)
qed

subsection \<open>Clamping colours\<close>

lemma clamp_table_loop:
  assumes "distinct xs" "keys t \<inter> set xs = {}"
  shows "map_of (snd (fold (\<lambda>val (p, t). (p + 1, om_insert val p t)) xs (p, t))) c =
    (if c \<in> set xs then Some (p + int (card (set (takeWhile (\<lambda>y. y \<noteq> c) xs))))
     else map_of t c)"
  using assms
proof (induction xs arbitrary: p t)
  case (Cons x xs)
  have x: "map_of t x = None" using Cons.prems(2) by (auto simp: keys_def)
  have k: "keys (om_insert x p t) \<inter> set xs = {}"
    using Cons.prems by (auto simp: keys_def x split: if_splits)
  have "card (insert x (set (takeWhile (\<lambda>y. y \<noteq> c) xs))) =
      Suc (card (set (takeWhile (\<lambda>y. y \<noteq> c) xs)))"
    using Cons.prems(1) by (intro card_insert_disjoint) (auto dest: set_takeWhileD)
  with Cons.IH [OF _ k, of "p + 1"] Cons.prems(1) x show ?case by (cases "c = x") auto
qed simp

lemma takeWhile_less:
  assumes "os_ok xs" "c \<in> set xs"
  shows "set (takeWhile (\<lambda>y. y \<noteq> c) xs) = {x \<in> set xs. x < c}"
  using assms
proof (induction xs)
  case (Cons x xs)
  then show ?case by (cases "x = c") (auto simp: os_ok_Cons)
qed simp

lemma clamp_table_rank:
  assumes "c \<in> set colors"
  shows "map_of (clamp_table colors) c = Some (int (card {c' \<in> set colors. c' < c}))"
proof -
  have "map_of (clamp_table colors) c =
      Some (int (card (set (takeWhile (\<lambda>y. y \<noteq> c) (os_of_list colors)))))"
    using clamp_table_loop [of "os_of_list colors" "[]" 0 c] assms
    by (simp add: clamp_table_def os_ok_distinct)
  also have "set (takeWhile (\<lambda>y. y \<noteq> c) (os_of_list colors)) = {c' \<in> set colors. c' < c}"
    using takeWhile_less [of "os_of_list colors" c] assms by simp
  finally show ?thesis .
qed

lemma qvi_map_clamp_colors_rank:
  "qvi_map_clamp_colors colors = map (\<lambda>c. int (card {c' \<in> set colors. c' < c})) colors"
  by (simp add: qvi_map_clamp_colors_def om_ref_def clamp_table_rank)

lemma rank_strict_mono:
  fixes A :: "'a::linorder set"
  assumes "finite A" "a \<in> A" "a < b"
  shows "card {x \<in> A. x < a} < card {x \<in> A. x < b}"
proof (rule psubset_card_mono)
  show "finite {x \<in> A. x < b}" using assms(1) by simp
  show "{x \<in> A. x < a} \<subset> {x \<in> A. x < b}" using assms(2,3) by fastforce
qed

lemma rank_less_card:
  fixes A :: "'a::linorder set"
  assumes "finite A" "a \<in> A"
  shows "card {x \<in> A. x < a} < card A"
  using assms by (intro psubset_card_mono) auto

lemma rank_surj:
  fixes A :: "'a::linorder set"
  assumes "finite A"
  shows "(\<lambda>a. card {x \<in> A. x < a}) ` A = {..<card A}"
proof -
  have inj: "inj_on (\<lambda>a. card {x \<in> A. x < a}) A"
    using rank_strict_mono [OF assms] by (metis (no_types, lifting) inj_onI nat_neq_iff neq_iff)
  have "(\<lambda>a. card {x \<in> A. x < a}) ` A \<subseteq> {..<card A}"
    using rank_less_card [OF assms] by blast
  then show ?thesis
    using card_image [OF inj] by (intro card_subset_eq) auto
qed

subsection \<open>Unique destinations\<close>

definition uniq_inv :: "(nat \<times> nat oset) list \<Rightarrow> qvi_map_t \<times> nat oset \<Rightarrow> bool" where
  "uniq_inv xs st \<longleftrightarrow>
     (case st of (result, seen) \<Rightarrow>
        om_ok result \<and>
        set seen = {d. \<exists>k. map_of result k = Some [d]} \<and>
        (\<forall>k ds. map_of result k = Some ds \<longrightarrow>
           (\<exists>d \<in> set (om_ref [] k xs). ds = [d]) \<and> k \<in> keys xs) \<and>
        (\<forall>k k' d. map_of result k = Some [d] \<longrightarrow> map_of result k' = Some [d] \<longrightarrow> k = k') \<and>
        (\<forall>k. map_of result k = None \<longrightarrow> set (om_ref [] k xs) \<subseteq> set seen))"

lemma om_ok_snoc: "om_ok (xs @ [(k, v)]) \<longleftrightarrow> om_ok xs \<and> (\<forall>k' \<in> keys xs. k' < k)"
  by (auto simp: om_ok_def sorted_wrt_append keys_def dom_map_of_conv_image_fst)

lemma map_of_snoc:
  "om_ok (xs @ [(k, v)]) \<Longrightarrow> map_of (xs @ [(k, v)]) = (map_of xs)(k \<mapsto> v)"
  by (auto simp: om_ok_snoc keys_def map_add_def fun_eq_iff split: option.splits)

lemma uniq_inv_step:
  assumes "uniq_inv xs st" "om_ok (xs @ [e])"
  shows "uniq_inv (xs @ [e]) (map_uniq_step e st)"
proof -
  obtain src dsts where e: "e = (src, dsts)" by (cases e)
  obtain result seen where st: "st = (result, seen)" by (cases st)
  note inv = assms(1) [unfolded st uniq_inv_def prod.case]
  have fresh: "src \<notin> keys xs" "map_of xs src = None"
    using assms(2) by (auto simp: e om_ok_snoc keys_def)
  then have new: "map_of result src = None" using inv by fastforce
  have ref: "om_ref [] k (xs @ [e]) = (if k = src then dsts else om_ref [] k xs)" for k
    using map_of_snoc [of xs src dsts] assms(2) by (simp add: e om_ref_def)
  have ks: "keys (xs @ [e]) = insert src (keys xs)"
    using map_of_snoc [of xs src dsts] assms(2) by (simp add: e keys_def)
  show ?thesis
  proof (cases "find (\<lambda>dst. dst \<notin> set seen) dsts")
    case None
    then have "set dsts \<subseteq> set seen" by (auto simp: find_None_iff)
    moreover have "map_uniq_step e st = (result, seen)"
      by (simp add: map_uniq_step_def e st None)
    ultimately show ?thesis
      using inv new unfolding uniq_inv_def ref ks by (auto split: if_splits) blast
  next
    case (Some d)
    then have d: "d \<in> set dsts" "d \<notin> set seen" by (auto simp: find_Some_iff)
    have "map_uniq_step e st = (om_put src [d] result, os_insert d seen)"
      by (simp add: map_uniq_step_def e st Some om_insert_def new)
    with inv d new show ?thesis unfolding uniq_inv_def ref ks
      by (auto split: if_splits) (metis new option.distinct(1), blast)
  qed
qed

lemma uniq_inv_fold: "om_ok xs \<Longrightarrow> uniq_inv xs (fold map_uniq_step xs ([], []))"
proof (induction xs rule: rev_induct)
  case Nil
  show ?case by (simp add: uniq_inv_def om_ref_def)
next
  case (snoc e xs)
  then have "om_ok xs" by (cases e) (simp add: om_ok_snoc)
  with snoc show ?case using uniq_inv_step by simp
qed

section \<open>Properties\<close>

text \<open>C23: the packed mapper with at least as many sources as destinations: every source gets exactly
  one destination, destination loads differ by at most one, and each destination gets a contiguous
  run of sources (a later source never has an earlier destination).\<close>

theorem qvi_map_packed_balanced:
  assumes "0 < ndst config" "ndst config \<le> nsrc config"
  shows "\<exists>M. qvi_map_packed config [] = Inr M \<and> balanced_assignment (nsrc config) (ndst config) M \<and>
    (\<forall>s s' d d'. d \<in> dests M s \<and> d' \<in> dests M s' \<and> s \<le> s' \<longrightarrow> d \<le> d')"
proof -
  let ?n = "nsrc config" and ?m = "ndst config"
  let ?M = "fold (\<lambda>(k, v). map_ins k v) (packed_pairs ?n ?m ?m) []"
  have "d \<le> d'" if "d \<in> dests ?M s" "d' \<in> dests ?M s'" "s \<le> s'" for s s' d d'
    using that chunk_start_mono [of "Suc d'" d ?n ?m] by (force simp: packed_map_dests)
  with qvi_map_packed_direct [OF assms] packed_map_balanced [OF assms(1)] show ?thesis by blast
qed

theorem qvi_map_packed_balanced_witness:
  "\<exists>M. qvi_map_packed (map_config_sizes 5 2 Map_packed :: nat qvi_map_config) [] = Inr M \<and> balanced_assignment 5 2 M"
  using qvi_map_packed_balanced [of "map_config_sizes 5 2 Map_packed :: nat qvi_map_config"]
  by (auto simp: map_config_sizes_def)

text \<open>With fewer sources than destinations both the packed and the spread mapper share the
  destinations out: every destination belongs to exactly one source, and the shares differ by at
  most one.\<close>

theorem qvi_map_inverted_partition:
  assumes "0 < nsrc config" "nsrc config < ndst config"
  shows "(\<exists>M. qvi_map_packed config [] = Inr M \<and> partitioned_assignment (nsrc config) (ndst config) M) \<and>
    (\<exists>M. qvi_map_spread config [] = Inr M \<and> partitioned_assignment (nsrc config) (ndst config) M)"
  using qvi_map_packed_inverted [OF assms] qvi_map_spread_inverted [OF assms] assms
    invert_balanced [OF packed_map_balanced [OF assms(1)]] invert_balanced [OF spread_map_balanced [OF assms(1)]]
  by (auto simp: less_imp_le)

theorem qvi_map_inverted_partition_witness:
  "(\<exists>M. qvi_map_packed (map_config_sizes 2 5 Map_packed :: nat qvi_map_config) [] = Inr M \<and> partitioned_assignment 2 5 M) \<and>
   (\<exists>M. qvi_map_spread (map_config_sizes 2 5 Map_packed :: nat qvi_map_config) [] = Inr M \<and> partitioned_assignment 2 5 M)"
  using qvi_map_inverted_partition [of "map_config_sizes 2 5 Map_packed :: nat qvi_map_config"]
  by (simp add: map_config_sizes_def)

text \<open>The spread mapper with at least as many sources as destinations deals the destinations out
  round robin, with loads that differ by at most one.\<close>

theorem qvi_map_spread_round_robin:
  assumes "0 < ndst config" "ndst config \<le> nsrc config"
  shows "\<exists>M. qvi_map_spread config [] = Inr M \<and> balanced_assignment (nsrc config) (ndst config) M \<and>
    (\<forall>s < nsrc config. dests M s = {s mod ndst config})"
proof -
  let ?M = "fold (\<lambda>(k, v). map_ins k v) (spread_pairs (nsrc config) (ndst config)) []"
  have "\<forall>s < nsrc config. dests ?M s = {s mod ndst config}"
    by (auto simp: dests_adds spread_pairs_def)
  with qvi_map_spread_direct [OF assms] spread_map_balanced [OF assms(1)] show ?thesis by blast
qed

theorem qvi_map_spread_round_robin_witness:
  "\<exists>M. qvi_map_spread (map_config_sizes 5 2 Map_spread :: nat qvi_map_config) [] = Inr M \<and> (\<forall>s < 5. dests M s = {s mod 2})"
  using qvi_map_spread_round_robin [of "map_config_sizes 5 2 Map_spread :: nat qvi_map_config"]
  by (auto simp: map_config_sizes_def)

text \<open>Without destinations the packed mapper returns an empty map, but the spread mapper divides by
  zero as soon as there is a source.\<close>

theorem qvi_map_no_destinations:
  assumes "ndst config = 0" "0 < nsrc config"
  shows "qvi_map_packed config mp = Inr [] \<and> qvi_map_spread config mp = Inl Undef"
  using assms by (simp add: qvi_map_packed_def qvi_map_spread_def Let_def upt_conv_Cons)

theorem qvi_map_no_destinations_witness:
  "qvi_map_packed (map_config_sizes 3 0 Map_spread :: nat qvi_map_config) [] = Inr [] \<and>
   qvi_map_spread (map_config_sizes 3 0 Map_spread :: nat qvi_map_config) [] = Inl Undef"
  using qvi_map_no_destinations [of "map_config_sizes 3 0 Map_spread :: nat qvi_map_config" "[]"]
  by (simp add: map_config_sizes_def)

text \<open>Clamping renumbers colours order-isomorphically onto \<open>0 .. c - 1\<close>, where \<open>c\<close> is the number of
  distinct colours.\<close>

theorem qvi_map_clamp_colors_order_iso:
  "length (qvi_map_clamp_colors colors) = length colors \<and>
   set (qvi_map_clamp_colors colors) = int ` {..<card (set colors)} \<and>
   (\<forall>i < length colors. \<forall>j < length colors.
      qvi_map_clamp_colors colors ! i < qvi_map_clamp_colors colors ! j \<longleftrightarrow> colors ! i < colors ! j)"
proof (intro conjI)
  let ?r = "\<lambda>c. card {c' \<in> set colors. c' < c}"
  have eq: "qvi_map_clamp_colors colors = map (int \<circ> ?r) colors" by (simp add: qvi_map_clamp_colors_rank)
  show "length (qvi_map_clamp_colors colors) = length colors" by (simp add: eq)
  show "set (qvi_map_clamp_colors colors) = int ` {..<card (set colors)}"
    using rank_surj [of "set colors"] by (simp only: eq set_map image_comp [symmetric]) simp
  have "?r a < ?r b \<longleftrightarrow> a < b" if "a \<in> set colors" "b \<in> set colors" for a b
    using rank_strict_mono [OF _ that(1), of b] rank_strict_mono [OF _ that(2), of a]
    by (metis (no_types, lifting) List.finite_set less_asym not_less_iff_gr_or_eq)
  then show "\<forall>i < length colors. \<forall>j < length colors.
      qvi_map_clamp_colors colors ! i < qvi_map_clamp_colors colors ! j \<longleftrightarrow> colors ! i < colors ! j"
    by (simp add: eq)
qed

theorem qvi_map_clamp_colors_order_iso_witness:
  "qvi_map_clamp_colors [7, 3, 7, 9] = [1, 0, 1, 2] \<and>
   set (qvi_map_clamp_colors [7, 3, 7, 9]) = int ` {..<card (set [7, 3, 7, 9 :: int])}"
proof -
  have "qvi_map_clamp_colors [7, 3, 7, 9] = [1, 0, 1, 2]" by code_simp
  then show ?thesis using qvi_map_clamp_colors_order_iso [of "[7, 3, 7, 9]"] by blast
qed

text \<open>After \<^verbatim>\<open>qvi_map_uniq\<close> every remaining source has a single one of its original
  destinations, no destination is used twice, and a source is dropped only if all of its destinations
  are taken by others.\<close>

theorem qvi_map_uniq_correct:
  assumes "map_ok m"
  shows "(\<forall>k \<in> keys (qvi_map_uniq m). \<exists>d \<in> dests m k. dests (qvi_map_uniq m) k = {d}) \<and>
    (\<forall>k k' d. d \<in> dests (qvi_map_uniq m) k \<and> d \<in> dests (qvi_map_uniq m) k' \<longrightarrow> k = k') \<and>
    (\<forall>k. k \<notin> keys (qvi_map_uniq m) \<longrightarrow> dests m k \<subseteq> (\<Union>k'. dests (qvi_map_uniq m) k'))"
proof -
  obtain result seen where f: "fold map_uniq_step m ([], []) = (result, seen)"
    by (cases "fold map_uniq_step m ([], [])")
  have r: "qvi_map_uniq m = result" by (simp add: qvi_map_uniq_def f)
  note inv = uniq_inv_fold [OF map_ok_om_ok [OF assms], unfolded f uniq_inv_def prod.case]
  have single: "\<exists>d \<in> dests m k. map_of result k = Some [d]" if "k \<in> keys result" for k
    using that inv by (fastforce simp: keys_def dests_def)
  have d: "d \<in> dests result k \<longleftrightarrow> map_of result k = Some [d]" for d k
  proof (cases "map_of result k")
    case (Some ds)
    then obtain d' where "ds = [d']" using single [of k] by (auto simp: keys_def)
    with Some show ?thesis by (auto simp: dests_def om_ref_def)
  qed (simp add: dests_def om_ref_def)
  show ?thesis unfolding r
  proof (intro conjI ballI allI impI)
    fix k assume "k \<in> keys result"
    then obtain e where "e \<in> dests m k" "map_of result k = Some [e]" using single by blast
    then show "\<exists>d \<in> dests m k. dests result k = {d}" using d by (intro bexI [of _ e]) auto
  next
    fix k k' e assume "e \<in> dests result k \<and> e \<in> dests result k'"
    then show "k = k'" using d inv by blast
  next
    fix k assume "k \<notin> keys result"
    then have "map_of result k = None" by (auto simp: keys_def)
    then have "set (om_ref [] k m) \<subseteq> set seen" using inv by blast
    then show "dests m k \<subseteq> (\<Union>k'. dests result k')" using inv d by (auto simp: dests_def)
  qed
qed

theorem qvi_map_uniq_correct_witness:
  "qvi_map_uniq [(0, [1, 2]), (1, [1]), (2, [1, 3])] = [(0, [1]), (2, [3])] \<and>
   dests [(0, [1, 2]), (1, [1]), (2, [1, 3])] 1 \<subseteq> (\<Union>k'. dests (qvi_map_uniq [(0, [1, 2]), (1, [1]), (2, [1, 3])]) k')"
proof -
  let ?m = "[(0, [1, 2]), (1, [1]), (2, [1, 3])] :: qvi_map_t"
  have ok: "map_ok ?m" by (simp add: map_ok_def om_ok_def os_ok_def)
  have u: "qvi_map_uniq ?m = [(0, [1]), (2, [3])]" by code_simp
  have "1 \<notin> keys (qvi_map_uniq ?m)" unfolding u by (simp add: keys_def)
  with qvi_map_uniq_correct [OF ok] u show ?thesis by blast
qed

text \<open>Inverting a mapping twice gives back the mapping, up to sources without destinations.\<close>

theorem invert_map_involution:
  assumes "map_ok m" "\<forall>k \<in> keys m. dests m k \<noteq> {}"
  shows "invert_map (invert_map m) = m"
proof (rule map_eqI)
  have ok: "om_ok m" "om_ok (invert_map m)" using assms(1) map_ok_invert map_ok_om_ok by blast+
  show d: "dests (invert_map (invert_map m)) k = dests m k" for k
    using ok by (simp add: dests_invert)
  show "keys (invert_map (invert_map m)) = keys m"
    using ok assms(2) dests_empty_iff by (auto simp: keys_invert dests_invert)
qed (use assms in simp_all)

theorem invert_map_involution_witness:
  "invert_map (invert_map [(0, [1, 2]), (1, [1])]) = [(0, [1, 2]), (1, [1])]"
  by (rule invert_map_involution) (auto simp: map_ok_def om_ok_def os_ok_def keys_def dests_def om_ref_def split: if_splits)

end
