(* ===== verification/QV_Solver.thy ===== *)
theory QV_Solver
  imports QV_Map
begin

text \<open>
  The affinity preserving mapper of \<^verbatim>\<open>qvi-map.cc\<close>: the class
  \<^verbatim>\<open>stable_marriage_solver\<close> (preference lists for sources and for destination slots,
  the Gale-Shapley proposal loop, the stability check, the extraction of the matching), the driver
  \<^verbatim>\<open>solve_ap_mapping\<close> and the mapper \<^verbatim>\<open>qvi_map_close\<close>.
\<close>

section \<open>Data\<close>

datatype slot = Slot (destination: nat) (slot_index: nat)

definition slot_less :: "slot \<Rightarrow> slot \<Rightarrow> bool" where
  "slot_less a b =
     (if destination a \<noteq> destination b then destination a < destination b
      else slot_index a < slot_index b)"

text \<open>The comparison orders the slots totally, so the ordered maps may be keyed by them.\<close>

instantiation slot :: linorder
begin

definition less_slot :: "slot \<Rightarrow> slot \<Rightarrow> bool" where
  "less_slot = slot_less"

definition less_eq_slot :: "slot \<Rightarrow> slot \<Rightarrow> bool" where
  "less_eq_slot a b \<longleftrightarrow> a < b \<or> a = b"

instance
proof
  fix x y z :: slot
  show "(x < y) = (x \<le> y \<and> \<not> y \<le> x)"
    by (cases x; cases y) (auto simp: less_slot_def slot_less_def less_eq_slot_def split: if_splits)
  show "x \<le> x" by (simp add: less_eq_slot_def)
  show "x \<le> y \<Longrightarrow> y \<le> z \<Longrightarrow> x \<le> z"
    by (cases x; cases y; cases z) (auto simp: less_slot_def slot_less_def less_eq_slot_def split: if_splits)
  show "x \<le> y \<Longrightarrow> y \<le> x \<Longrightarrow> x = y"
    by (cases x; cases y) (auto simp: less_slot_def slot_less_def less_eq_slot_def split: if_splits)
  show "x \<le> y \<or> y \<le> x"
    by (cases x; cases y) (auto simp: less_slot_def slot_less_def less_eq_slot_def split: if_splits)
qed

end

record stable_marriage_solver =
  m_nsrcs :: nat
  m_ndsts :: nat
  m_slots_per_dst :: nat
  m_src_prefs :: "(nat, slot list) omap"
  m_slot_prefs :: "(slot, nat list) omap"
  m_src_to_slot :: "(nat, slot) omap"
  m_slot_to_src :: "(slot, nat) omap"
  m_src_next_proposal :: "(nat, nat) omap"

section \<open>Preferences\<close>

definition m_calculate_dst_contention :: "nat \<Rightarrow> qvi_map_t \<Rightarrow> (nat, nat) omap" where
  "m_calculate_dst_contention ndsts affinities =
     fold (\<lambda>(src, dsts) contention.
             if dsts = []
             then fold (\<lambda>dst. om_upd 0 dst Suc) [0..<ndsts] contention
             else fold (\<lambda>dst. om_upd 0 dst Suc) dsts contention)
          affinities
          (fold (\<lambda>dst. om_put dst 0) [0..<ndsts] [])"

text \<open>
  The comparator of \<^verbatim>\<open>m_build_src_prefs\<close>. It reads the scores with
  \<^verbatim>\<open>contention.at\<close>, which throws for a destination without a score; the sort calls it
  on every element as soon as there are two.
\<close>

definition preference_sorter :: "(nat, nat) omap \<Rightarrow> nat \<Rightarrow> nat \<Rightarrow> bool" where
  "preference_sorter contention a b =
     (let cont_a = om_ref 0 a contention; cont_b = om_ref 0 b contention
      in if cont_a \<noteq> cont_b then cont_a < cont_b else a < b)"

definition sort_by_preference :: "(nat, nat) omap \<Rightarrow> nat list \<Rightarrow> nat list res" where
  "sort_by_preference contention ds =
     (if 2 \<le> length ds \<and> \<not> list_all (\<lambda>d. map_of contention d \<noteq> None) ds then Inl StdExn
      else Inr (std_sort (preference_sorter contention) ds))"

definition slots_of :: "nat \<Rightarrow> nat list \<Rightarrow> slot list" where
  "slots_of slots_per_dst ds = concat (map (\<lambda>dst. map (Slot dst) [0..<slots_per_dst]) ds)"

definition m_build_src_prefs ::
  "nat \<Rightarrow> nat \<Rightarrow> nat oset \<Rightarrow> bool \<Rightarrow> (nat, nat) omap \<Rightarrow> slot list res" where
  "m_build_src_prefs ndsts slots_per_dst affinities has_empty_affinity contention =
     rbind (sort_by_preference contention affinities) (\<lambda>preferred_dests.
       let preferences = slots_of slots_per_dst preferred_dests
       in if \<not> has_empty_affinity \<and> length affinities < ndsts
          then rbind (sort_by_preference contention
                        (filter (\<lambda>dst. dst \<notin> set affinities) [0..<ndsts])) (\<lambda>non_preferred.
                 Inr (preferences @ slots_of slots_per_dst non_preferred))
          else Inr preferences)"

definition src_has_affinity :: "qvi_map_t \<Rightarrow> nat \<Rightarrow> nat \<Rightarrow> bool" where
  "src_has_affinity affinities src dst =
     (case map_of affinities src of
        None \<Rightarrow> False
      | Some ds \<Rightarrow> if ds = [] then True else dst \<in> set ds)"

definition m_build_slot_preferences :: "nat \<Rightarrow> slot \<Rightarrow> qvi_map_t \<Rightarrow> nat list" where
  "m_build_slot_preferences nsrcs sl affinities =
     (let with_affinity = filter (\<lambda>src. src_has_affinity affinities src (destination sl)) [0..<nsrcs];
          without_affinity =
            filter (\<lambda>src. \<not> src_has_affinity affinities src (destination sl)) [0..<nsrcs]
      in std_sort (<) with_affinity @ std_sort (<) without_affinity)"

text \<open>
  \<^verbatim>\<open>m_slot_prefers\<close>: one pass over the slot's list that records both ranks and stops as
  soon as both are known; \<open>nprefs\<close> is the rank of a source that is not on the list.
\<close>

fun find_ranks :: "nat \<Rightarrow> nat list \<Rightarrow> nat \<Rightarrow> nat \<Rightarrow> nat \<Rightarrow> nat \<Rightarrow> nat \<Rightarrow> nat \<times> nat" where
  "find_ranks i [] new_source cur_source nprefs new_rank cur_rank = (new_rank, cur_rank)"
| "find_ranks i (p # ps) new_source cur_source nprefs new_rank cur_rank =
     (let new_rank' = (if p = new_source then i else new_rank);
          cur_rank' = (if p = cur_source then i else cur_rank)
      in if new_rank' \<noteq> nprefs \<and> cur_rank' \<noteq> nprefs then (new_rank', cur_rank')
         else find_ranks (Suc i) ps new_source cur_source nprefs new_rank' cur_rank')"

definition m_slot_prefers :: "stable_marriage_solver \<Rightarrow> slot \<Rightarrow> nat \<Rightarrow> nat \<Rightarrow> bool res" where
  "m_slot_prefers s sl new_source cur_source =
     rbind (om_at (m_slot_prefs s) sl) (\<lambda>prefs.
       let nprefs = length prefs;
           (new_rank, cur_rank) = find_ranks 0 prefs new_source cur_source nprefs nprefs nprefs
       in Inr (new_rank < cur_rank))"

section \<open>Construction\<close>

definition src_affinities_of :: "nat \<Rightarrow> qvi_map_t \<Rightarrow> nat \<Rightarrow> nat oset \<times> bool" where
  "src_affinities_of m affinities src =
     (case map_of affinities src of
        None \<Rightarrow> ([], False)
      | Some ds \<Rightarrow> if ds = [] then (fold os_insert [0..<m] [], True) else (ds, False))"

definition stable_marriage_solver_new ::
  "nat \<Rightarrow> nat \<Rightarrow> qvi_map_t \<Rightarrow> stable_marriage_solver res" where
  "stable_marriage_solver_new n m affinities =
     (let slots_per_dst = qvi_maxiperk n m;
          contention = m_calculate_dst_contention m affinities
      in rbind (rfold (\<lambda>src (prefs, nexts).
                  (case src_affinities_of m affinities src of (saff, has_empty_affinity) \<Rightarrow>
                     rbind (m_build_src_prefs m slots_per_dst saff has_empty_affinity contention)
                       (\<lambda>p. Inr (om_put src p prefs, om_put src 0 nexts))))
                  [0..<n] ([], []))
         (\<lambda>(prefs, nexts).
            let slots = slots_of slots_per_dst [0..<m]
            in Inr \<lparr>m_nsrcs = n, m_ndsts = m, m_slots_per_dst = slots_per_dst,
                    m_src_prefs = prefs,
                    m_slot_prefs =
                      fold (\<lambda>sl. om_put sl (m_build_slot_preferences n sl affinities)) slots [],
                    m_src_to_slot = [],
                    m_slot_to_src = fold (\<lambda>sl. om_put sl SIZE_MAX) slots [],
                    m_src_next_proposal = nexts\<rparr>))"

section \<open>The proposal loop\<close>

definition solve_step ::
  "stable_marriage_solver \<Rightarrow> nat \<Rightarrow> nat list \<Rightarrow> (stable_marriage_solver \<times> nat list) res" where
  "solve_step s source free_sources =
     (let k = om_ref 0 source (m_src_next_proposal s);
          prefs = om_ref [] source (m_src_prefs s)
      in if k \<ge> length prefs then Inl (Rterror QV_ERR_NOT_SUPPORTED)
         else
           let sl = prefs ! k;
               s = s\<lparr>m_src_next_proposal := om_upd 0 source Suc (m_src_next_proposal s)\<rparr>;
               current_match = om_ref 0 sl (m_slot_to_src s)
           in if current_match = SIZE_MAX
              then Inr (s\<lparr>m_src_to_slot := om_put source sl (m_src_to_slot s),
                          m_slot_to_src := om_put sl source (m_slot_to_src s)\<rparr>, free_sources)
              else rbind (m_slot_prefers s sl source current_match) (\<lambda>prefers.
                if prefers
                then Inr (s\<lparr>m_src_to_slot :=
                               om_erase current_match (om_put source sl (m_src_to_slot s)),
                            m_slot_to_src := om_put sl source (m_slot_to_src s)\<rparr>,
                          free_sources @ [current_match])
                else Inr (s, free_sources @ [source])))"

text \<open>The proposals that are still possible; every iteration of the loop uses one up.\<close>

definition proposals_left :: "stable_marriage_solver \<Rightarrow> nat" where
  "proposals_left s =
     (\<Sum>src \<in> keys (m_src_prefs s).
        length (om_ref [] src (m_src_prefs s)) - om_ref 0 src (m_src_next_proposal s))"

lemma proposals_left_decreases:
  assumes "m_src_prefs s' = m_src_prefs s"
    and "m_src_next_proposal s' = om_upd 0 source Suc (m_src_next_proposal s)"
    and "om_ref 0 source (m_src_next_proposal s) < length (om_ref [] source (m_src_prefs s))"
  shows "proposals_left s' < proposals_left s"
  unfolding proposals_left_def assms(1,2)
proof (rule sum_strict_mono_ex1)
  show "\<forall>src \<in> keys (m_src_prefs s).
      length (om_ref [] src (m_src_prefs s)) - om_ref 0 src (om_upd 0 source Suc (m_src_next_proposal s))
      \<le> length (om_ref [] src (m_src_prefs s)) - om_ref 0 src (m_src_next_proposal s)"
    by (simp add: diff_le_mono2)
  have "source \<in> keys (m_src_prefs s)"
    using assms(3) by (auto simp: keys_def om_ref_def split: option.splits)
  with assms(3) show "\<exists>a \<in> keys (m_src_prefs s).
      length (om_ref [] a (m_src_prefs s)) - om_ref 0 a (om_upd 0 source Suc (m_src_next_proposal s))
      < length (om_ref [] a (m_src_prefs s)) - om_ref 0 a (m_src_next_proposal s)"
    by (auto intro!: bexI [of _ source])
qed simp

lemma solve_step_Inr_frame:
  assumes "solve_step s source q = Inr (s', q')"
  shows "m_nsrcs s' = m_nsrcs s" "m_ndsts s' = m_ndsts s" "m_slots_per_dst s' = m_slots_per_dst s"
    "m_src_prefs s' = m_src_prefs s" "m_slot_prefs s' = m_slot_prefs s"
    "m_src_next_proposal s' = om_upd 0 source Suc (m_src_next_proposal s)"
    "om_ref 0 source (m_src_next_proposal s) < length (om_ref [] source (m_src_prefs s))"
  using assms by (auto simp: solve_step_def Let_def rc_simps split: if_splits)

function solve_loop :: "stable_marriage_solver \<Rightarrow> nat list \<Rightarrow> stable_marriage_solver res" where
  "solve_loop s [] = Inr s"
| "solve_loop s (source # q) =
     (case solve_step s source q of Inl e \<Rightarrow> Inl e | Inr (s', q') \<Rightarrow> solve_loop s' q')"
  by pat_completeness auto
termination
proof (relation "measure (\<lambda>(s, q). proposals_left s)")
  fix s source q y s' q'
  assume "solve_step s source q = Inr y" "(s', q') = y"
  then have "solve_step s source q = Inr (s', q')" by simp
  from solve_step_Inr_frame [OF this]
  show "((s', q'), s, source # q) \<in> measure (\<lambda>(s, q). proposals_left s)"
    by (simp add: proposals_left_decreases)
qed simp

definition solve :: "stable_marriage_solver \<Rightarrow> stable_marriage_solver res" where
  "solve s = solve_loop s [0..<m_nsrcs s]"

section \<open>Results\<close>

definition get_matching :: "stable_marriage_solver \<Rightarrow> qvi_map_t" where
  "get_matching s = fold (\<lambda>(source, sl). map_ins source (destination sl)) (m_src_to_slot s) []"

text \<open>The search for a blocking pair of one source, over its preference list.\<close>

fun no_blocking_pair :: "stable_marriage_solver \<Rightarrow> nat \<Rightarrow> slot \<Rightarrow> slot list \<Rightarrow> bool res" where
  "no_blocking_pair s src current_slot [] = Inr True"
| "no_blocking_pair s src current_slot (preferred_slot # ps) =
     (if preferred_slot = current_slot then Inr True
      else case map_of (m_slot_to_src s) preferred_slot of
        None \<Rightarrow> no_blocking_pair s src current_slot ps
      | Some other_source \<Rightarrow>
          if other_source = SIZE_MAX then Inr False
          else rbind (m_slot_prefers s preferred_slot src other_source) (\<lambda>prefers.
            if prefers then Inr False else no_blocking_pair s src current_slot ps))"

fun stable_from :: "stable_marriage_solver \<Rightarrow> nat list \<Rightarrow> bool res" where
  "stable_from s [] = Inr True"
| "stable_from s (src # srcs) =
     (case map_of (m_src_to_slot s) src of
        None \<Rightarrow> Inr False
      | Some current_slot \<Rightarrow>
          rbind (om_at (m_src_prefs s) src) (\<lambda>prefs.
          rbind (no_blocking_pair s src current_slot prefs) (\<lambda>ok.
            if ok then stable_from s srcs else Inr False)))"

definition stable :: "stable_marriage_solver \<Rightarrow> bool res" where
  "stable s = stable_from s [0..<m_nsrcs s]"

definition solve_ap_mapping :: "nat \<Rightarrow> nat \<Rightarrow> qvi_map_t \<Rightarrow> qvi_map_t res" where
  "solve_ap_mapping n m affinities =
     rbind (stable_marriage_solver_new n m affinities) (\<lambda>solver.
     rbind (solve solver) (\<lambda>solver.
     rbind (stable solver) (\<lambda>ok.
       if ok then Inr (get_matching solver) else Inl (Rterror QV_ERR_NOT_SUPPORTED))))"

definition qvi_map_close :: "('b \<Rightarrow> 'b \<Rightarrow> bool) \<Rightarrow> 'b qvi_map_config \<Rightarrow> qvi_map_t \<Rightarrow> qvi_map_t res" where
  "qvi_map_close intersects config mp =
     (let src = src_affinities config; dst = dst_affinities config
      in solve_ap_mapping (length src) (length dst) (qvi_map_calc_affinities intersects src dst))"

text \<open>Calling the stored mapper; an empty \<^verbatim>\<open>std::function\<close> throws.\<close>

definition map_fn_call ::
  "('b \<Rightarrow> 'b \<Rightarrow> bool) \<Rightarrow> 'b qvi_map_config \<Rightarrow> qvi_map_t \<Rightarrow> qvi_map_t res" where
  "map_fn_call intersects config mp =
     (case map_fn config of
        Map_none \<Rightarrow> Inl StdExn
      | Map_colors \<Rightarrow> qvi_map_colors config mp
      | Map_packed \<Rightarrow> qvi_map_packed config mp
      | Map_spread \<Rightarrow> qvi_map_spread config mp
      | Map_close \<Rightarrow> qvi_map_close intersects config mp)"

end
