(* ===== verification/QV_Matching.thy ===== *)
theory QV_Matching
  imports QV_Solver
begin

text \<open>
  Correctness of the stable matching solver. The preference lists are complete and ordered the way
  the comments of the class promise; the proposal loop keeps an invariant that relates the two
  directions of the matching, the queue of free sources and the proposals made so far; at the end
  of the loop the stability check of the program succeeds, so that the mapper returns a mapping.
\<close>

section \<open>Comparators\<close>

interpretation pref: total_compare "preference_sorter c" for c
  by unfold_locales (auto simp: preference_sorter_def Let_def split: if_splits)

interpretation nat_lt: total_compare "(<) :: nat \<Rightarrow> nat \<Rightarrow> bool"
  by unfold_locales auto

text \<open>
  The order in which a source prefers destinations: those it has an affinity with come first, then
  the less contended ones, then the lower numbered ones. The order in which a destination prefers
  sources: those with an affinity first, then the lower numbered ones.
\<close>

definition src_pref_lt :: "qvi_map_t \<Rightarrow> (nat, nat) omap \<Rightarrow> nat \<Rightarrow> nat \<Rightarrow> nat \<Rightarrow> bool" where
  "src_pref_lt aff c src a b =
     (if src_has_affinity aff src a \<noteq> src_has_affinity aff src b then src_has_affinity aff src a
      else preference_sorter c a b)"

definition dst_pref_lt :: "qvi_map_t \<Rightarrow> nat \<Rightarrow> nat \<Rightarrow> nat \<Rightarrow> bool" where
  "dst_pref_lt aff dst a b =
     (if src_has_affinity aff a dst \<noteq> src_has_affinity aff b dst then src_has_affinity aff a dst
      else a < b)"

interpretation src_pref: total_compare "src_pref_lt aff c src" for aff c src
  by unfold_locales
    (auto simp: src_pref_lt_def split: if_splits dest: pref.lt_asym pref.lt_split pref.lt_total)

section \<open>Ranks\<close>

definition rank :: "'a list \<Rightarrow> 'a \<Rightarrow> nat" where
  "rank ps x = length (takeWhile (\<lambda>y. y \<noteq> x) ps)"

lemma rank_Cons: "rank (p # ps) x = (if p = x then 0 else Suc (rank ps x))"
  by (simp add: rank_def)

lemma rank_absent: "x \<notin> set ps \<Longrightarrow> rank ps x = length ps"
  by (induction ps) (auto simp: rank_def)

lemma rank_le: "rank ps x \<le> length ps"
  by (simp add: rank_def length_takeWhile_le)

lemma rank_less: "x \<in> set ps \<Longrightarrow> rank ps x < length ps"
  by (induction ps) (auto simp: rank_Cons)

lemma nth_rank: "x \<in> set ps \<Longrightarrow> ps ! rank ps x = x"
  by (induction ps) (auto simp: rank_Cons)

lemma rank_inj: "x \<in> set ps \<Longrightarrow> rank ps x = rank ps y \<Longrightarrow> x = y"
  by (metis nth_rank rank_absent rank_less less_irrefl)

lemma rank_nth: "distinct ps \<Longrightarrow> i < length ps \<Longrightarrow> rank ps (ps ! i) = i"
  by (metis nth_eq_iff_index_eq nth_mem nth_rank rank_less)

lemma rank_sorted:
  assumes "sorted_wrt lt ps" "a \<in> set ps" "b \<in> set ps" "rank ps a < rank ps b"
  shows "lt a b"
  using assms by (metis nth_rank rank_less sorted_wrt_iff_nth_less)

lemma find_ranks_eq:
  assumes "distinct ps" "nprefs = i + length ps"
    and "new_rank \<noteq> nprefs \<Longrightarrow> new \<notin> set ps" "cur_rank \<noteq> nprefs \<Longrightarrow> cur \<notin> set ps"
  shows "find_ranks i ps new cur nprefs new_rank cur_rank =
    ((if new_rank \<noteq> nprefs then new_rank else i + rank ps new),
     (if cur_rank \<noteq> nprefs then cur_rank else i + rank ps cur))"
  using assms
proof (induction ps arbitrary: i new_rank cur_rank)
  case Nil
  then show ?case by (simp add: rank_def)
next
  case (Cons p ps)
  define nr where "nr = (if p = new then i else new_rank)"
  define cr where "cr = (if p = cur then i else cur_rank)"
  have unfold: "find_ranks i (p # ps) new cur nprefs new_rank cur_rank =
      (if nr \<noteq> nprefs \<and> cr \<noteq> nprefs then (nr, cr)
       else find_ranks (Suc i) ps new cur nprefs nr cr)"
    by (simp add: nr_def cr_def Let_def)
  have i: "i \<noteq> nprefs" using Cons.prems(2) by simp
  have IH: "find_ranks (Suc i) ps new cur nprefs nr cr =
      ((if nr \<noteq> nprefs then nr else Suc i + rank ps new),
       (if cr \<noteq> nprefs then cr else Suc i + rank ps cur))"
    using Cons.prems by (intro Cons.IH) (auto simp: nr_def cr_def split: if_splits)
  have res: "find_ranks i (p # ps) new cur nprefs new_rank cur_rank =
      ((if nr \<noteq> nprefs then nr else Suc i + rank ps new),
       (if cr \<noteq> nprefs then cr else Suc i + rank ps cur))"
    unfolding unfold IH by simp
  show ?case unfolding res using Cons.prems i
    by (auto simp: nr_def cr_def rank_Cons)
qed

lemma m_slot_prefers_eq:
  assumes "map_of (m_slot_prefs s) sl = Some ps" "distinct ps"
  shows "m_slot_prefers s sl a b = Inr (rank ps a < rank ps b)"
proof -
  have "find_ranks 0 ps a b (length ps) (length ps) (length ps) = (rank ps a, rank ps b)"
    using assms(2) by (subst find_ranks_eq) auto
  with assms(1) show ?thesis
    by (simp add: m_slot_prefers_def om_at_def Let_def)
qed

section \<open>Preference lists\<close>

definition all_slots :: "nat \<Rightarrow> nat \<Rightarrow> slot set" where
  "all_slots m k = {sl. destination sl < m \<and> slot_index sl < k}"

lemma set_slots_of: "set (slots_of k ds) = {sl. destination sl \<in> set ds \<and> slot_index sl < k}"
proof (rule set_eqI)
  fix sl
  show "sl \<in> set (slots_of k ds) \<longleftrightarrow> sl \<in> {sl. destination sl \<in> set ds \<and> slot_index sl < k}"
    by (cases sl) (fastforce simp: slots_of_def)
qed

lemma distinct_slots_of: "distinct ds \<Longrightarrow> distinct (slots_of k ds)"
  unfolding slots_of_def by (intro distinct_concat_map) (auto simp: distinct_map inj_on_def)

lemma slots_of_append: "slots_of k (xs @ ys) = slots_of k xs @ slots_of k ys"
  by (simp add: slots_of_def)

lemma slots_of_Nil: "slots_of k [] = []"
  by (simp add: slots_of_def)

lemma length_slots_of: "length (slots_of k ds) = length ds * k"
  by (induction ds) (simp_all add: slots_of_def)

lemma card_all_slots: "card (all_slots m k) = m * k"
proof -
  have "all_slots m k = set (slots_of k [0..<m])"
    by (auto simp: all_slots_def set_slots_of)
  then show ?thesis
    by (simp add: distinct_card distinct_slots_of length_slots_of)
qed

lemma finite_all_slots [simp]: "finite (all_slots m k)"
proof -
  have "all_slots m k = set (slots_of k [0..<m])"
    by (auto simp: all_slots_def set_slots_of)
  then show ?thesis by simp
qed

text \<open>A slot of a more preferred destination comes earlier in the list.\<close>

lemma slots_of_order:
  assumes "sorted_wrt lt ds" "\<And>a b. lt a b \<Longrightarrow> \<not> lt b a"
    and "x \<in> set (slots_of k ds)" "y \<in> set (slots_of k ds)" "lt (destination x) (destination y)"
  shows "rank (slots_of k ds) x < rank (slots_of k ds) y"
proof (rule ccontr)
  let ?p = "slots_of k ds" and ?r = "\<lambda>x y. destination x = destination y \<or> lt (destination x) (destination y)"
  have block: "sorted_wrt ?r (map (Slot d) [0..<k])" for d
    by (simp add: sorted_wrt_map sorted_wrt_upt)
  have sw: "sorted_wrt ?r ?p"
    using assms(1)
  proof (induction ds)
    case (Cons d ds)
    have "slots_of k (d # ds) = map (Slot d) [0..<k] @ slots_of k ds" by (simp add: slots_of_def)
    with Cons block [of d] show ?case by (auto simp: sorted_wrt_append set_slots_of)
  qed (simp add: slots_of_def)
  assume "\<not> rank ?p x < rank ?p y"
  moreover have "rank ?p x \<noteq> rank ?p y"
    using rank_inj [OF assms(3)] assms(2,5) by metis
  ultimately have "?r y x"
    using rank_sorted [OF sw assms(4,3)] by simp
  with assms(2,5) show False by metis
qed

lemma contention_dom_loop:
  "keys (fold (\<lambda>dst. om_upd 0 dst Suc) ds c) = keys c \<union> set ds"
  by (induction ds arbitrary: c) (auto simp: om_upd_def)

lemma contention_dom:
  "{..<m} \<union> (\<Union>(k, ds) \<in> set aff. set ds) \<subseteq> keys (m_calculate_dst_contention m aff)"
proof -
  have init: "keys (fold (\<lambda>dst. om_put dst 0) ds c) = keys c \<union> set ds" for ds c
    by (induction ds arbitrary: c) auto
  have "keys c \<union> (\<Union>(k, ds) \<in> set aff. set ds) \<subseteq>
      keys (fold (\<lambda>(src, dsts) contention.
             if dsts = [] then fold (\<lambda>dst. om_upd 0 dst Suc) [0..<m] contention
             else fold (\<lambda>dst. om_upd 0 dst Suc) dsts contention) aff c)" for c
  proof (induction aff arbitrary: c)
    case (Cons e aff)
    obtain src dsts where e: "e = (src, dsts)" by (cases e)
    show ?case
    proof (cases "dsts = []")
      case True
      with Cons.IH [of "fold (\<lambda>dst. om_upd 0 dst Suc) [0..<m] c"] show ?thesis
        by (simp add: e contention_dom_loop)
    next
      case False
      with Cons.IH [of "fold (\<lambda>dst. om_upd 0 dst Suc) dsts c"] show ?thesis
        by (simp add: e contention_dom_loop Un_ac)
    qed
  qed simp
  from this [of "fold (\<lambda>dst. om_put dst 0) [0..<m] []"] show ?thesis
    by (simp add: m_calculate_dst_contention_def init atLeast0LessThan)
qed

lemma sort_by_preference_eq:
  "set ds \<subseteq> keys c \<Longrightarrow> sort_by_preference c ds = Inr (std_sort (preference_sorter c) ds)"
  by (auto simp: sort_by_preference_def keys_def list_all_iff)

definition aff_ok :: "nat \<Rightarrow> qvi_map_t \<Rightarrow> bool" where
  "aff_ok m aff \<longleftrightarrow> map_ok aff \<and> (\<forall>(k, ds) \<in> set aff. set ds \<subseteq> {..<m})"

lemma aff_ok_entry: "aff_ok m aff \<Longrightarrow> map_of aff k = Some ds \<Longrightarrow> os_ok ds \<and> set ds \<subseteq> {..<m}"
  by (auto simp: aff_ok_def map_ok_def dest!: map_of_SomeD)

lemma sorted_wrt_mono_set:
  "sorted_wrt P xs \<Longrightarrow> (\<And>x y. x \<in> set xs \<Longrightarrow> y \<in> set xs \<Longrightarrow> P x y \<Longrightarrow> Q x y) \<Longrightarrow> sorted_wrt Q xs"
  by (rule sorted_wrt_mono_rel)

lemma m_build_src_prefs_eq:
  assumes aff: "aff_ok m aff"
    and saff: "src_affinities_of m aff src = (saff, e)"
    and dom: "{..<m} \<subseteq> keys c"
  shows "\<exists>ds. m_build_src_prefs m k saff e c = Inr (slots_of k ds) \<and> distinct ds \<and>
    set ds = {..<m} \<and> sorted_wrt (src_pref_lt aff c src) ds"
proof -
  have s: "distinct saff" "set saff \<subseteq> {..<m}" "e \<Longrightarrow> set saff = {..<m}"
    "\<And>d. d < m \<Longrightarrow> src_has_affinity aff src d \<longleftrightarrow> d \<in> set saff"
    using saff aff_ok_entry [OF aff, of src] os_ok_distinct
    by (auto simp: src_affinities_of_def src_has_affinity_def atLeast0LessThan
        split: option.splits if_splits)
  let ?rest = "filter (\<lambda>dst. dst \<notin> set saff) [0..<m]"
  let ?A = "std_sort (preference_sorter c) saff" and ?B = "std_sort (preference_sorter c) ?rest"
  have full: "set saff = {..<m}" if "\<not> (\<not> e \<and> length saff < m)"
  proof (cases e)
    case False
    with that have "m \<le> card (set saff)" using s(1) by (simp add: distinct_card)
    then show ?thesis using s(2) by (intro card_subset_eq) (auto intro!: antisym card_mono [of "{..<m}", simplified])
  qed (use s(3) in simp)
  have r: "m_build_src_prefs m k saff e c =
      Inr (slots_of k (?A @ (if \<not> e \<and> length saff < m then ?B else [])))"
    using sort_by_preference_eq [of saff c] sort_by_preference_eq [of ?rest c] s(2) dom
    by (auto simp: m_build_src_prefs_def slots_of_append slots_of_Nil Let_def subset_iff)
  have rest: "?B = []" if "set saff = {..<m}"
    using that by (auto simp: filter_empty_conv)
  with full r have r': "m_build_src_prefs m k saff e c = Inr (slots_of k (?A @ ?B))"
    by (auto split: if_splits)
  have "sorted_wrt (src_pref_lt aff c src) ?A"
    using pref.std_sort_strict [OF s(1), of c] s(2,4)
    by (elim sorted_wrt_mono_set) (auto simp: src_pref_lt_def)
  moreover have "sorted_wrt (src_pref_lt aff c src) ?B"
    using pref.std_sort_strict [of ?rest c, simplified] s(4)
    by (elim sorted_wrt_mono_set) (auto simp: src_pref_lt_def)
  moreover have "src_pref_lt aff c src a b" if "a \<in> set ?A" "b \<in> set ?B" for a b
    using that s(2,4) by (auto simp: src_pref_lt_def)
  ultimately have "sorted_wrt (src_pref_lt aff c src) (?A @ ?B)"
    by (simp add: sorted_wrt_append)
  moreover have "distinct (?A @ ?B)" "set (?A @ ?B) = {..<m}"
    using s(1,2) by auto
  ultimately show ?thesis using r' by blast
qed

lemma slot_preferences_props:
  "distinct (m_build_slot_preferences n sl aff)"
  "set (m_build_slot_preferences n sl aff) = {..<n}"
  "sorted_wrt (dst_pref_lt aff (destination sl)) (m_build_slot_preferences n sl aff)"
proof -
  let ?P = "\<lambda>src. src_has_affinity aff src (destination sl)"
  let ?A = "std_sort (<) (filter ?P [0..<n])" and ?B = "std_sort (<) (filter (\<lambda>x. \<not> ?P x) [0..<n])"
  have eq: "m_build_slot_preferences n sl aff = ?A @ ?B"
    by (simp add: m_build_slot_preferences_def Let_def)
  show "distinct (m_build_slot_preferences n sl aff)" by (auto simp: eq)
  show "set (m_build_slot_preferences n sl aff) = {..<n}" by (auto simp: eq)
  have "sorted_wrt (dst_pref_lt aff (destination sl)) ?A"
    using nat_lt.std_sort_strict [of "filter ?P [0..<n]", simplified]
    by (elim sorted_wrt_mono_set) (auto simp: dst_pref_lt_def)
  moreover have "sorted_wrt (dst_pref_lt aff (destination sl)) ?B"
    using nat_lt.std_sort_strict [of "filter (\<lambda>x. \<not> ?P x) [0..<n]", simplified]
    by (elim sorted_wrt_mono_set) (auto simp: dst_pref_lt_def)
  ultimately show "sorted_wrt (dst_pref_lt aff (destination sl)) (m_build_slot_preferences n sl aff)"
    by (auto simp: eq sorted_wrt_append dst_pref_lt_def)
qed

section \<open>The constructed solver\<close>

abbreviation nxt :: "stable_marriage_solver \<Rightarrow> nat \<Rightarrow> nat" where
  "nxt s src \<equiv> om_ref 0 src (m_src_next_proposal s)"

abbreviation plist :: "stable_marriage_solver \<Rightarrow> nat \<Rightarrow> slot list" where
  "plist s src \<equiv> om_ref [] src (m_src_prefs s)"

abbreviation mate :: "stable_marriage_solver \<Rightarrow> slot \<Rightarrow> nat" where
  "mate s sl \<equiv> om_ref 0 sl (m_slot_to_src s)"

definition srank :: "stable_marriage_solver \<Rightarrow> slot \<Rightarrow> nat \<Rightarrow> nat" where
  "srank s sl src = rank (om_ref [] sl (m_slot_prefs s)) src"

text \<open>What the preference lists satisfy; no step of the loop changes them.\<close>

definition prefs_ok :: "nat \<Rightarrow> slot set \<Rightarrow> stable_marriage_solver \<Rightarrow> bool" where
  "prefs_ok n S s \<longleftrightarrow>
     n \<le> SIZE_MAX \<and> finite S \<and> n \<le> card S \<and>
     keys (m_src_prefs s) = {..<n} \<and>
     (\<forall>src < n. distinct (plist s src) \<and> set (plist s src) = S) \<and>
     (\<forall>sl \<in> S. \<exists>ps. map_of (m_slot_prefs s) sl = Some ps \<and> distinct ps \<and> set ps = {..<n})"

text \<open>The preference order, as the documented orders on sources and destinations.\<close>

definition prefs_ordered ::
  "nat \<Rightarrow> nat \<Rightarrow> nat \<Rightarrow> qvi_map_t \<Rightarrow> stable_marriage_solver \<Rightarrow> bool" where
  "prefs_ordered n m k aff s \<longleftrightarrow>
     (\<forall>src < n. \<forall>x \<in> all_slots m k. \<forall>y \<in> all_slots m k.
        src_pref_lt aff (m_calculate_dst_contention m aff) src (destination x) (destination y) \<longrightarrow>
        rank (plist s src) x < rank (plist s src) y) \<and>
     (\<forall>sl \<in> all_slots m k. \<forall>a < n. \<forall>b < n.
        srank s sl a < srank s sl b \<longrightarrow> dst_pref_lt aff (destination sl) a b)"

definition src_pref_list :: "nat \<Rightarrow> nat \<Rightarrow> qvi_map_t \<Rightarrow> nat \<Rightarrow> slot list res" where
  "src_pref_list n m aff src =
     (case src_affinities_of m aff src of (saff, e) \<Rightarrow>
        m_build_src_prefs m (qvi_maxiperk n m) saff e (m_calculate_dst_contention m aff))"

lemma constructor_loop:
  assumes "\<And>src. src \<in> set xs \<Longrightarrow> src_pref_list n m aff src = Inr (f src)"
  shows "rfold (\<lambda>src (prefs, nexts).
      (case src_affinities_of m aff src of (saff, has_empty_affinity) \<Rightarrow>
         rbind (m_build_src_prefs m (qvi_maxiperk n m) saff has_empty_affinity
                  (m_calculate_dst_contention m aff))
           (\<lambda>p. Inr (om_put src p prefs, om_put src 0 nexts)))) xs (a, b) =
    Inr (fold (\<lambda>src. om_put src (f src)) xs a, fold (\<lambda>src. om_put src 0) xs b)"
  using assms
proof (induction xs arbitrary: a b)
  case (Cons x xs)
  obtain saff e where se: "src_affinities_of m aff x = (saff, e)" by fastforce
  have "src_pref_list n m aff x = Inr (f x)" using Cons.prems by simp
  then have "m_build_src_prefs m (qvi_maxiperk n m) saff e (m_calculate_dst_contention m aff) = Inr (f x)"
    by (simp add: src_pref_list_def se)
  with Cons se show ?case by simp
qed simp

lemma src_pref_list_ok:
  assumes "aff_ok m aff"
  shows "\<exists>ds. src_pref_list n m aff src = Inr (slots_of (qvi_maxiperk n m) ds) \<and> distinct ds \<and>
    set ds = {..<m} \<and> sorted_wrt (src_pref_lt aff (m_calculate_dst_contention m aff) src) ds"
proof -
  obtain saff e where se: "src_affinities_of m aff src = (saff, e)" by fastforce
  have "{..<m} \<subseteq> keys (m_calculate_dst_contention m aff)" using contention_dom by blast
  from m_build_src_prefs_eq [OF assms se this] show ?thesis
    by (simp add: src_pref_list_def se)
qed

text \<open>Preference lists that are built from sorted destinations are ordered.\<close>

lemma prefs_orderedI:
  assumes "\<And>src. src < n \<Longrightarrow> plist s src = slots_of k (D src)" "\<And>src. set (slots_of k (D src)) = all_slots m k"
    and "\<And>src. sorted_wrt (src_pref_lt aff (m_calculate_dst_contention m aff) src) (D src)"
    and "\<And>sl. sl \<in> all_slots m k \<Longrightarrow> srank s sl = rank (m_build_slot_preferences n sl aff)"
  shows "prefs_ordered n m k aff s"
  unfolding prefs_ordered_def
proof (intro conjI allI impI ballI)
  let ?S = "all_slots m k" and ?c = "m_calculate_dst_contention m aff"
  fix src x y
  assume "src < n" "x \<in> ?S" "y \<in> ?S" "src_pref_lt aff ?c src (destination x) (destination y)"
  then show "rank (plist s src) x < rank (plist s src) y"
    using slots_of_order [OF assms(3) [of src] src_pref.lt_asym [of aff ?c src], where x = x and y = y and k = k]
    by (simp add: assms(1,2))
next
  fix sl a b
  assume a: "sl \<in> all_slots m k" "a < n" "b < n" "srank s sl a < srank s sl b"
  show "dst_pref_lt aff (destination sl) a b"
    by (rule rank_sorted [OF slot_preferences_props(3) [of aff sl n]])
       (use a in \<open>auto simp: slot_preferences_props assms(4)\<close>)
qed

lemma constructor_ok:
  assumes aff: "aff_ok m aff" and m: "0 < m" and sz: "n + m \<le> 2 ^ 64"
  shows "\<exists>s. stable_marriage_solver_new n m aff = Inr s \<and>
    m_nsrcs s = n \<and> prefs_ok n (all_slots m (qvi_maxiperk n m)) s \<and>
    prefs_ordered n m (qvi_maxiperk n m) aff s \<and> m_src_to_slot s = [] \<and>
    (\<forall>sl. map_of (m_slot_to_src s) sl =
       (if sl \<in> all_slots m (qvi_maxiperk n m) then Some SIZE_MAX else None)) \<and>
    (\<forall>src. nxt s src = 0)"
proof -
  let ?k = "qvi_maxiperk n m" and ?c = "m_calculate_dst_contention m aff"
  let ?S = "all_slots m ?k"
  obtain D where D: "\<And>src. src_pref_list n m aff src = Inr (slots_of ?k (D src))"
    "\<And>src. distinct (D src)" "\<And>src. set (D src) = {..<m}"
    "\<And>src. sorted_wrt (src_pref_lt aff ?c src) (D src)"
    using src_pref_list_ok [OF aff, of n] by metis
  have S: "set (slots_of ?k [0..<m]) = ?S" and SD: "\<And>src. set (slots_of ?k (D src)) = ?S"
    by (auto simp: set_slots_of all_slots_def D(3))
  define prefs where "prefs = fold (\<lambda>src. om_put src (slots_of ?k (D src))) [0..<n] []"
  define nexts where "nexts = fold (\<lambda>src. om_put src (0::nat)) [0..<n] []"
  define sprefs where
    "sprefs = fold (\<lambda>sl. om_put sl (m_build_slot_preferences n sl aff)) (slots_of ?k [0..<m]) []"
  define s2s where "s2s = fold (\<lambda>sl. om_put sl SIZE_MAX) (slots_of ?k [0..<m]) []"
  define s where "s = \<lparr>m_nsrcs = n, m_ndsts = m, m_slots_per_dst = ?k, m_src_prefs = prefs,
    m_slot_prefs = sprefs, m_src_to_slot = [], m_slot_to_src = s2s, m_src_next_proposal = nexts\<rparr>"
  have new: "stable_marriage_solver_new n m aff = Inr s"
    by (simp add: stable_marriage_solver_new_def Let_def constructor_loop [OF D(1)] s_def
        prefs_def nexts_def sprefs_def s2s_def)
  have p: "map_of prefs src = (if src < n then Some (slots_of ?k (D src)) else None)" for src
    by (simp add: prefs_def om.build_find_empty)
  have q: "map_of sprefs sl = (if sl \<in> ?S then Some (m_build_slot_preferences n sl aff) else None)" for sl
    by (simp add: sprefs_def om.build_find_empty S)
  have q': "map_of (m_slot_prefs s) sl = map_of sprefs sl" for sl by (simp add: s_def)
  have nx: "nxt s src = 0" for src
    by (simp add: s_def nexts_def om_ref_def om.build_find_empty)
  have g: "map_of (m_slot_to_src s) sl = (if sl \<in> ?S then Some SIZE_MAX else None)" for sl
    by (simp add: s_def s2s_def om.build_find_empty S)
  have plist: "plist s src = (if src < n then slots_of ?k (D src) else [])" for src
    by (simp add: s_def om_ref_def p)
  have sr: "srank s sl = rank (m_build_slot_preferences n sl aff)" if "sl \<in> ?S" for sl
    using that by (simp add: fun_eq_iff srank_def s_def om_ref_def q)
  have "keys (m_src_prefs s) = {..<n}" by (auto simp: keys_def s_def p split: if_splits)
  moreover have "n \<le> SIZE_MAX" using m sz by (simp add: SIZE_MAX_def)
  moreover have "n \<le> card ?S" using qvi_maxiperk_enough [OF m sz] by (simp add: card_all_slots)
  ultimately have "prefs_ok n ?S s"
    using SD D(2) slot_preferences_props
    by (simp add: prefs_ok_def plist distinct_slots_of q' q)
  moreover have "prefs_ordered n m ?k aff s" by (rule prefs_orderedI [of n s ?k D]) (simp_all add: plist sr SD D(4))
  ultimately show ?thesis using new nx g by (intro exI [of _ s]) (auto simp: s_def)
qed

section \<open>The invariant of the proposal loop\<close>

text \<open>
  The two directions of the matching agree; the queue holds exactly the unmatched sources; the
  partner of a source is the slot of its last proposal; and every slot a source has proposed to is
  taken, by the source itself or by one the slot likes better.
\<close>

definition match_inv :: "nat \<Rightarrow> slot set \<Rightarrow> stable_marriage_solver \<Rightarrow> bool" where
  "match_inv n S s \<longleftrightarrow>
     om_ok (m_src_to_slot s) \<and> keys (m_slot_to_src s) = S \<and>
     (\<forall>sl \<in> S. mate s sl = SIZE_MAX \<or> mate s sl < n) \<and>
     (\<forall>src sl. map_of (m_src_to_slot s) src = Some sl \<longleftrightarrow> src < n \<and> sl \<in> S \<and> mate s sl = src)"

definition queue_inv :: "nat \<Rightarrow> stable_marriage_solver \<Rightarrow> nat list \<Rightarrow> bool" where
  "queue_inv n s q \<longleftrightarrow>
     distinct q \<and> set q = {src. src < n \<and> map_of (m_src_to_slot s) src = None}"

definition proposal_inv :: "nat \<Rightarrow> stable_marriage_solver \<Rightarrow> bool" where
  "proposal_inv n s \<longleftrightarrow>
     (\<forall>src < n. nxt s src \<le> length (plist s src) \<and>
        (\<forall>j < nxt s src. let sl = plist s src ! j in
           mate s sl < n \<and> (mate s sl = src \<or> srank s sl (mate s sl) < srank s sl src))) \<and>
     (\<forall>src sl. map_of (m_src_to_slot s) src = Some sl \<longrightarrow>
        0 < nxt s src \<and> plist s src ! (nxt s src - 1) = sl)"

definition gs_inv :: "nat \<Rightarrow> slot set \<Rightarrow> stable_marriage_solver \<Rightarrow> nat list \<Rightarrow> bool" where
  "gs_inv n S s q \<longleftrightarrow> match_inv n S s \<and> queue_inv n s q \<and> proposal_inv n s"

text \<open>No source runs out of proposals: all slots would be taken by the other sources.\<close>

lemma not_exhausted:
  assumes ok: "prefs_ok n S s" and inv: "gs_inv n S s (source # q)"
  shows "nxt s source < length (plist s source)"
proof (rule ccontr)
  assume "\<not> nxt s source < length (plist s source)"
  moreover have src: "source < n" "map_of (m_src_to_slot s) source = None"
    using inv by (auto simp: gs_inv_def queue_inv_def)
  ultimately have all: "\<And>j. j < length (plist s source) \<Longrightarrow> mate s (plist s source ! j) < n"
    using inv by (auto simp: gs_inv_def proposal_inv_def Let_def)
  have S: "S = set (plist s source)" using ok src by (simp add: prefs_ok_def)
  then have taken: "mate s sl < n" if "sl \<in> S" for sl
    using all that by (auto simp: in_set_conv_nth)
  have matched: "map_of (m_src_to_slot s) (mate s sl) = Some sl" if "sl \<in> S" for sl
    using inv taken [OF that] that by (auto simp: gs_inv_def match_inv_def)
  have "inj_on (mate s) S"
    by (rule inj_onI) (metis matched option.inject)
  moreover have "mate s ` S \<subseteq> {..<n} - {source}"
    using taken matched src(2) by fastforce
  ultimately have "card S \<le> card ({..<n} - {source})"
    by (intro card_inj_on_le) auto
  moreover have "n \<le> card S" using ok by (simp add: prefs_ok_def)
  ultimately show False using src(1) by simp
qed

lemma srank_distinct:
  assumes "prefs_ok n S s" "sl \<in> S" "a < n" "b < n" "a \<noteq> b" "\<not> srank s sl a < srank s sl b"
  shows "srank s sl b < srank s sl a"
proof -
  obtain ps where ps: "map_of (m_slot_prefs s) sl = Some ps" "set ps = {..<n}"
    using assms(1,2) by (auto simp: prefs_ok_def)
  then have "srank s sl a \<noteq> srank s sl b"
    using assms(3-5) rank_inj [of a ps b] by (auto simp: srank_def om_ref_def)
  with assms(6) show ?thesis by simp
qed

lemma m_slot_prefers_srank:
  assumes "prefs_ok n S s" "sl \<in> S" "m_slot_prefs s' = m_slot_prefs s"
  shows "m_slot_prefers s' sl a b = Inr (srank s sl a < srank s sl b)"
proof -
  obtain ps where ps: "map_of (m_slot_prefs s) sl = Some ps" "distinct ps"
    using assms(1,2) by (auto simp: prefs_ok_def)
  then show ?thesis
    using m_slot_prefers_eq [of s' sl ps] assms(3) by (simp add: srank_def om_ref_def)
qed

text \<open>The three outcomes of a proposal.\<close>

definition propose :: "stable_marriage_solver \<Rightarrow> nat \<Rightarrow> stable_marriage_solver" where
  "propose s source = s\<lparr>m_src_next_proposal := om_upd 0 source Suc (m_src_next_proposal s)\<rparr>"

definition accept :: "stable_marriage_solver \<Rightarrow> nat \<Rightarrow> slot \<Rightarrow> stable_marriage_solver" where
  "accept s source sl =
     (propose s source)\<lparr>m_src_to_slot := om_put source sl (m_src_to_slot s),
                        m_slot_to_src := om_put sl source (m_slot_to_src s)\<rparr>"

definition replace :: "stable_marriage_solver \<Rightarrow> nat \<Rightarrow> slot \<Rightarrow> nat \<Rightarrow> stable_marriage_solver" where
  "replace s source sl cur =
     (propose s source)\<lparr>m_src_to_slot := om_erase cur (om_put source sl (m_src_to_slot s)),
                        m_slot_to_src := om_put sl source (m_slot_to_src s)\<rparr>"

lemma solve_step_outcome:
  assumes ok: "prefs_ok n S s" and inv: "gs_inv n S s (source # q)"
    and sl: "sl = plist s source ! nxt s source"
  shows "solve_step s source q =
    (if mate s sl = SIZE_MAX then Inr (accept s source sl, q)
     else if srank s sl source < srank s sl (mate s sl)
     then Inr (replace s source sl (mate s sl), q @ [mate s sl])
     else Inr (propose s source, q @ [source]))"
proof -
  have lt: "nxt s source < length (plist s source)" by (rule not_exhausted [OF ok inv])
  have "source < n" using inv by (auto simp: gs_inv_def queue_inv_def)
  then have S: "sl \<in> S" using ok lt sl by (auto simp: prefs_ok_def)
  have pr: "m_slot_prefers (propose s source) sl source (mate s sl) =
      Inr (srank s sl source < srank s sl (mate s sl))"
    by (rule m_slot_prefers_srank [OF ok S]) (simp add: propose_def)
  show ?thesis
    using lt pr unfolding solve_step_def Let_def sl [symmetric]
    by (simp add: propose_def accept_def replace_def not_le)
qed

text \<open>What the outcomes have in common.\<close>

lemma outcome_frame [simp]:
  "m_src_prefs (propose s source) = m_src_prefs s" "m_slot_prefs (propose s source) = m_slot_prefs s"
  "m_src_prefs (accept s source sl) = m_src_prefs s" "m_slot_prefs (accept s source sl) = m_slot_prefs s"
  "m_src_prefs (replace s source sl c) = m_src_prefs s"
  "m_slot_prefs (replace s source sl c) = m_slot_prefs s"
  "nxt (propose s source) src = (if src = source then Suc (nxt s source) else nxt s src)"
  "nxt (accept s source sl) src = (if src = source then Suc (nxt s source) else nxt s src)"
  "nxt (replace s source sl c) src = (if src = source then Suc (nxt s source) else nxt s src)"
  "m_src_to_slot (propose s source) = m_src_to_slot s"
  "m_slot_to_src (propose s source) = m_slot_to_src s"
  "m_src_to_slot (accept s source sl) = om_put source sl (m_src_to_slot s)"
  "m_slot_to_src (accept s source sl) = om_put sl source (m_slot_to_src s)"
  "m_src_to_slot (replace s source sl c) = om_erase c (om_put source sl (m_src_to_slot s))"
  "m_slot_to_src (replace s source sl c) = om_put sl source (m_slot_to_src s)"
  by (simp_all add: propose_def accept_def replace_def)

lemma outcome_srank [simp]:
  "srank (propose s source) = srank s" "srank (accept s source sl) = srank s"
  "srank (replace s source sl c) = srank s"
  by (simp_all add: fun_eq_iff srank_def)

subsection \<open>Preservation\<close>

lemma step_context:
  assumes ok: "prefs_ok n S s" and inv: "gs_inv n S s (source # q)"
    and sl: "sl = plist s source ! nxt s source"
  shows "source < n" "map_of (m_src_to_slot s) source = None" "sl \<in> S"
    "nxt s source < length (plist s source)" "n \<le> SIZE_MAX"
    "\<And>x. x \<in> S \<Longrightarrow> mate s x \<noteq> source"
    "mate s sl \<noteq> SIZE_MAX \<Longrightarrow> mate s sl < n \<and> map_of (m_src_to_slot s) (mate s sl) = Some sl"
proof -
  show src: "source < n" "map_of (m_src_to_slot s) source = None"
    using inv by (auto simp: gs_inv_def queue_inv_def)
  show lt: "nxt s source < length (plist s source)" by (rule not_exhausted [OF ok inv])
  show S: "sl \<in> S" using ok lt sl src by (auto simp: prefs_ok_def)
  show "n \<le> SIZE_MAX" using ok by (simp add: prefs_ok_def)
  have D: "\<And>src sl. map_of (m_src_to_slot s) src = Some sl \<longleftrightarrow> src < n \<and> sl \<in> S \<and> mate s sl = src"
    and C: "\<And>sl. sl \<in> S \<Longrightarrow> mate s sl = SIZE_MAX \<or> mate s sl < n"
    using inv by (auto simp: gs_inv_def match_inv_def)
  show "mate s x \<noteq> source" if "x \<in> S" for x
    using D [of source x] src that by auto
  show "mate s sl < n \<and> map_of (m_src_to_slot s) (mate s sl) = Some sl" if "mate s sl \<noteq> SIZE_MAX"
    using C [OF S] D S that by blast
qed

lemma match_inv_accept:
  assumes "prefs_ok n S s" "gs_inv n S s (source # q)" "sl = plist s source ! nxt s source"
    and free: "mate s sl = SIZE_MAX"
  shows "match_inv n S (accept s source sl)"
proof -
  note ctx = step_context [OF assms(1-3)]
  have inv: "match_inv n S s" using assms(2) by (simp add: gs_inv_def)
  have D: "map_of (m_src_to_slot s) a = Some x \<longleftrightarrow> a < n \<and> x \<in> S \<and> mate s x = a" for a x
    using inv by (simp add: match_inv_def)
  have "map_of (m_src_to_slot (accept s source sl)) a = Some x \<longleftrightarrow>
      a < n \<and> x \<in> S \<and> mate (accept s source sl) x = a" for a x
    using D [of a x] ctx free by auto
  then show ?thesis using inv ctx by (auto simp: match_inv_def)
qed

lemma match_inv_replace:
  assumes "prefs_ok n S s" "gs_inv n S s (source # q)" "sl = plist s source ! nxt s source"
    and taken: "mate s sl \<noteq> SIZE_MAX"
  shows "match_inv n S (replace s source sl (mate s sl))"
proof -
  note ctx = step_context [OF assms(1-3)]
  have inv: "match_inv n S s" using assms(2) by (simp add: gs_inv_def)
  have D: "map_of (m_src_to_slot s) a = Some x \<longleftrightarrow> a < n \<and> x \<in> S \<and> mate s x = a" for a x
    using inv by (simp add: match_inv_def)
  have "map_of (m_src_to_slot (replace s source sl (mate s sl))) a = Some x \<longleftrightarrow>
      a < n \<and> x \<in> S \<and> mate (replace s source sl (mate s sl)) x = a" for a x
    using D [of a x] D [of "mate s sl" x] ctx taken by auto
  then show ?thesis using inv ctx by (auto simp: match_inv_def)
qed

lemma queue_inv_outcomes:
  assumes "prefs_ok n S s" "gs_inv n S s (source # q)" "sl = plist s source ! nxt s source"
  shows "queue_inv n (accept s source sl) q"
    "mate s sl \<noteq> SIZE_MAX \<Longrightarrow> queue_inv n (replace s source sl (mate s sl)) (q @ [mate s sl])"
    "queue_inv n (propose s source) (q @ [source])"
proof -
  note ctx = step_context [OF assms]
  have q: "distinct q" "source \<notin> set q"
    "\<And>a. a \<in> set q \<longleftrightarrow> a \<noteq> source \<and> a < n \<and> map_of (m_src_to_slot s) a = None"
    using assms(2) by (auto simp: gs_inv_def queue_inv_def)
  then show "queue_inv n (accept s source sl) q" by (auto simp: queue_inv_def)
  show "queue_inv n (propose s source) (q @ [source])"
    using q ctx by (auto simp: queue_inv_def)
  show "queue_inv n (replace s source sl (mate s sl)) (q @ [mate s sl])" if "mate s sl \<noteq> SIZE_MAX"
    using q ctx(7) [OF that] ctx(3,6) by (auto simp: queue_inv_def)
qed

text \<open>
  One lemma for the three outcomes: \<open>mate'\<close> is the matching after the proposal. It only changes at
  the slot proposed to, and only for the better.
\<close>

lemma proposals_step:
  assumes ok: "prefs_ok n S s" and inv: "gs_inv n S s (source # q)"
    and sl: "sl = plist s source ! nxt s source"
    and frame: "m_src_prefs s' = m_src_prefs s" "srank s' = srank s"
      "\<And>src. nxt s' src = (if src = source then Suc (nxt s source) else nxt s src)"
    and other: "\<And>x. x \<noteq> sl \<Longrightarrow> mate s' x = mate s x"
    and this_slot: "mate s' sl < n" "mate s' sl = source \<or> srank s sl (mate s' sl) < srank s sl source"
    and better: "mate s sl = SIZE_MAX \<or> mate s' sl = mate s sl \<or>
      mate s' sl = source \<and> srank s sl source < srank s sl (mate s sl)"
    and partner: "\<And>src x. map_of (m_src_to_slot s') src = Some x \<Longrightarrow>
      (src = source \<and> x = sl) \<or> (src \<noteq> source \<and> map_of (m_src_to_slot s) src = Some x)"
  shows "proposal_inv n s'"
proof -
  note ctx = step_context [OF ok inv sl]
  have F: "nxt s src \<le> length (plist s src)"
    "\<And>j. j < nxt s src \<Longrightarrow> mate s (plist s src ! j) < n \<and>
      (mate s (plist s src ! j) = src \<or>
       srank s (plist s src ! j) (mate s (plist s src ! j)) < srank s (plist s src ! j) src)"
    if "src < n" for src
    using inv that by (auto simp: gs_inv_def proposal_inv_def Let_def)
  have G: "0 < nxt s src \<and> plist s src ! (nxt s src - 1) = x"
    if "map_of (m_src_to_slot s) src = Some x" for src x
    using inv that by (simp add: gs_inv_def proposal_inv_def)
  have old: "mate s' x < n \<and> (mate s' x = src \<or> srank s x (mate s' x) < srank s x src)"
    if "src < n" "j < nxt s src" "x = plist s src ! j" for src j x
  proof (cases "x = sl")
    case True
    then show ?thesis using F(2) [OF that(1,2)] that(3) this_slot better ctx(5)
      by (auto intro: less_trans)
  next
    case False
    then show ?thesis using F(2) [OF that(1,2)] that(3) other by simp
  qed
  have "mate s' x < n \<and> (mate s' x = src \<or> srank s x (mate s' x) < srank s x src)"
    if "src < n" "j < nxt s' src" "x = plist s src ! j" for src j x
  proof (cases "src = source \<and> j = nxt s source")
    case True
    then show ?thesis using that(3) sl this_slot by simp
  next
    case False
    then have "j < nxt s src" using that(2) by (auto simp: frame(3) split: if_splits)
    then show ?thesis using old that(1,3) by blast
  qed
  moreover have "nxt s' src \<le> length (plist s src)" if "src < n" for src
    using F(1) [OF that] ctx(4) by (simp add: frame(3) Suc_le_eq)
  moreover have "0 < nxt s' src \<and> plist s src ! (nxt s' src - 1) = x"
    if "map_of (m_src_to_slot s') src = Some x" for src x
    using partner [OF that] G [of src x] sl by (auto simp: frame(3))
  ultimately show ?thesis by (simp add: proposal_inv_def Let_def frame(1,2))
qed

lemma gs_inv_step:
  assumes ok: "prefs_ok n S s" and inv: "gs_inv n S s (source # q)"
  shows "\<exists>s' q'. solve_step s source q = Inr (s', q') \<and> gs_inv n S s' q'"
proof -
  define sl where "sl = plist s source ! nxt s source"
  note ctx = step_context [OF ok inv sl_def]
  note qi = queue_inv_outcomes [OF ok inv sl_def]
  have mi: "match_inv n S s" using inv by (simp add: gs_inv_def)
  consider (free) "mate s sl = SIZE_MAX"
    | (better) "mate s sl \<noteq> SIZE_MAX" "srank s sl source < srank s sl (mate s sl)"
    | (reject) "mate s sl \<noteq> SIZE_MAX" "\<not> srank s sl source < srank s sl (mate s sl)"
    by blast
  then show ?thesis
  proof cases
    case free
    have "proposal_inv n (accept s source sl)"
      by (rule proposals_step [OF ok inv sl_def]) (use free ctx in \<open>auto split: if_splits\<close>)
    with free qi(1) match_inv_accept [OF ok inv sl_def free] show ?thesis
      by (simp add: solve_step_outcome [OF ok inv sl_def] gs_inv_def)
  next
    case better
    have "proposal_inv n (replace s source sl (mate s sl))"
      by (rule proposals_step [OF ok inv sl_def]) (use better ctx in \<open>auto split: if_splits\<close>)
    with better qi(2) match_inv_replace [OF ok inv sl_def better(1)] show ?thesis
      by (simp add: solve_step_outcome [OF ok inv sl_def] gs_inv_def)
  next
    case reject
    have lt: "srank s sl (mate s sl) < srank s sl source"
      using reject ctx srank_distinct [OF ok ctx(3), of source "mate s sl"] by auto
    have "proposal_inv n (propose s source)"
      by (rule proposals_step [OF ok inv sl_def]) (use reject ctx lt in auto)
    with reject qi(3) mi show ?thesis
      by (simp add: solve_step_outcome [OF ok inv sl_def] gs_inv_def match_inv_def)
  qed
qed

lemma prefs_ok_frame:
  assumes "prefs_ok n S s" "m_src_prefs s' = m_src_prefs s" "m_slot_prefs s' = m_slot_prefs s"
  shows "prefs_ok n S s'"
  using assms by (simp add: prefs_ok_def)

lemma solve_loop_correct:
  "prefs_ok n S s \<Longrightarrow> gs_inv n S s q \<Longrightarrow>
    \<exists>s'. solve_loop s q = Inr s' \<and> gs_inv n S s' [] \<and> m_nsrcs s' = m_nsrcs s \<and>
      m_src_prefs s' = m_src_prefs s \<and> m_slot_prefs s' = m_slot_prefs s"
proof (induction s q rule: solve_loop.induct)
  case (2 s source q)
  obtain s' q' where step: "solve_step s source q = Inr (s', q')" "gs_inv n S s' q'"
    using gs_inv_step [OF 2(2,3)] by blast
  note fr = solve_step_Inr_frame [OF step(1)]
  have "prefs_ok n S s'" by (rule prefs_ok_frame [OF 2(2) fr(4,5)])
  from 2(1) [OF step(1) refl this step(2)] step(1) fr show ?case by simp
qed simp

section \<open>The result\<close>

text \<open>At the end of the loop everyone is matched, to the slot of the last proposal.\<close>

lemma final_match:
  assumes ok: "prefs_ok n S s" and inv: "gs_inv n S s []" and src: "src < n"
  obtains sl where "map_of (m_src_to_slot s) src = Some sl" "sl \<in> S" "mate s sl = src"
    "\<And>x. x \<in> S \<Longrightarrow> rank (plist s src) x < rank (plist s src) sl \<Longrightarrow>
      mate s x < n \<and> mate s x \<noteq> src \<and> srank s x (mate s x) < srank s x src"
proof -
  obtain sl where sl: "map_of (m_src_to_slot s) src = Some sl"
    using inv src by (auto simp: gs_inv_def queue_inv_def)
  then have sl': "sl \<in> S" "mate s sl = src" using inv by (auto simp: gs_inv_def match_inv_def)
  have last: "0 < nxt s src" "plist s src ! (nxt s src - 1) = sl" "nxt s src \<le> length (plist s src)"
    using inv sl src by (auto simp: gs_inv_def proposal_inv_def)
  have P: "distinct (plist s src)" "set (plist s src) = S" using ok src by (auto simp: prefs_ok_def)
  have r: "rank (plist s src) sl = nxt s src - 1"
    using rank_nth [OF P(1), of "nxt s src - 1"] last by simp
  have "mate s x < n \<and> mate s x \<noteq> src \<and> srank s x (mate s x) < srank s x src"
    if x: "x \<in> S" "rank (plist s src) x < rank (plist s src) sl" for x
  proof -
    have "rank (plist s src) x < nxt s src" using x(2) r by simp
    moreover have "plist s src ! rank (plist s src) x = x" using nth_rank x(1) P(2) by metis
    moreover have "mate s (plist s src ! j) < n \<and> (mate s (plist s src ! j) = src \<or>
        srank s (plist s src ! j) (mate s (plist s src ! j)) < srank s (plist s src ! j) src)"
      if "j < nxt s src" for j
      using inv src that by (auto simp: gs_inv_def proposal_inv_def Let_def)
    ultimately have *: "mate s x < n" "mate s x = src \<or> srank s x (mate s x) < srank s x src"
      by metis+
    have "mate s x \<noteq> src"
    proof
      assume "mate s x = src"
      then have "map_of (m_src_to_slot s) src = Some x"
        using inv src x(1) by (simp add: gs_inv_def match_inv_def)
      with sl x(2) show False by simp
    qed
    with * show ?thesis by simp
  qed
  with sl sl' show thesis by (rule that)
qed

lemma no_blocking_pair_True:
  assumes "\<And>x. x \<in> set ps \<Longrightarrow> x \<noteq> cur \<Longrightarrow> rank ps x < rank ps cur \<Longrightarrow>
    \<exists>other. map_of (m_slot_to_src s) x = Some other \<and> other \<noteq> SIZE_MAX \<and>
      m_slot_prefers s x src other = Inr False"
  shows "no_blocking_pair s src cur ps = Inr True"
  using assms
proof (induction ps)
  case (Cons p ps)
  show ?case
  proof (cases "p = cur")
    case False
    obtain other where other: "map_of (m_slot_to_src s) p = Some other" "other \<noteq> SIZE_MAX"
      "m_slot_prefers s p src other = Inr False"
      using Cons.prems [of p] False by (auto simp: rank_Cons)
    have "no_blocking_pair s src cur ps = Inr True"
    proof (rule Cons.IH)
      fix x
      assume x: "x \<in> set ps" "x \<noteq> cur" "rank ps x < rank ps cur"
      then have "rank (p # ps) x < rank (p # ps) cur" using False by (simp add: rank_Cons)
      with x Cons.prems [of x] show "\<exists>other. map_of (m_slot_to_src s) x = Some other \<and>
          other \<noteq> SIZE_MAX \<and> m_slot_prefers s x src other = Inr False"
        by simp
    qed
    with False other show ?thesis by simp
  qed simp
qed simp

lemma stable_from_True:
  assumes ok: "prefs_ok n S s" and inv: "gs_inv n S s []" and srcs: "set srcs \<subseteq> {..<n}"
  shows "stable_from s srcs = Inr True"
  using srcs
proof (induction srcs)
  case (Cons src srcs)
  then have src: "src < n" by simp
  obtain sl where sl: "map_of (m_src_to_slot s) src = Some sl" "sl \<in> S"
    "\<And>x. x \<in> S \<Longrightarrow> rank (plist s src) x < rank (plist s src) sl \<Longrightarrow>
      mate s x < n \<and> mate s x \<noteq> src \<and> srank s x (mate s x) < srank s x src"
    using final_match [OF ok inv src] by metis
  have "src \<in> keys (m_src_prefs s)" using ok src by (simp add: prefs_ok_def)
  then have pl: "om_at (m_src_prefs s) src = Inr (plist s src)"
    by (auto simp: keys_def om_at_def om_ref_def)
  have "no_blocking_pair s src sl (plist s src) = Inr True"
  proof (rule no_blocking_pair_True)
    fix x
    assume "x \<in> set (plist s src)" "x \<noteq> sl" and r: "rank (plist s src) x < rank (plist s src) sl"
    then have x: "x \<in> S" using ok src by (simp add: prefs_ok_def)
    note m = sl(3) [OF x r]
    have "x \<in> keys (m_slot_to_src s)" using inv x by (simp add: gs_inv_def match_inv_def)
    then have "map_of (m_slot_to_src s) x = Some (mate s x)" by (auto simp: keys_def om_ref_def)
    moreover have "mate s x \<noteq> SIZE_MAX" using m ok by (auto simp: prefs_ok_def)
    moreover have "m_slot_prefers s x src (mate s x) = Inr False"
      using m m_slot_prefers_srank [OF ok x refl, of src "mate s x"] by simp
    ultimately show "\<exists>other. map_of (m_slot_to_src s) x = Some other \<and> other \<noteq> SIZE_MAX \<and>
        m_slot_prefers s x src other = Inr False"
      by blast
  qed
  with Cons sl(1) pl show ?case by simp
qed simp

lemma get_matching_dests:
  "om_ok (m_src_to_slot s) \<Longrightarrow>
     dests (get_matching s) src = (case map_of (m_src_to_slot s) src of None \<Rightarrow> {} | Some sl \<Rightarrow> {destination sl})"
  and get_matching_keys: "keys (get_matching s) = keys (m_src_to_slot s)"
  and get_matching_ok: "map_ok (get_matching s)"
proof -
  let ?ps = "map (\<lambda>(src, sl). (src, destination sl)) (m_src_to_slot s)"
  have "fold (\<lambda>(source, sl). map_ins source (destination sl)) xs m =
      fold (\<lambda>(k, v). map_ins k v) (map (\<lambda>(src, sl). (src, destination sl)) xs) m" for xs m
    by (induction xs arbitrary: m) auto
  then have eq: "get_matching s = fold (\<lambda>(k, v). map_ins k v) ?ps []"
    by (simp add: get_matching_def)
  show "map_ok (get_matching s)" by (simp add: eq)
  have "fst ` set ?ps = keys (m_src_to_slot s)"
    by (force simp: keys_def dom_map_of_conv_image_fst)
  then show "keys (get_matching s) = keys (m_src_to_slot s)" by (simp add: eq keys_adds)
  assume "om_ok (m_src_to_slot s)"
  then show "dests (get_matching s) src =
      (case map_of (m_src_to_slot s) src of None \<Rightarrow> {} | Some sl \<Rightarrow> {destination sl})"
    using map_of_Some_iff [of "m_src_to_slot s" src]
    by (cases "map_of (m_src_to_slot s) src") (force simp: eq dests_adds)+
qed

text \<open>
  What the mapper promises. \<open>k\<close> is the capacity of a destination: the least number of places per
  destination that is enough for all the sources.
\<close>

definition capacity_assignment :: "nat \<Rightarrow> nat \<Rightarrow> nat \<Rightarrow> qvi_map_t \<Rightarrow> bool" where
  "capacity_assignment n m k M \<longleftrightarrow>
     map_ok M \<and> keys M = {..<n} \<and> (\<forall>s < n. \<exists>d < m. dests M s = {d}) \<and> (\<forall>d. load M d \<le> k)"

definition stable_assignment :: "nat \<Rightarrow> nat \<Rightarrow> nat \<Rightarrow> qvi_map_t \<Rightarrow> qvi_map_t \<Rightarrow> bool" where
  "stable_assignment n m k aff M \<longleftrightarrow>
     (\<forall>s < n. \<forall>d \<in> dests M s. \<forall>d' < m.
        src_pref_lt aff (m_calculate_dst_contention m aff) s d' d \<longrightarrow>
        load M d' = k \<and> (\<forall>s'. d' \<in> dests M s' \<longrightarrow> dst_pref_lt aff d' s' s))"

lemma matching_members:
  assumes inv: "gs_inv n S s []"
  shows "d \<in> dests (get_matching s) src \<longleftrightarrow>
    (\<exists>sl \<in> S. destination sl = d \<and> mate s sl = src \<and> src < n)"
proof -
  have ok: "om_ok (m_src_to_slot s)" using inv by (simp add: gs_inv_def match_inv_def)
  have "d \<in> dests (get_matching s) src \<longleftrightarrow>
      (\<exists>sl. map_of (m_src_to_slot s) src = Some sl \<and> destination sl = d)"
    unfolding get_matching_dests [OF ok] by (auto split: option.split)
  also have "\<dots> \<longleftrightarrow> (\<exists>sl \<in> S. destination sl = d \<and> mate s sl = src \<and> src < n)"
    using inv by (auto simp: gs_inv_def match_inv_def)
  finally show ?thesis .
qed

lemma matching_load:
  assumes inv: "gs_inv n (all_slots m k) s []" and n: "n \<le> SIZE_MAX"
  shows "load (get_matching s) d \<le> k"
    and "d < m \<Longrightarrow> (\<And>i. i < k \<Longrightarrow> mate s (Slot d i) < n) \<Longrightarrow> load (get_matching s) d = k"
proof -
  let ?T = "{sl \<in> all_slots m k. destination sl = d \<and> mate s sl < n}"
  have srcs: "{src. d \<in> dests (get_matching s) src} = mate s ` ?T"
    unfolding matching_members [OF inv] by auto
  have inj: "inj_on (mate s) ?T"
  proof (rule inj_onI)
    fix x y
    assume "x \<in> ?T" "y \<in> ?T" "mate s x = mate s y"
    then have "map_of (m_src_to_slot s) (mate s x) = Some x" "map_of (m_src_to_slot s) (mate s x) = Some y"
      using inv by (simp_all add: gs_inv_def match_inv_def)
    then show "x = y" by simp
  qed
  have sub: "?T \<subseteq> Slot d ` {..<k}"
  proof
    fix sl
    assume "sl \<in> ?T"
    then show "sl \<in> Slot d ` {..<k}" by (cases sl) (auto simp: all_slots_def)
  qed
  have c: "card (Slot d ` {..<k}) = k" by (simp add: card_image inj_on_def)
  have ld: "load (get_matching s) d = card ?T" by (simp add: load_def srcs card_image [OF inj])
  show "load (get_matching s) d \<le> k" using card_mono [OF _ sub] c ld by simp
  assume "d < m" "\<And>i. i < k \<Longrightarrow> mate s (Slot d i) < n"
  then have "Slot d ` {..<k} \<subseteq> ?T" by (auto simp: all_slots_def)
  with sub c ld show "load (get_matching s) d = k" by (metis subset_antisym)
qed

lemma matching_stable:
  assumes ok: "prefs_ok n (all_slots m k) s" and inv: "gs_inv n (all_slots m k) s []" and ord: "prefs_ordered n m k aff s"
  shows "stable_assignment n m k aff (get_matching s)"
proof -
  let ?S = "all_slots m k" and ?M = "get_matching s"
  have n: "n \<le> SIZE_MAX" using ok by (simp add: prefs_ok_def)
  have om: "om_ok (m_src_to_slot s)" using inv by (simp add: gs_inv_def match_inv_def)
  have "load ?M d' = k \<and> (\<forall>s'. d' \<in> dests ?M s' \<longrightarrow> dst_pref_lt aff d' s' src)"
    if a: "src < n" "d \<in> dests ?M src" "d' < m"
      "src_pref_lt aff (m_calculate_dst_contention m aff) src d' d" for src d d'
  proof -
    obtain sl where sl: "map_of (m_src_to_slot s) src = Some sl" "sl \<in> ?S"
      "\<And>x. x \<in> ?S \<Longrightarrow> rank (plist s src) x < rank (plist s src) sl \<Longrightarrow>
        mate s x < n \<and> mate s x \<noteq> src \<and> srank s x (mate s x) < srank s x src"
      using final_match [OF ok inv a(1)] by metis
    have d: "destination sl = d" using a(2) sl(1) by (simp add: get_matching_dests [OF om])
    have tk: "mate s x < n \<and> srank s x (mate s x) < srank s x src"
      if "x \<in> ?S" "destination x = d'" for x
      using ord a(1,4) that sl(2) d sl(3) [OF that(1)] by (auto simp: prefs_ordered_def)
    have "load ?M d' = k"
      by (rule matching_load(2) [OF inv n a(3)]) (use tk a(3) in \<open>auto simp: all_slots_def\<close>)
    moreover have "dst_pref_lt aff d' s' src" if "d' \<in> dests ?M s'" for s'
      using that tk ord a(1) unfolding matching_members [OF inv] prefs_ordered_def by blast
    ultimately show ?thesis by blast
  qed
  then show ?thesis by (simp add: stable_assignment_def)
qed

lemma solve_ap_mapping_correct:
  assumes aff: "aff_ok m aff" and m: "0 < m" and sz: "n + m \<le> 2 ^ 64"
  shows "\<exists>M. solve_ap_mapping n m aff = Inr M \<and>
    capacity_assignment n m (qvi_maxiperk n m) M \<and> stable_assignment n m (qvi_maxiperk n m) aff M"
proof -
  let ?k = "qvi_maxiperk n m"
  let ?S = "all_slots m ?k"
  obtain s0 where s0: "stable_marriage_solver_new n m aff = Inr s0" "m_nsrcs s0 = n"
    "prefs_ok n ?S s0" "prefs_ordered n m ?k aff s0" "m_src_to_slot s0 = []"
    "\<And>sl. map_of (m_slot_to_src s0) sl = (if sl \<in> ?S then Some SIZE_MAX else None)"
    "\<And>src. nxt s0 src = 0"
    using constructor_ok [OF assms] by blast
  have "gs_inv n ?S s0 [0..<n]"
    using s0(3,5-7) by (auto simp: gs_inv_def match_inv_def queue_inv_def proposal_inv_def keys_def
        om_ref_def prefs_ok_def split: if_splits)
  then obtain s where s: "solve s0 = Inr s" "gs_inv n ?S s []" "m_nsrcs s = n"
    "m_src_prefs s = m_src_prefs s0" "m_slot_prefs s = m_slot_prefs s0"
    using solve_loop_correct [OF s0(3)] s0(2) by (auto simp: solve_def)
  have ok: "prefs_ok n ?S s" by (rule prefs_ok_frame [OF s0(3) s(4,5)])
  have ord: "prefs_ordered n m ?k aff s"
    using s0(4) by (simp add: prefs_ordered_def s(4,5) srank_def)
  have "stable s = Inr True" using stable_from_True [OF ok s(2)] by (simp add: stable_def s(3) atLeast0LessThan)
  then have res: "solve_ap_mapping n m aff = Inr (get_matching s)"
    by (simp add: solve_ap_mapping_def s0(1) s(1))
  let ?M = "get_matching s"
  have n: "n \<le> SIZE_MAX" using ok by (simp add: prefs_ok_def)
  have om: "om_ok (m_src_to_slot s)" using s(2) by (simp add: gs_inv_def match_inv_def)
  have "keys ?M = {..<n}"
    unfolding get_matching_keys using s(2)
    by (auto simp: keys_def gs_inv_def queue_inv_def match_inv_def dom_def)
  moreover have "\<exists>d < m. dests ?M src = {d}" if "src < n" for src
    using final_match [OF ok s(2) that] by (force simp: get_matching_dests [OF om] all_slots_def)
  ultimately have cap: "capacity_assignment n m ?k ?M"
    using matching_load(1) [OF s(2) n] by (simp add: capacity_assignment_def get_matching_ok)
  have "stable_assignment n m ?k aff ?M" by (rule matching_stable [OF ok s(2) ord])
  with res cap show ?thesis by blast
qed

section \<open>Properties\<close>

text \<open>C4: the assignment solver always finds a solution when there is a destination (the proposal loop
  ends, no lookup fails, and the final stability check passes): every source gets exactly one
  destination, no destination gets more than \<open>ceil (n / m)\<close> sources, and the result is stable: a source
  could only prefer another destination that is full of sources this destination prefers.\<close>

theorem solve_ap_mapping_total_stable:
  assumes "aff_ok m aff" "0 < m" "n + m \<le> 2 ^ 64"
  shows "\<exists>M. solve_ap_mapping n m aff = Inr M \<and>
    capacity_assignment n m (qvi_maxiperk n m) M \<and> stable_assignment n m (qvi_maxiperk n m) aff M"
  by (rule solve_ap_mapping_correct [OF assms])

theorem solve_ap_mapping_total_stable_witness:
  "solve_ap_mapping 3 2 [(0, [0]), (1, [0]), (2, [0])] = Inr [(0, [0]), (1, [0]), (2, [1])] \<and>
   stable_assignment 3 2 2 [(0, [0]), (1, [0]), (2, [0])] [(0, [0]), (1, [0]), (2, [1])]"
proof -
  have r: "solve_ap_mapping 3 2 [(0, [0]), (1, [0]), (2, [0])] = Inr [(0, [0]), (1, [0]), (2, [1])]" by code_simp
  have k: "qvi_maxiperk 3 2 = 2" by code_simp
  have "aff_ok 2 [(0, [0]), (1, [0]), (2, [0])]" by (simp add: aff_ok_def map_ok_def om_ok_def os_ok_def)
  from solve_ap_mapping_total_stable [OF this, of 3] show ?thesis unfolding r k by simp
qed

lemma calc_affinities_has:
  assumes "i < length src" "d < length dst"
  shows "src_has_affinity (qvi_map_calc_affinities intersects src dst) i d \<longleftrightarrow> intersects (src ! i) (dst ! d)"
proof -
  let ?a = "qvi_map_calc_affinities intersects src dst"
  have d: "dests ?a i = {d. d < length dst \<and> intersects (src ! i) (dst ! d)}"
    using assms by (simp add: dests_calc_affinities)
  show ?thesis
  proof (cases "map_of ?a i")
    case None
    then have "dests ?a i = {}" by (simp add: dests_def om_ref_def)
    with None d assms(2) show ?thesis by (auto simp: src_has_affinity_def)
  next
    case (Some ds)
    then have "dests ?a i = set ds" by (simp add: dests_def om_ref_def)
    with Some d assms(2) calc_affinities_entry(2) [OF Some] show ?thesis by (auto simp: src_has_affinity_def)
  qed
qed

lemma aff_ok_calc: "aff_ok (length dst) (qvi_map_calc_affinities intersects src dst)"
proof -
  let ?a = "qvi_map_calc_affinities intersects src dst"
  have ok: "map_ok ?a" by simp
  have "set ds \<subseteq> {..<length dst}" if "(k, ds) \<in> set ?a" for k ds
    using that calc_affinities_entry(3) [of intersects src dst k ds] map_of_Some_iff [OF map_ok_om_ok [OF ok]] by blast
  with ok show ?thesis by (auto simp: aff_ok_def)
qed

text \<open>C10: what the close mapper promises about affinity: every source gets one destination, loads are
  bounded by \<open>ceil (n / m)\<close>, and a source ends on a destination it has no affinity with only if every
  destination it does have affinity with is full, and full of sources that all have affinity there.\<close>

theorem qvi_map_close_affinity:
  fixes config :: "'b qvi_map_config"
  defines "src \<equiv> src_affinities config" and "dst \<equiv> dst_affinities config"
  assumes "0 < length dst" "length src + length dst \<le> 2 ^ 64"
  shows "\<exists>M. qvi_map_close intersects config mp = Inr M \<and>
    capacity_assignment (length src) (length dst) (qvi_maxiperk (length src) (length dst)) M \<and>
    (\<forall>s < length src. \<forall>d \<in> dests M s. \<forall>d' < length dst.
       \<not> intersects (src ! s) (dst ! d) \<and> intersects (src ! s) (dst ! d') \<longrightarrow>
       load M d' = qvi_maxiperk (length src) (length dst) \<and>
       (\<forall>s'. d' \<in> dests M s' \<longrightarrow> intersects (src ! s') (dst ! d')))"
proof -
  let ?a = "qvi_map_calc_affinities intersects src dst" and ?n = "length src" and ?m = "length dst"
  obtain M where M: "solve_ap_mapping ?n ?m ?a = Inr M" "capacity_assignment ?n ?m (qvi_maxiperk ?n ?m) M"
    "stable_assignment ?n ?m (qvi_maxiperk ?n ?m) ?a M"
    using solve_ap_mapping_correct [OF aff_ok_calc assms(3,4)] by blast
  have full: "load M d' = qvi_maxiperk ?n ?m \<and> (\<forall>s'. d' \<in> dests M s' \<longrightarrow> intersects (src ! s') (dst ! d'))"
    if s: "s < ?n" "d \<in> dests M s" "d' < ?m" and i: "\<not> intersects (src ! s) (dst ! d)" "intersects (src ! s) (dst ! d')"
    for s d d'
  proof -
    have "d < ?m" using M(2) s by (fastforce simp: capacity_assignment_def)
    then have "src_pref_lt ?a (m_calculate_dst_contention ?m ?a) s d' d"
      using s i by (simp add: src_pref_lt_def calc_affinities_has)
    then have st: "load M d' = qvi_maxiperk ?n ?m" "\<And>s'. d' \<in> dests M s' \<Longrightarrow> dst_pref_lt ?a d' s' s"
      using M(3) s unfolding stable_assignment_def by blast+
    have "intersects (src ! s') (dst ! d')" if s': "d' \<in> dests M s'" for s'
    proof -
      have "s' < ?n" using M(2) s' dests_empty_iff [of M s'] by (auto simp: capacity_assignment_def)
      with st(2) [OF s'] s i show ?thesis
        by (auto simp: dst_pref_lt_def calc_affinities_has split: if_splits)
    qed
    with st(1) show ?thesis by blast
  qed
  then show ?thesis using M(1,2) unfolding qvi_map_close_def Let_def src_def [symmetric] dst_def [symmetric] by blast
qed

theorem qvi_map_close_affinity_witness:
  "\<exists>M. qvi_map_close (\<lambda>a b. a \<inter> b \<noteq> {}) (map_config_affinities [{0}, {1, 2}, {3}] [{0, 1}, {2, 3 :: nat}] Map_close) [] = Inr M \<and>
     capacity_assignment 3 2 2 M"
proof -
  have "qvi_maxiperk 3 2 = 2" by code_simp
  then show ?thesis
    using qvi_map_close_affinity [of "map_config_affinities [{0}, {1, 2}, {3}] [{0, 1}, {2, 3 :: nat}] Map_close"
        "\<lambda>a b. a \<inter> b \<noteq> {}" "[]"]
    by (auto simp: map_config_affinities_def numeral_3_eq_3 [symmetric] numeral_2_eq_2 [symmetric])
qed

lemma no_destination_prefs:
  "stable_marriage_solver_new n 0 [] =
     Inr \<lparr>m_nsrcs = n, m_ndsts = 0, m_slots_per_dst = 0, m_src_prefs = map (\<lambda>i. (i, [])) [0..<n],
          m_slot_prefs = [], m_src_to_slot = [], m_slot_to_src = [], m_src_next_proposal = map (\<lambda>i. (i, 0)) [0..<n]\<rparr>"
proof -
  have "rfold (\<lambda>src (prefs, nexts).
      (case src_affinities_of 0 [] src of (saff, has_empty_affinity) \<Rightarrow>
         rbind (m_build_src_prefs 0 0 saff has_empty_affinity c)
           (\<lambda>p. Inr (om_put src p prefs, om_put src (0 :: nat) nexts)))) [0..<n] ([], []) =
     (Inr (map (\<lambda>i. (i, [])) [0..<n], map (\<lambda>i. (i, 0)) [0..<n]) :: ((nat, slot list) omap \<times> (nat, nat) omap) res)" for c
  proof (induction n)
    case (Suc n)
    then show ?case
      by (simp add: rfold_append src_affinities_of_def m_build_src_prefs_def sort_by_preference_def slots_of_def om_put_last)
  qed simp
  then show ?thesis
    by (simp add: stable_marriage_solver_new_def Let_def qvi_maxiperk_def slots_of_def)
qed

text \<open>Without destinations the close mapper throws \<^verbatim>\<open>QV_ERR_NOT_SUPPORTED\<close> as soon as there
  is a source.\<close>

theorem qvi_map_close_no_destinations:
  assumes "dst_affinities config = []" "src_affinities config \<noteq> []"
  shows "qvi_map_close intersects config mp = Inl (Rterror QV_ERR_NOT_SUPPORTED)"
proof -
  let ?n = "length (src_affinities config)"
  have n: "[0..<?n] = 0 # [Suc 0..<?n]" using assms(2) by (simp add: upt_conv_Cons)
  have a: "qvi_map_calc_affinities intersects (src_affinities config) [] = []"
    by (simp add: calc_affinities_adds) (simp add: affinity_pairs_def concat_eq_Nil_conv [THEN iffD2])
  have "solve_ap_mapping ?n 0 [] = Inl (Rterror QV_ERR_NOT_SUPPORTED)"
    by (simp add: solve_ap_mapping_def no_destination_prefs solve_def n solve_step_def om_ref_def Let_def)
  with a assms(1) show ?thesis by (simp add: qvi_map_close_def Let_def)
qed

theorem qvi_map_close_no_destinations_witness:
  "qvi_map_close (\<lambda>a b. a \<inter> b \<noteq> {}) (map_config_affinities [{0 :: nat}] [] Map_close) [] = Inl (Rterror QV_ERR_NOT_SUPPORTED)"
  by (rule qvi_map_close_no_destinations) (simp_all add: map_config_affinities_def)

end
