(* ===== verification/QV_Hwloc.thy ===== *)
theory QV_Hwloc
  imports QV_Strings "HOL-Library.Char_ord" "HOL-Library.List_Lexorder"
begin

text \<open>
  The program's layer over hwloc (\<^verbatim>\<open>qvi-hwloc.cc\<close>, \<^verbatim>\<open>qvi-hwloc.h\<close>).

  hwloc itself is a library outside of the repository. A bitmap is represented by the set of its
  indices; the calls that the code makes are the fields of \<open>hwloc_lib\<close> (calls that do not depend on
  a topology, or that produce one) and of \<open>topology\<close> (queries of a loaded topology). What the
  theorems need of them is stated by \<open>bitmap_laws\<close> and \<open>topology_laws\<close>, which restate the
  documentation of the calls. Memory allocation is taken to succeed.
\<close>

section \<open>Types\<close>

datatype qv_hw_obj_type_t =
    QV_HW_OBJ_MACHINE | QV_HW_OBJ_PACKAGE | QV_HW_OBJ_CORE | QV_HW_OBJ_PU
  | QV_HW_OBJ_L1CACHE | QV_HW_OBJ_L2CACHE | QV_HW_OBJ_L3CACHE | QV_HW_OBJ_L4CACHE
  | QV_HW_OBJ_L5CACHE | QV_HW_OBJ_NUMANODE | QV_HW_OBJ_GPU | QV_HW_OBJ_NIC
  | QV_HW_OBJ_LAST
  | QV_HW_OBJ_OTHER \<comment> \<open>any \<^verbatim>\<open>int\<close> that is not an enumerator\<close>

fun obj_type_num :: "qv_hw_obj_type_t \<Rightarrow> nat" where
  "obj_type_num QV_HW_OBJ_MACHINE = 0"
| "obj_type_num QV_HW_OBJ_PACKAGE = 1"
| "obj_type_num QV_HW_OBJ_CORE = 2"
| "obj_type_num QV_HW_OBJ_PU = 3"
| "obj_type_num QV_HW_OBJ_L1CACHE = 4"
| "obj_type_num QV_HW_OBJ_L2CACHE = 5"
| "obj_type_num QV_HW_OBJ_L3CACHE = 6"
| "obj_type_num QV_HW_OBJ_L4CACHE = 7"
| "obj_type_num QV_HW_OBJ_L5CACHE = 8"
| "obj_type_num QV_HW_OBJ_NUMANODE = 9"
| "obj_type_num QV_HW_OBJ_GPU = 10"
| "obj_type_num QV_HW_OBJ_NIC = 11"
| "obj_type_num QV_HW_OBJ_LAST = 12"
| "obj_type_num QV_HW_OBJ_OTHER = 13"

lemma obj_type_num_inj [simp]: "obj_type_num a = obj_type_num b \<longleftrightarrow> a = b"
  by (cases a; cases b) simp_all

instantiation qv_hw_obj_type_t :: linorder
begin

definition less_qv_hw_obj_type_t :: "qv_hw_obj_type_t \<Rightarrow> qv_hw_obj_type_t \<Rightarrow> bool" where
  "less_qv_hw_obj_type_t a b \<longleftrightarrow> obj_type_num a < obj_type_num b"

definition less_eq_qv_hw_obj_type_t :: "qv_hw_obj_type_t \<Rightarrow> qv_hw_obj_type_t \<Rightarrow> bool" where
  "less_eq_qv_hw_obj_type_t a b \<longleftrightarrow> obj_type_num a \<le> obj_type_num b"

instance
  by standard (auto simp: less_qv_hw_obj_type_t_def less_eq_qv_hw_obj_type_t_def)

end

datatype hwloc_obj_type =
    HWLOC_OBJ_MACHINE | HWLOC_OBJ_PACKAGE | HWLOC_OBJ_CORE | HWLOC_OBJ_PU
  | HWLOC_OBJ_L1CACHE | HWLOC_OBJ_L2CACHE | HWLOC_OBJ_L3CACHE | HWLOC_OBJ_L4CACHE
  | HWLOC_OBJ_L5CACHE | HWLOC_OBJ_NUMANODE | HWLOC_OBJ_OS_DEVICE | HWLOC_OBJ_PCI_DEVICE
  | HWLOC_OBJ_UNNAMED

datatype osdev_type =
    HWLOC_OBJ_OSDEV_GPU | HWLOC_OBJ_OSDEV_COPROC | HWLOC_OBJ_OSDEV_OPENFABRICS
  | HWLOC_OBJ_OSDEV_NETWORK | HWLOC_OBJ_OSDEV_UNNAMED

datatype qvi_hwloc_res_class =
  QVI_HWLOC_RES_CLASS_HOST | QVI_HWLOC_RES_CLASS_DEV | QVI_HWLOC_RES_CLASS_LAST

type_synonym bitmap = "nat set"

text \<open>The fields of \<^verbatim>\<open>struct hwloc_obj\<close> that the program reads; \<open>o_pci\<close> is domain, bus, device, function.\<close>

datatype hwloc_obj =
  Hwloc_obj (o_type: hwloc_obj_type) (o_cpuset: bitmap) (o_logical_index: nat)
    (o_subtype: "string option") (o_name: string) (o_osdev: osdev_type)
    (o_pci: "nat \<times> nat \<times> nat \<times> nat") (o_parent: "hwloc_obj option")

record topology =
  get_type_depth :: "hwloc_obj_type \<Rightarrow> int"
  objs_by_depth :: "int \<Rightarrow> hwloc_obj list"
  nbobjs_by_depth :: "int \<Rightarrow> int"
  obj_inside_cpuset_by_depth :: "bitmap \<Rightarrow> int \<Rightarrow> nat \<Rightarrow> hwloc_obj option"
  nbobjs_inside_cpuset_by_type :: "bitmap \<Rightarrow> hwloc_obj_type \<Rightarrow> int"
  objs_inside_cpuset_by_type :: "bitmap \<Rightarrow> hwloc_obj_type \<Rightarrow> hwloc_obj list"
  obj_by_type :: "hwloc_obj_type \<Rightarrow> nat \<Rightarrow> hwloc_obj option"
  osdevs :: "hwloc_obj list"
  pcidev_by_busidstring :: "string \<Rightarrow> hwloc_obj option"
  non_io_ancestor_obj :: "hwloc_obj \<Rightarrow> hwloc_obj option"
  allowed_cpuset :: bitmap
  topology_cpuset :: bitmap

record hwloc_lib =
  bitmap_or :: "bitmap \<Rightarrow> bitmap \<Rightarrow> bitmap option"
  bitmap_isincluded :: "bitmap \<Rightarrow> bitmap \<Rightarrow> bool"
  bitmap_intersects :: "bitmap \<Rightarrow> bitmap \<Rightarrow> bool"
  bitmap_iszero :: "bitmap \<Rightarrow> bool"
  bitmap_singlify :: "bitmap \<Rightarrow> bitmap"
  bitmap_asprintf :: "bitmap \<Rightarrow> string option"
  bitmap_list_asprintf :: "bitmap \<Rightarrow> string option"
  bitmap_scan :: "string \<Rightarrow> bitmap option"
  obj_get_info_by_name :: "hwloc_obj \<Rightarrow> string \<Rightarrow> string option"
  lib_topology_init :: "topology option"
  lib_set_xml :: "topology \<Rightarrow> string \<Rightarrow> topology option"
  lib_set_flags :: "topology \<Rightarrow> topology option"
  lib_set_all_types_filter :: "topology \<Rightarrow> topology option"
  lib_set_type_filter :: "topology \<Rightarrow> topology option"
  lib_load :: "topology \<Rightarrow> topology option"
  lib_restrict :: "topology \<Rightarrow> bitmap \<Rightarrow> topology option"

text \<open>\<^verbatim>\<open>struct qvi_hwloc_device\<close> with its default member values.\<close>

record qvi_hwloc_device =
  dev_type :: qv_hw_obj_type_t
  affinity :: bitmap
  dev_id :: int
  dev_name :: string
  pci_bus_id :: string
  uuid :: string

definition INVALID_ID :: int where
  "INVALID_ID = -1"

definition INVISIBLE_ID :: int where
  "INVISIBLE_ID = -1"

definition qvi_hwloc_device_new :: qvi_hwloc_device where
  "qvi_hwloc_device_new =
     \<lparr>dev_type = QV_HW_OBJ_LAST, affinity = {}, dev_id = INVISIBLE_ID, dev_name = [],
      pci_bus_id = [], uuid = []\<rparr>"

type_synonym qvi_hwloc_dev_list = "qvi_hwloc_device list"
type_synonym qvi_hwloc_dev_map = "(qv_hw_obj_type_t, qvi_hwloc_dev_list) omap"

definition QVI_HWLOC_FLAG_TOPO_FULL :: int where
  "QVI_HWLOC_FLAG_TOPO_FULL = 1"

definition QVI_HWLOC_FLAG_TOPO_NO_SMT :: int where
  "QVI_HWLOC_FLAG_TOPO_NO_SMT = 2"

definition QVI_HWLOC_FLAG_TOPO_XML :: int where
  "QVI_HWLOC_FLAG_TOPO_XML = 4"

definition QVI_HWLOC_TOPO_MASK :: int where
  "QVI_HWLOC_TOPO_MASK = 3"

record qvi_hwloc =
  m_flags :: int
  m_topo :: topology
  m_topo_file :: string
  m_devmap :: qvi_hwloc_dev_map

definition flag_set :: "int \<Rightarrow> int \<Rightarrow> bool" where
  "flag_set flags f \<longleftrightarrow> and flags f \<noteq> 0"

section \<open>Object types\<close>

definition cget_dev_list :: "qvi_hwloc_dev_map \<Rightarrow> qv_hw_obj_type_t \<Rightarrow> qvi_hwloc_dev_list" where
  "cget_dev_list m type = (case map_of m type of None \<Rightarrow> [] | Some l \<Rightarrow> l)"

fun obj_get_type :: "qv_hw_obj_type_t \<Rightarrow> hwloc_obj_type res" where
  "obj_get_type QV_HW_OBJ_MACHINE = Inr HWLOC_OBJ_MACHINE"
| "obj_get_type QV_HW_OBJ_PACKAGE = Inr HWLOC_OBJ_PACKAGE"
| "obj_get_type QV_HW_OBJ_CORE = Inr HWLOC_OBJ_CORE"
| "obj_get_type QV_HW_OBJ_PU = Inr HWLOC_OBJ_PU"
| "obj_get_type QV_HW_OBJ_L1CACHE = Inr HWLOC_OBJ_L1CACHE"
| "obj_get_type QV_HW_OBJ_L2CACHE = Inr HWLOC_OBJ_L2CACHE"
| "obj_get_type QV_HW_OBJ_L3CACHE = Inr HWLOC_OBJ_L3CACHE"
| "obj_get_type QV_HW_OBJ_L4CACHE = Inr HWLOC_OBJ_L4CACHE"
| "obj_get_type QV_HW_OBJ_L5CACHE = Inr HWLOC_OBJ_L5CACHE"
| "obj_get_type QV_HW_OBJ_NUMANODE = Inr HWLOC_OBJ_NUMANODE"
| "obj_get_type QV_HW_OBJ_GPU = Inr HWLOC_OBJ_OS_DEVICE"
| "obj_get_type QV_HW_OBJ_NIC = Inr HWLOC_OBJ_OS_DEVICE"
| "obj_get_type QV_HW_OBJ_LAST = Inl (Rterror QV_ERR_INTERNAL)"
| "obj_get_type QV_HW_OBJ_OTHER = Inl (Rterror QV_ERR_INTERNAL)"

fun obj_res_class :: "qv_hw_obj_type_t \<Rightarrow> qvi_hwloc_res_class res" where
  "obj_res_class QV_HW_OBJ_GPU = Inr QVI_HWLOC_RES_CLASS_DEV"
| "obj_res_class QV_HW_OBJ_NIC = Inr QVI_HWLOC_RES_CLASS_DEV"
| "obj_res_class QV_HW_OBJ_LAST = Inr QVI_HWLOC_RES_CLASS_LAST"
| "obj_res_class QV_HW_OBJ_OTHER = Inl (Rterror QV_ERR_INTERNAL)"
| "obj_res_class _ = Inr QVI_HWLOC_RES_CLASS_HOST"

definition supported_devices :: "qv_hw_obj_type_t list" where
  "supported_devices = [QV_HW_OBJ_GPU, QV_HW_OBJ_NIC]"

section \<open>Devices\<close>

definition get_dev_id_from_name :: "string \<Rightarrow> int res" where
  "get_dev_id_from_name name =
     (let nums = filter isdigit name
      in if nums \<noteq> [] then qvi_stoi nums else Inr INVALID_ID)"

definition obj_has_subtype :: "hwloc_obj \<Rightarrow> string \<Rightarrow> bool" where
  "obj_has_subtype obj subtype \<longleftrightarrow> o_subtype obj = Some subtype"

text \<open>\<^verbatim>\<open>sscanf(name, "cxi%d", &n) == 1\<close>\<close>

definition sscanf_cxi :: "string \<Rightarrow> bool" where
  "sscanf_cxi name \<longleftrightarrow> is_prefix_at name ''cxi'' 0 \<and>
     (let s = dropWhile isspace (drop 3 name);
          s = (if s \<noteq> [] \<and> hd s \<in> set ''+-'' then tl s else s)
      in s \<noteq> [] \<and> isdigit (hd s))"

text \<open>The first argument is the build option \<^verbatim>\<open>QV_GPU_SUPPORT\<close>.\<close>

definition keep_os_device :: "bool \<Rightarrow> hwloc_obj \<Rightarrow> bool" where
  "keep_os_device gpu_support obj =
     (case o_osdev obj of
        HWLOC_OBJ_OSDEV_GPU \<Rightarrow> gpu_support
      | HWLOC_OBJ_OSDEV_COPROC \<Rightarrow> gpu_support \<and> obj_has_subtype obj ''LevelZero''
      | HWLOC_OBJ_OSDEV_OPENFABRICS \<Rightarrow> True
      | HWLOC_OBJ_OSDEV_NETWORK \<Rightarrow>
          if obj_has_subtype obj ''BXI'' then True
          else if obj_has_subtype obj ''Slingshot'' then sscanf_cxi (o_name obj)
          else False
      | HWLOC_OBJ_OSDEV_UNNAMED \<Rightarrow> False)"

definition get_obj_info_by_name :: "hwloc_lib \<Rightarrow> hwloc_obj \<Rightarrow> string \<Rightarrow> string" where
  "get_obj_info_by_name L obj name =
     (if name = [] then [] else case obj_get_info_by_name L obj name of None \<Rightarrow> [] | Some info \<Rightarrow> info)"

definition get_pci_obj :: "hwloc_obj \<Rightarrow> hwloc_obj option res" where
  "get_pci_obj dev =
     (if o_type dev = HWLOC_OBJ_PCI_DEVICE then Inr (Some dev)
      else case o_parent dev of
             None \<Rightarrow> Inl Undef
           | Some parent \<Rightarrow> if o_type parent = HWLOC_OBJ_PCI_DEVICE then Inr (Some parent) else Inr None)"

definition hex_digit :: "nat \<Rightarrow> char" where
  "hex_digit d = (if d < 10 then char_of (48 + d) else char_of (87 + d))"

fun hex_of_nat :: "nat \<Rightarrow> string" where
  "hex_of_nat n = (if n < 16 then [hex_digit n] else hex_of_nat (n div 16) @ [hex_digit (n mod 16)])"

declare hex_of_nat.simps [simp del]

definition hex_padded :: "nat \<Rightarrow> nat \<Rightarrow> string" where
  "hex_padded w n = replicate (w - length (hex_of_nat n)) (CHR ''0'') @ hex_of_nat n"

definition busid_string :: "nat \<times> nat \<times> nat \<times> nat \<Rightarrow> string" where
  "busid_string pci = (case pci of (domain, bus, dev, func) \<Rightarrow>
     hex_padded 4 domain @ '':'' @ hex_padded 2 bus @ '':'' @ hex_padded 2 dev @ ''.'' @ hex_padded 1 func)"

definition get_pci_info :: "hwloc_obj \<Rightarrow> (hwloc_obj \<times> string) option res" where
  "get_pci_info dev =
     rbind (get_pci_obj dev) (\<lambda>p. case p of
        None \<Rightarrow> Inr None
      | Some pcidev \<Rightarrow>
          (let busid = busid_string (o_pci pcidev)
           in if length busid \<ge> 32 then Inl (Rterror QV_ERR_INTERNAL) else Inr (Some (pcidev, busid))))"

text \<open>The walk up the parents to the package.\<close>

fun find_package :: "hwloc_obj option \<Rightarrow> hwloc_obj option" where
  "find_package None = None"
| "find_package (Some (Hwloc_obj t c i st n od pci p)) =
     (if t = HWLOC_OBJ_PACKAGE then Some (Hwloc_obj t c i st n od pci p) else find_package p)"

definition m_set_device_affinity_by_pci_bus_id ::
  "topology \<Rightarrow> string \<Rightarrow> qvi_hwloc_device \<Rightarrow> qvi_hwloc_device" where
  "m_set_device_affinity_by_pci_bus_id T busid dev =
     (case pcidev_by_busidstring T busid of
        None \<Rightarrow> dev\<lparr>affinity := allowed_cpuset T\<rparr>
      | Some pci_dev \<Rightarrow>
          (case find_package (non_io_ancestor_obj T pci_dev) of
             Some package \<Rightarrow> dev\<lparr>affinity := o_cpuset package\<rparr>
           | None \<Rightarrow> dev\<lparr>affinity := allowed_cpuset T\<rparr>))"

text \<open>The vendor is the first word; the delimiter is not empty, so the split returns.\<close>

definition first_word :: "string \<Rightarrow> string res" where
  "first_word s = (case qvi_split_string s '' '' of None \<Rightarrow> Inl StdExn | Some ws \<Rightarrow> vec_at ws 0)"

definition device_kind :: "hwloc_lib \<Rightarrow> hwloc_obj \<Rightarrow> (qv_hw_obj_type_t \<times> string) option res" where
  "device_kind L obj =
     (case o_osdev obj of
        HWLOC_OBJ_OSDEV_GPU \<Rightarrow>
          rbind (first_word (get_obj_info_by_name L obj ''GPUVendor'')) (\<lambda>vendor.
            Inr (Some (QV_HW_OBJ_GPU, vendor @ ''UUID'')))
      | HWLOC_OBJ_OSDEV_COPROC \<Rightarrow>
          Inr (Some (QV_HW_OBJ_GPU, if obj_has_subtype obj ''LevelZero'' then ''LevelZeroUUID'' else []))
      | HWLOC_OBJ_OSDEV_OPENFABRICS \<Rightarrow> Inr (Some (QV_HW_OBJ_NIC, ''NodeGUID''))
      | HWLOC_OBJ_OSDEV_NETWORK \<Rightarrow>
          Inr (Some (QV_HW_OBJ_NIC, if obj_has_subtype obj ''BXI'' then ''BXIUUID'' else ''Address''))
      | HWLOC_OBJ_OSDEV_UNNAMED \<Rightarrow> Inr None)"

definition m_set_device_info ::
  "hwloc_lib \<Rightarrow> topology \<Rightarrow> hwloc_obj \<Rightarrow> string \<Rightarrow> qvi_hwloc_device \<Rightarrow> qvi_hwloc_device res" where
  "m_set_device_info L T obj busid device =
     rbind (device_kind L obj) (\<lambda>kind. case kind of
        None \<Rightarrow> Inr device
      | Some (t, uuid_info_name) \<Rightarrow>
          rbind (get_dev_id_from_name (o_name obj)) (\<lambda>i.
            Inr (m_set_device_affinity_by_pci_bus_id T busid
              (device\<lparr>dev_type := t, dev_name := o_name obj, dev_id := i, pci_bus_id := busid,
                      uuid := get_obj_info_by_name L obj uuid_info_name\<rparr>))))"

text \<open>One round of the discovery loop on the map from PCI bus ids to devices.\<close>

definition discover_step ::
  "bool \<Rightarrow> hwloc_lib \<Rightarrow> topology \<Rightarrow> hwloc_obj \<Rightarrow> (string, qvi_hwloc_device) omap \<Rightarrow>
     (string, qvi_hwloc_device) omap res" where
  "discover_step gpu_support L T obj devmap =
     (if \<not> keep_os_device gpu_support obj then Inr devmap
      else rbind (get_pci_info obj) (\<lambda>info. case info of
             None \<Rightarrow> Inr devmap
           | Some (_, busid) \<Rightarrow>
               (let dev = om_ref qvi_hwloc_device_new busid devmap
                in rbind (m_set_device_info L T obj busid dev) (\<lambda>dev.
                     Inr (om_put busid dev devmap)))))"

definition add_to_devmap :: "qvi_hwloc_device \<Rightarrow> qvi_hwloc_dev_map \<Rightarrow> qvi_hwloc_dev_map" where
  "add_to_devmap dev m = om_upd [] (dev_type dev) (\<lambda>l. l @ [dev]) m"

definition sort_devlist :: "qvi_hwloc_dev_list \<Rightarrow> qvi_hwloc_dev_list" where
  "sort_devlist l = std_sort (\<lambda>a b. dev_id a < dev_id b) l"

definition m_discover_devices ::
  "bool \<Rightarrow> hwloc_lib \<Rightarrow> qvi_hwloc \<Rightarrow> qvi_hwloc res" where
  "m_discover_devices gpu_support L h =
     rbind (rfold (discover_step gpu_support L (m_topo h)) (osdevs (m_topo h)) []) (\<lambda>devmap.
       let dm = fold (\<lambda>(_, dev). add_to_devmap dev) devmap (m_devmap h)
       in Inr (h\<lparr>m_devmap := map (\<lambda>(t, l). (t, sort_devlist l)) dm\<rparr>))"

section \<open>Bitmaps\<close>

definition bitmap_string :: "hwloc_lib \<Rightarrow> bitmap \<Rightarrow> string res" where
  "bitmap_string L b =
     (case bitmap_asprintf L b of None \<Rightarrow> Inl (Rterror QV_ERR_OOR) | Some s \<Rightarrow> Inr s)"

definition bitmap_list_string :: "hwloc_lib \<Rightarrow> bitmap \<Rightarrow> string res" where
  "bitmap_list_string L b =
     (case bitmap_list_asprintf L b of None \<Rightarrow> Inl (Rterror QV_ERR_OOR) | Some s \<Rightarrow> Inr s)"

definition bitmap_sscanf :: "hwloc_lib \<Rightarrow> string \<Rightarrow> bitmap res" where
  "bitmap_sscanf L s = (case bitmap_scan L s of None \<Rightarrow> Inl (Rc QV_ERR_HWLOC) | Some b \<Rightarrow> Inr b)"

text \<open>\<^verbatim>\<open>qvi_hwloc_bitmap::operator|\<close>, \<^verbatim>\<open>op_or\<close>, \<^verbatim>\<open>save\<close> and \<^verbatim>\<open>load\<close>\<close>

definition bitmap_op_or2 :: "hwloc_lib \<Rightarrow> bitmap \<Rightarrow> bitmap \<Rightarrow> bitmap res" where
  "bitmap_op_or2 L a b =
     (case bitmap_or L a b of None \<Rightarrow> Inl (Rterror QV_ERR_HWLOC) | Some c \<Rightarrow> Inr c)"

definition op_or :: "hwloc_lib \<Rightarrow> bitmap list \<Rightarrow> bitmap res" where
  "op_or L bitmaps = rfold (\<lambda>b result. bitmap_op_or2 L result b) bitmaps {}"

definition bitmap_save :: "hwloc_lib \<Rightarrow> bitmap \<Rightarrow> string res" where
  "bitmap_save L b = bitmap_string L b"

definition bitmap_load :: "hwloc_lib \<Rightarrow> string \<Rightarrow> bitmap res" where
  "bitmap_load L s =
     (case bitmap_sscanf L s of Inl (Rc c) \<Rightarrow> Inl (Rterror c) | r \<Rightarrow> r)"

section \<open>Queries\<close>

definition obj_type_depth :: "qvi_hwloc \<Rightarrow> qv_hw_obj_type_t \<Rightarrow> int res" where
  "obj_type_depth h type = rbind (obj_get_type type) (\<lambda>t. Inr (get_type_depth (m_topo h) t))"

definition get_nobjs_by_type :: "qvi_hwloc \<Rightarrow> qv_hw_obj_type_t \<Rightarrow> int res" where
  "get_nobjs_by_type h target_type =
     rbind (obj_type_depth h target_type) (\<lambda>depth. Inr (nbobjs_by_depth (m_topo h) depth))"

definition m_get_nosdevs_in_cpuset :: "hwloc_lib \<Rightarrow> qvi_hwloc_dev_list \<Rightarrow> bitmap \<Rightarrow> nat" where
  "m_get_nosdevs_in_cpuset L devs cpuset =
     fold (\<lambda>dev nobjs. if bitmap_isincluded L (affinity dev) cpuset then nobjs + 1 else nobjs) devs 0"

definition m_get_nobjs_in_cpuset :: "hwloc_lib \<Rightarrow> qvi_hwloc \<Rightarrow> qv_hw_obj_type_t \<Rightarrow> bitmap \<Rightarrow> nat res" where
  "m_get_nobjs_in_cpuset L h target_obj cpuset =
     rbind (obj_type_depth h target_obj) (\<lambda>depth.
       Inr (fold (\<lambda>obj nobjs.
              if \<not> bitmap_isincluded L (o_cpuset obj) cpuset then nobjs
              else if bitmap_iszero L (o_cpuset obj) then nobjs
              else nobjs + 1) (objs_by_depth (m_topo h) depth) 0))"

definition get_nobjs_in_cpuset :: "hwloc_lib \<Rightarrow> qvi_hwloc \<Rightarrow> qv_hw_obj_type_t \<Rightarrow> bitmap \<Rightarrow> nat res" where
  "get_nobjs_in_cpuset L h target_obj cpuset =
     (if target_obj = QV_HW_OBJ_GPU \<or> target_obj = QV_HW_OBJ_NIC
      then Inr (m_get_nosdevs_in_cpuset L (cget_dev_list (m_devmap h) target_obj) cpuset)
      else m_get_nobjs_in_cpuset L h target_obj cpuset)"

definition get_obj_in_cpuset_by_depth :: "qvi_hwloc \<Rightarrow> bitmap \<Rightarrow> int \<Rightarrow> nat \<Rightarrow> hwloc_obj res" where
  "get_obj_in_cpuset_by_depth h cpuset depth idx =
     (case obj_inside_cpuset_by_depth (m_topo h) cpuset depth idx of
        None \<Rightarrow> Inl (Rc QV_ERR_HWLOC) | Some obj \<Rightarrow> Inr obj)"

definition get_devices_in_cpuset_from_dev_list :: "hwloc_lib \<Rightarrow> qvi_hwloc_dev_list \<Rightarrow> bitmap \<Rightarrow> qvi_hwloc_dev_list" where
  "get_devices_in_cpuset_from_dev_list L devlist cpuset =
     fold (\<lambda>dev devs. if \<not> bitmap_isincluded L (affinity dev) cpuset then devs else devs @ [dev]) devlist []"

definition get_devices_included_in_cpuset ::
  "hwloc_lib \<Rightarrow> qvi_hwloc \<Rightarrow> qv_hw_obj_type_t \<Rightarrow> bitmap \<Rightarrow> qvi_hwloc_dev_list" where
  "get_devices_included_in_cpuset L h obj_type cpuset =
     get_devices_in_cpuset_from_dev_list L (cget_dev_list (m_devmap h) obj_type) cpuset"

lemmas get_devices_included_in_cpuset_eq = get_devices_included_in_cpuset_def get_devices_in_cpuset_from_dev_list_def

datatype qv_device_id_type_t =
  QV_DEVICE_ID_UUID | QV_DEVICE_ID_PCI_BUS_ID | QV_DEVICE_ID_ORDINAL
| QV_DEVICE_ID_OTHER

text \<open>\<^verbatim>\<open>devs.at(i)\<close> converts a negative \<^verbatim>\<open>int\<close> to a huge index, which is out of range.\<close>

definition dev_at :: "qvi_hwloc_dev_list \<Rightarrow> int \<Rightarrow> qvi_hwloc_device res" where
  "dev_at devs i = (if i < 0 then Inl StdExn else vec_at devs (nat i))"

definition get_device_id_in_cpuset ::
  "hwloc_lib \<Rightarrow> qvi_hwloc \<Rightarrow> qv_hw_obj_type_t \<Rightarrow> int \<Rightarrow> bitmap \<Rightarrow> qv_device_id_type_t \<Rightarrow> string res" where
  "get_device_id_in_cpuset L h dev_obj i cpuset dev_id_type =
     (let devs = get_devices_included_in_cpuset L h dev_obj cpuset in
      case dev_id_type of
        QV_DEVICE_ID_UUID \<Rightarrow> rbind (dev_at devs i) (\<lambda>dev. Inr (uuid dev))
      | QV_DEVICE_ID_PCI_BUS_ID \<Rightarrow> rbind (dev_at devs i) (\<lambda>dev. Inr (pci_bus_id dev))
      | QV_DEVICE_ID_ORDINAL \<Rightarrow> rbind (dev_at devs i) (\<lambda>dev. Inr (std_to_string (dev_id dev)))
      | QV_DEVICE_ID_OTHER \<Rightarrow> Inl (Rc QV_ERR_INVLD_ARG))"

section \<open>Splitting\<close>

definition or_obj :: "hwloc_lib \<Rightarrow> qvi_hwloc \<Rightarrow> bitmap \<Rightarrow> int \<Rightarrow> nat \<Rightarrow> bitmap \<Rightarrow> bitmap res" where
  "or_obj L h bitmap depth i result =
     rbind (get_obj_in_cpuset_by_depth h bitmap depth i) (\<lambda>dobj.
       case bitmap_or L result (o_cpuset dobj) of
         None \<Rightarrow> Inl (Rc QV_ERR_HWLOC) | Some r \<Rightarrow> Inr r)"

text \<open>\<open>base\<close> and \<open>extent\<close> arrive as \<^verbatim>\<open>uint_t\<close>; their sum wraps.\<close>

definition m_split_cpuset_by_range ::
  "hwloc_lib \<Rightarrow> qvi_hwloc \<Rightarrow> bitmap \<Rightarrow> nat \<Rightarrow> nat \<Rightarrow> bitmap res" where
  "m_split_cpuset_by_range L h bitmap base extent =
     rbind (obj_type_depth h QV_HW_OBJ_PU) (\<lambda>pu_depth.
       rfold (or_obj L h bitmap pu_depth) [base..<wrap32 (base + extent)] {})"

definition bitmap_split_body ::
  "hwloc_lib \<Rightarrow> qvi_hwloc \<Rightarrow> bitmap \<Rightarrow> nat \<Rightarrow> nat \<Rightarrow> nat \<Rightarrow> nat \<times> bitmap list \<Rightarrow> (nat \<times> bitmap list) res" where
  "bitmap_split_body L h bitmap base_chunk_size remainder i st =
     (case st of (current_pos, result) \<Rightarrow>
        let current_chunk_size = base_chunk_size + (if i < remainder then 1 else 0)
        in rbind (m_split_cpuset_by_range L h bitmap (wrap32 current_pos) (wrap32 current_chunk_size)) (\<lambda>b.
             Inr (current_pos + current_chunk_size, result[i := b])))"

definition bitmap_split :: "hwloc_lib \<Rightarrow> qvi_hwloc \<Rightarrow> bitmap \<Rightarrow> nat \<Rightarrow> bitmap list res" where
  "bitmap_split L h bitmap npieces =
     rbind (m_get_nobjs_in_cpuset L h QV_HW_OBJ_PU bitmap) (\<lambda>npus.
       if npieces = 0 \<or> npus = 0 \<or> npieces > npus then Inr []
       else rbind (rfold (bitmap_split_body L h bitmap (npus div npieces) (npus mod npieces))
                     [0..<npieces] (0, replicate npieces {}))
              (\<lambda>(_, result). Inr result))"

definition get_cpuset_for_nobjs ::
  "hwloc_lib \<Rightarrow> qvi_hwloc \<Rightarrow> bitmap \<Rightarrow> qv_hw_obj_type_t \<Rightarrow> nat \<Rightarrow> bitmap res" where
  "get_cpuset_for_nobjs L h cpuset obj_type nobjs =
     rbind (obj_type_depth h obj_type) (\<lambda>obj_depth.
       rfold (or_obj L h cpuset obj_depth) [0..<nobjs] {})"

section \<open>Binding strings\<close>

definition QV_BIND_STRING_LOGICAL :: int where
  "QV_BIND_STRING_LOGICAL = 1"

definition QV_BIND_STRING_PHYSICAL :: int where
  "QV_BIND_STRING_PHYSICAL = 2"

definition m_get_logical_bind_string :: "hwloc_lib \<Rightarrow> qvi_hwloc \<Rightarrow> bitmap \<Rightarrow> string res" where
  "m_get_logical_bind_string L h bitmap =
     (let num_pus = nat (nbobjs_inside_cpuset_by_type (m_topo h) bitmap HWLOC_OBJ_PU)
      in rbind (rfold (\<lambda>i logical_bitmap.
                  rbind (vec_ix (objs_inside_cpuset_by_type (m_topo h) bitmap HWLOC_OBJ_PU) i) (\<lambda>obj_pu.
                    Inr (insert (o_logical_index obj_pu) logical_bitmap))) [0..<num_pus] {}) (\<lambda>logical_bitmap.
           rbind (bitmap_list_string L logical_bitmap) (\<lambda>s. Inr (''L'' @ s))))"

definition m_get_physical_bind_string :: "hwloc_lib \<Rightarrow> bitmap \<Rightarrow> string res" where
  "m_get_physical_bind_string L bitmap = rbind (bitmap_list_string L bitmap) (\<lambda>s. Inr (''P'' @ s))"

definition bind_string :: "hwloc_lib \<Rightarrow> qvi_hwloc \<Rightarrow> bitmap \<Rightarrow> int \<Rightarrow> string res" where
  "bind_string L h bitmap flags =
     rbind (if flag_set flags QV_BIND_STRING_LOGICAL then m_get_logical_bind_string L h bitmap
            else Inr []) (\<lambda>iresult.
     rbind (if flag_set flags QV_BIND_STRING_PHYSICAL
            then rbind (m_get_physical_bind_string L bitmap) (\<lambda>presult.
                   Inr ((if iresult \<noteq> [] then iresult @ '' ; '' else iresult) @ presult))
            else Inr iresult) (\<lambda>iresult.
     if iresult = [] then Inl (Rc QV_ERR_INVLD_ARG) else Inr iresult))"

section \<open>Loading a topology\<close>

definition m_disable_smt :: "hwloc_lib \<Rightarrow> qvi_hwloc \<Rightarrow> qvi_hwloc res" where
  "m_disable_smt L h =
     (let T = m_topo h;
          orig_bitmap = topology_cpuset T;
          ncores = nat (nbobjs_inside_cpuset_by_type T orig_bitmap HWLOC_OBJ_CORE)
      in rbind (rfold (\<lambda>i nosmt_bitmap.
                  rbind (vec_ix (objs_inside_cpuset_by_type T orig_bitmap HWLOC_OBJ_CORE) i) (\<lambda>obj.
                    Inr (case bitmap_or L nosmt_bitmap (bitmap_singlify L (o_cpuset obj)) of
                           None \<Rightarrow> nosmt_bitmap | Some r \<Rightarrow> r))) [0..<ncores] {}) (\<lambda>nosmt_bitmap.
           case lib_restrict L T nosmt_bitmap of
             None \<Rightarrow> Inl (Rc QV_ERR_HWLOC)
           | Some T' \<Rightarrow> Inr (h\<lparr>m_topo := T'\<rparr>)))"

definition or_hwloc_err :: "'a option \<Rightarrow> 'a res" where
  "or_hwloc_err x = (case x of None \<Rightarrow> Inl (Rc QV_ERR_HWLOC) | Some y \<Rightarrow> Inr y)"

definition m_topo_set_from_xml :: "hwloc_lib \<Rightarrow> string \<Rightarrow> qvi_hwloc \<Rightarrow> qvi_hwloc res" where
  "m_topo_set_from_xml L path h =
     rbind (or_hwloc_err (lib_set_xml L (m_topo h) path)) (\<lambda>T.
       Inr (h\<lparr>m_flags := or (m_flags h) QVI_HWLOC_FLAG_TOPO_XML, m_topo := T\<rparr>))"

definition topology_init :: "hwloc_lib \<Rightarrow> int \<Rightarrow> string \<Rightarrow> qvi_hwloc \<Rightarrow> qvi_hwloc res" where
  "topology_init L flags xml_path h =
     rbind (or_hwloc_err (lib_topology_init L)) (\<lambda>T.
       let h = h\<lparr>m_flags := flags, m_topo := T\<rparr>
       in if xml_path \<noteq> [] then m_topo_set_from_xml L xml_path h else Inr h)"

definition topology_load :: "bool \<Rightarrow> hwloc_lib \<Rightarrow> qvi_hwloc \<Rightarrow> qvi_hwloc res" where
  "topology_load gpu_support L h =
     rbind (or_hwloc_err (lib_set_flags L (m_topo h))) (\<lambda>T.
     rbind (or_hwloc_err (lib_set_all_types_filter L T)) (\<lambda>T.
     rbind (or_hwloc_err (lib_set_type_filter L T)) (\<lambda>T.
     rbind (or_hwloc_err (lib_load L T)) (\<lambda>T.
     let h = h\<lparr>m_topo := T\<rparr> in
     rbind (if flag_set (m_flags h) QVI_HWLOC_FLAG_TOPO_NO_SMT \<and> \<not> flag_set (m_flags h) QVI_HWLOC_FLAG_TOPO_XML
            then m_disable_smt L h else Inr h) (\<lambda>h.
     m_discover_devices gpu_support L h)))))"

text \<open>The instances kept by \<^verbatim>\<open>qvi_hwlocs\<close>, by topology type, and their selection.\<close>

definition topo_types :: "int list" where
  "topo_types = [QVI_HWLOC_FLAG_TOPO_FULL, QVI_HWLOC_FLAG_TOPO_NO_SMT]"

type_synonym qvi_hwlocs = "(int, qvi_hwloc) omap"

definition qvi_hwlocs_new :: "qvi_hwloc \<Rightarrow> qvi_hwlocs" where
  "qvi_hwlocs_new h0 = fold (\<lambda>t. om_insert t h0) topo_types []"

definition qvi_hwlocs_get :: "qvi_hwlocs \<Rightarrow> int \<Rightarrow> qvi_hwloc res" where
  "qvi_hwlocs_get hs flags =
     (case map_of hs (and flags QVI_HWLOC_TOPO_MASK) of None \<Rightarrow> Inl Abort | Some h \<Rightarrow> Inr h)"

text \<open>The accessors of the two CPU sets of a topology.\<close>

definition topology_get_cpuset :: "qvi_hwloc \<Rightarrow> bitmap" where
  "topology_get_cpuset h = allowed_cpuset (m_topo h)"

definition topology_get_disallowed_cpuset :: "qvi_hwloc \<Rightarrow> bitmap" where
  "topology_get_disallowed_cpuset h = topology_cpuset (m_topo h)"

text \<open>
  Publishing a topology as an XML file. The record holds what the operating system and hwloc answer:
  whether the directory is usable, the length of the exported XML text (\<open>None\<close>: the export fails),
  whether opening the file and changing its mode succeed, and the number of bytes written.
\<close>

record export_io =
  dir_usable :: bool
  xml_length :: "nat option"
  open_works :: bool
  fchmod_works :: bool
  bytes_written :: int

definition s_topo_fopen :: "export_io \<Rightarrow> unit res" where
  "s_topo_fopen io =
     (if \<not> open_works io then Inl (Rc QV_ERR_FILE_IO)
      else if \<not> fchmod_works io then Inl (Rc QV_ERR_FILE_IO)
      else Inr ())"

definition topo_fname :: "int \<Rightarrow> string \<Rightarrow> int \<Rightarrow> string" where
  "topo_fname pid base flags = base @ ''/hwtopo.'' @ std_to_string pid @ ''-'' @ std_to_string flags @ ''.xml''"

text \<open>The file name is stored before the file is opened, so it is part of the state on every later branch.\<close>

definition topology_export :: "int \<Rightarrow> export_io \<Rightarrow> string \<Rightarrow> qvi_hwloc \<Rightarrow> qv_rc \<times> qvi_hwloc" where
  "topology_export pid io base_path h =
     (if \<not> dir_usable io then (QV_ERR, h)
      else case xml_length io of
             None \<Rightarrow> (QV_ERR_HWLOC, h)
           | Some topo_xml_len \<Rightarrow>
               let h' = h\<lparr>m_topo_file := topo_fname pid base_path (m_flags h)\<rparr>
               in case s_topo_fopen io of
                    Inl (Rc c) \<Rightarrow> (c, h')
                  | Inl f \<Rightarrow> (QV_ERR, h')
                  | Inr u \<Rightarrow> (if bytes_written io \<noteq> int topo_xml_len then QV_ERR_FILE_IO else QV_SUCCESS, h'))"

text \<open>
  The destructors: the files that are unlinked. A topology that was read from a file leaves the file to the one that
  has written it. (The object that hwloc allocated is a value of the model, and its release is not recorded.)
\<close>

definition qvi_hwloc_delete :: "qvi_hwloc \<Rightarrow> string list" where
  "qvi_hwloc_delete h = (if \<not> flag_set (m_flags h) QVI_HWLOC_FLAG_TOPO_XML then [m_topo_file h] else [])"

definition qvi_hwlocs_delete :: "qvi_hwlocs \<Rightarrow> string list" where
  "qvi_hwlocs_delete hs = concat (map (\<lambda>(topo_type, h). qvi_hwloc_delete h) hs)"

lemma topology_load_flags: "topology_load gpu L h = Inr h' \<Longrightarrow> m_flags h' = m_flags h"
  by (auto simp: topology_load_def m_disable_smt_def m_discover_devices_def Let_def rbind_Inr_iff split: if_splits option.splits)

lemma topology_init_flags:
  "topology_init L fl path h = Inr h' \<Longrightarrow> m_flags h' = (if path = [] then fl else or fl QVI_HWLOC_FLAG_TOPO_XML)"
  by (cases "path = []") (auto simp: topology_init_def m_topo_set_from_xml_def Let_def rbind_Inr_iff)

section \<open>Task affinity queries\<close>

text \<open>The operating system's current bindings, by task id (\<open>None\<close>: the query fails).\<close>

type_synonym cpubinds = "int \<Rightarrow> bitmap option"

definition task_get_cpubind :: "cpubinds \<Rightarrow> int \<Rightarrow> bitmap res" where
  "task_get_cpubind binds who =
     (case binds who of None \<Rightarrow> Inl (Rc QV_ERR_HWLOC) | Some b \<Rightarrow> Inr b)"

text \<open>
  \<open>sched who cpuset binds\<close> is what \<^verbatim>\<open>hwloc_set_proc_cpubind\<close> does to the bindings
  (\<open>None\<close>: it fails).
\<close>

type_synonym scheduler = "int \<Rightarrow> bitmap \<Rightarrow> cpubinds \<Rightarrow> cpubinds option"

definition task_set_cpubind_from_cpuset :: "scheduler \<Rightarrow> int \<Rightarrow> bitmap \<Rightarrow> cpubinds \<Rightarrow> cpubinds res" where
  "task_set_cpubind_from_cpuset sched task_id cpuset binds =
     (case sched task_id cpuset binds of None \<Rightarrow> Inl (Rc QV_ERR_NOT_SUPPORTED) | Some binds' \<Rightarrow> Inr binds')"

datatype task_xop_obj_id = TASK_INTERSECTS_OBJ | TASK_INCLUDEDIN_OBJ

text \<open>The index is converted to \<^verbatim>\<open>unsigned\<close>.\<close>

definition m_obj_get_by_type :: "qvi_hwloc \<Rightarrow> qv_hw_obj_type_t \<Rightarrow> int \<Rightarrow> hwloc_obj res" where
  "m_obj_get_by_type h type type_index =
     rbind (obj_get_type type) (\<lambda>t.
       case obj_by_type (m_topo h) t (nat (type_index mod 2 ^ 32)) of
         None \<Rightarrow> Inl (Rc QV_ERR_HWLOC) | Some obj \<Rightarrow> Inr obj)"

definition m_task_obj_xop_by_type_id ::
  "hwloc_lib \<Rightarrow> qvi_hwloc \<Rightarrow> cpubinds \<Rightarrow> qv_hw_obj_type_t \<Rightarrow> int \<Rightarrow> int \<Rightarrow> task_xop_obj_id \<Rightarrow> bool res" where
  "m_task_obj_xop_by_type_id L h binds type task_id type_index opid =
     rbind (m_obj_get_by_type h type type_index) (\<lambda>obj.
     rbind (task_get_cpubind binds task_id) (\<lambda>cur_bind.
       case opid of
         TASK_INTERSECTS_OBJ \<Rightarrow> Inr (bitmap_intersects L cur_bind (o_cpuset obj))
       | TASK_INCLUDEDIN_OBJ \<Rightarrow> Inr (bitmap_isincluded L cur_bind (o_cpuset obj))))"

definition task_intersects_obj_by_type_id ::
  "hwloc_lib \<Rightarrow> qvi_hwloc \<Rightarrow> cpubinds \<Rightarrow> qv_hw_obj_type_t \<Rightarrow> int \<Rightarrow> int \<Rightarrow> bool res" where
  "task_intersects_obj_by_type_id L h binds type task_id type_index =
     m_task_obj_xop_by_type_id L h binds type task_id type_index TASK_INTERSECTS_OBJ"

definition task_includedin_obj_by_type_id ::
  "hwloc_lib \<Rightarrow> qvi_hwloc \<Rightarrow> cpubinds \<Rightarrow> qv_hw_obj_type_t \<Rightarrow> int \<Rightarrow> int \<Rightarrow> bool res" where
  "task_includedin_obj_by_type_id L h binds type task_id type_index =
     m_task_obj_xop_by_type_id L h binds type task_id type_index TASK_INCLUDEDIN_OBJ"

section \<open>What is assumed of hwloc\<close>

definition bitmap_laws :: "hwloc_lib \<Rightarrow> bool" where
  "bitmap_laws L \<longleftrightarrow>
     (\<forall>a b. bitmap_or L a b = Some (a \<union> b)) \<and>
     (\<forall>a b. bitmap_isincluded L a b \<longleftrightarrow> a \<subseteq> b) \<and>
     (\<forall>a b. bitmap_intersects L a b \<longleftrightarrow> a \<inter> b \<noteq> {}) \<and>
     (\<forall>a. bitmap_iszero L a \<longleftrightarrow> a = {})"

text \<open>The objects at a depth that lie inside a set, as the documentation of
  \<^verbatim>\<open>hwloc_get_obj_inside_cpuset_by_depth\<close> counts them.\<close>

definition objs_inside :: "topology \<Rightarrow> bitmap \<Rightarrow> int \<Rightarrow> hwloc_obj list" where
  "objs_inside T cpuset depth =
     filter (\<lambda>obj. o_cpuset obj \<subseteq> cpuset \<and> o_cpuset obj \<noteq> {}) (objs_by_depth T depth)"

definition topology_laws :: "topology \<Rightarrow> bool" where
  "topology_laws T \<longleftrightarrow>
     (\<forall>c d i. obj_inside_cpuset_by_depth T c d i =
        (if i < length (objs_inside T c d) then Some (objs_inside T c d ! i) else None)) \<and>
     (let pus = objs_by_depth T (get_type_depth T HWLOC_OBJ_PU)
      in \<forall>i < length pus. \<forall>j < length pus. i \<noteq> j \<longrightarrow> o_cpuset (pus ! i) \<inter> o_cpuset (pus ! j) = {})"

abbreviation pus_inside :: "qvi_hwloc \<Rightarrow> bitmap \<Rightarrow> hwloc_obj list" where
  "pus_inside h b \<equiv> objs_inside (m_topo h) b (get_type_depth (m_topo h) HWLOC_OBJ_PU)"

section \<open>Lemmas\<close>

lemmas bitmap_lawsD =
  bitmap_laws_def [THEN iffD1, THEN conjunct1, rule_format]
  bitmap_laws_def [THEN iffD1, THEN conjunct2, THEN conjunct1, rule_format]
  bitmap_laws_def [THEN iffD1, THEN conjunct2, THEN conjunct2, THEN conjunct1, rule_format]
  bitmap_laws_def [THEN iffD1, THEN conjunct2, THEN conjunct2, THEN conjunct2, rule_format]

lemma count_fold: "fold (\<lambda>x n. if \<not> P x then n else if Q x then n else n + 1) xs (c::nat) =
    c + length (filter (\<lambda>x. P x \<and> \<not> Q x) xs)"
  by (induction xs arbitrary: c) auto

lemma m_get_nobjs_in_cpuset_eq:
  assumes "bitmap_laws L" "obj_get_type t = Inr ht"
  shows "m_get_nobjs_in_cpuset L h t b = Inr (length (objs_inside (m_topo h) b (get_type_depth (m_topo h) ht)))"
  using assms
  by (simp add: m_get_nobjs_in_cpuset_def obj_type_depth_def count_fold bitmap_lawsD objs_inside_def)

lemma or_obj_eq:
  assumes "bitmap_laws L" "topology_laws (m_topo h)"
  shows "or_obj L h b d i r =
    (if i < length (objs_inside (m_topo h) b d) then Inr (r \<union> o_cpuset (objs_inside (m_topo h) b d ! i))
     else Inl (Rc QV_ERR_HWLOC))"
  using assms by (simp add: or_obj_def get_obj_in_cpuset_by_depth_def topology_laws_def bitmap_lawsD)

lemma rfold_or_obj:
  assumes laws: "bitmap_laws L" "topology_laws (m_topo h)" and j: "j \<le> length (objs_inside (m_topo h) b d)"
  shows "rfold (or_obj L h b d) [i..<j] r =
    Inr (r \<union> (\<Union>obj \<in> set (take (j - i) (drop i (objs_inside (m_topo h) b d))). o_cpuset obj))"
  using j
proof (induction "j - i" arbitrary: i r)
  case (Suc n)
  then have ij: "i < j" by simp
  let ?os = "objs_inside (m_topo h) b d"
  have "take (j - i) (drop i ?os) = ?os ! i # take (j - Suc i) (drop (Suc i) ?os)"
    using ij Suc.prems by (metis Cons_nth_drop_Suc Suc_diff_Suc less_le_trans take_Suc_Cons)
  moreover have "n = j - Suc i" using Suc.hyps(2) by simp
  ultimately show ?case
    using Suc.hyps(1) [of "Suc i"] ij Suc.prems by (simp add: upt_conv_Cons or_obj_eq [OF laws] Un_assoc)
qed simp

lemma rfold_or_obj_fail:
  assumes laws: "bitmap_laws L" "topology_laws (m_topo h)" and j: "length (objs_inside (m_topo h) b d) < j"
  shows "rfold (or_obj L h b d) [0..<j] r = Inl (Rc QV_ERR_HWLOC)"
proof -
  let ?n = "length (objs_inside (m_topo h) b d)"
  have "[0..<j] = [0..<?n] @ ?n # [Suc ?n..<j]"
    using j by (metis le_add_same_cancel1 less_imp_le_nat upt_add_eq_append upt_conv_Cons zero_le le_add_diff_inverse)
  then show ?thesis
    by (simp only: rfold_append rfold_or_obj [OF laws order_refl] rbind.simps rfold.simps or_obj_eq [OF laws]) simp
qed

text \<open>The pieces of the split: consecutive runs of the processing units in the bitmap.\<close>

definition split_piece :: "qvi_hwloc \<Rightarrow> bitmap \<Rightarrow> nat \<Rightarrow> nat \<Rightarrow> bitmap" where
  "split_piece h b k i =
     (let pus = pus_inside h b; n = length pus
      in \<Union>obj \<in> set (take (chunk_size n k i) (drop (chunk_start n k i) pus)). o_cpuset obj)"

lemma m_split_cpuset_by_range_eq:
  assumes laws: "bitmap_laws L" "topology_laws (m_topo h)"
    and "base + extent \<le> length (pus_inside h b)" "length (pus_inside h b) < 2 ^ 32"
  shows "m_split_cpuset_by_range L h b base extent =
    Inr (\<Union>obj \<in> set (take extent (drop base (pus_inside h b))). o_cpuset obj)"
  using assms by (simp add: m_split_cpuset_by_range_def obj_type_depth_def rfold_or_obj [OF laws])

lemma bitmap_split_loop:
  assumes laws: "bitmap_laws L" "topology_laws (m_topo h)"
    and n: "n = length (pus_inside h b)" "n < 2 ^ 32" and k: "0 < k" "j \<le> k"
  shows "rfold (bitmap_split_body L h b (n div k) (n mod k)) [0..<j] (0, replicate k {}) =
    Inr (chunk_start n k j, map (split_piece h b k) [0..<j] @ replicate (k - j) {})"
  using k(2)
proof (induction j)
  case (Suc j)
  have le: "chunk_start n k j + chunk_size n k j \<le> n"
    using chunk_start_le [of k "Suc j" n] Suc.prems k(1) by (simp add: chunk_start_Suc)
  have r: "m_split_cpuset_by_range L h b (chunk_start n k j) (chunk_size n k j) = Inr (split_piece h b k j)"
    using m_split_cpuset_by_range_eq [OF laws] le n by (simp add: split_piece_def Let_def)
  have u: "(map (split_piece h b k) [0..<j] @ replicate (k - j) {})[j := split_piece h b k j] =
     map (split_piece h b k) [0..<Suc j] @ replicate (k - Suc j) {}"
    using Suc.prems by (simp add: list_update_append Suc_diff_Suc [symmetric])
  show ?case
    using Suc le n r u
    by (simp add: rfold_append bitmap_split_body_def chunk_start_Suc flip: chunk_size_def)
qed simp

lemma bitmap_split_eq:
  assumes laws: "bitmap_laws L" "topology_laws (m_topo h)"
    and n: "length (pus_inside h b) < 2 ^ 32"
  shows "bitmap_split L h b k =
    Inr (if 0 < k \<and> k \<le> length (pus_inside h b) then map (split_piece h b k) [0..<k] else [])"
  using bitmap_split_loop [OF laws refl n, of k k] m_get_nobjs_in_cpuset_eq [OF laws(1), of QV_HW_OBJ_PU]
  by (auto simp: bitmap_split_def)

lemma pus_inside_disjoint:
  assumes "topology_laws (m_topo h)" "i < length (pus_inside h b)" "j < length (pus_inside h b)" "i \<noteq> j"
  shows "o_cpuset (pus_inside h b ! i) \<inter> o_cpuset (pus_inside h b ! j) = {}"
proof -
  let ?pus = "objs_by_depth (m_topo h) (get_type_depth (m_topo h) HWLOC_OBJ_PU)"
  have dj: "\<forall>i < length ?pus. \<forall>j < length ?pus. i \<noteq> j \<longrightarrow> o_cpuset (?pus ! i) \<inter> o_cpuset (?pus ! j) = {}"
    using assms(1) by (simp add: topology_laws_def Let_def)
  have "\<forall>i < length (filter P xs). \<forall>j < length (filter P xs). i \<noteq> j \<longrightarrow> f (filter P xs ! i) \<inter> f (filter P xs ! j) = {}"
    if "\<forall>i < length xs. \<forall>j < length xs. i \<noteq> j \<longrightarrow> f (xs ! i) \<inter> f (xs ! j) = {}" for f :: "hwloc_obj \<Rightarrow> nat set" and P xs
    using that
  proof (induction xs)
    case (Cons x xs)
    have x: "f x \<inter> f y = {}" if "y \<in> set xs" for y
      using Cons.prems that by (metis Suc_less_eq in_set_conv_nth length_Cons nth_Cons_0 nth_Cons_Suc old.nat.distinct(1) zero_less_Suc)
    have xs: "\<forall>i < length xs. \<forall>j < length xs. i \<noteq> j \<longrightarrow> f (xs ! i) \<inter> f (xs ! j) = {}"
      using Cons.prems by (metis Suc_less_eq length_Cons nat.inject nth_Cons_Suc)
    have y: "filter P xs ! i \<in> set xs" if "i < length (filter P xs)" for i
      using that by (metis filter_is_subset nth_mem subsetD)
    show ?case
      using Cons.IH [OF xs] x y by (auto simp: nth_Cons Int_commute split: nat.splits)
  qed simp
  from this [OF dj] show ?thesis using assms unfolding objs_inside_def by blast
qed

lemma split_piece_pus:
  assumes "0 < k" "i < k" "n = length (pus_inside h b)"
  shows "x \<in> split_piece h b k i \<longleftrightarrow>
    (\<exists>p < n. chunk_start n k i \<le> p \<and> p < chunk_start n k (Suc i) \<and> x \<in> o_cpuset (pus_inside h b ! p))"
proof -
  have "chunk_start n k (Suc i) \<le> n" using assms by (intro chunk_start_le) auto
  then have le: "chunk_start n k i + chunk_size n k i \<le> n" by (simp add: chunk_start_Suc)
  have "set (take (chunk_size n k i) (drop (chunk_start n k i) (pus_inside h b))) =
     {pus_inside h b ! p |p. chunk_start n k i \<le> p \<and> p < chunk_start n k (Suc i)}"
  proof (intro set_eqI iffI)
    fix y assume "y \<in> set (take (chunk_size n k i) (drop (chunk_start n k i) (pus_inside h b)))"
    then obtain q where "q < chunk_size n k i" "y = pus_inside h b ! (chunk_start n k i + q)"
      using le assms(3) by (auto simp: in_set_conv_nth)
    then show "y \<in> {pus_inside h b ! p |p. chunk_start n k i \<le> p \<and> p < chunk_start n k (Suc i)}"
      by (intro CollectI exI [of _ "chunk_start n k i + q"]) (simp add: chunk_start_Suc)
  next
    fix y assume "y \<in> {pus_inside h b ! p |p. chunk_start n k i \<le> p \<and> p < chunk_start n k (Suc i)}"
    then obtain p where p: "y = pus_inside h b ! p" "chunk_start n k i \<le> p" "p < chunk_start n k i + chunk_size n k i"
      by (auto simp: chunk_start_Suc)
    then show "y \<in> set (take (chunk_size n k i) (drop (chunk_start n k i) (pus_inside h b)))"
      using le assms(3) by (auto simp: in_set_conv_nth intro!: exI [of _ "p - chunk_start n k i"])
  qed
  then show ?thesis
    using le assms(3) by (auto simp: split_piece_def Let_def chunk_start_Suc intro: less_le_trans)
qed

lemma split_piece_disjoint:
  assumes "topology_laws (m_topo h)" "0 < k" "i < k" "j < k" "i \<noteq> j"
  shows "split_piece h b k i \<inter> split_piece h b k j = {}"
proof (rule ccontr)
  let ?n = "length (pus_inside h b)"
  assume "split_piece h b k i \<inter> split_piece h b k j \<noteq> {}"
  then obtain x where x: "x \<in> split_piece h b k i" "x \<in> split_piece h b k j" by blast
  obtain p where p: "p < ?n" "chunk_start ?n k i \<le> p" "p < chunk_start ?n k (Suc i)" "x \<in> o_cpuset (pus_inside h b ! p)"
    using x(1) split_piece_pus [OF assms(2,3) refl] by blast
  obtain q where q: "q < ?n" "chunk_start ?n k j \<le> q" "q < chunk_start ?n k (Suc j)" "x \<in> o_cpuset (pus_inside h b ! q)"
    using x(2) split_piece_pus [OF assms(2,4) refl] by blast
  have "p \<noteq> q" using p q assms(5) chunk_position_unique by blast
  with pus_inside_disjoint [OF assms(1) p(1) q(1)] p(4) q(4) show False by blast
qed

lemma split_piece_cover:
  assumes "0 < k"
  shows "(\<Union>i < k. split_piece h b k i) = (\<Union>obj \<in> set (pus_inside h b). o_cpuset obj)"
proof (intro set_eqI iffI)
  let ?n = "length (pus_inside h b)"
  fix x assume "x \<in> (\<Union>i < k. split_piece h b k i)"
  then obtain i where "i < k" "x \<in> split_piece h b k i" by blast
  then obtain p where "p < ?n" "x \<in> o_cpuset (pus_inside h b ! p)"
    using split_piece_pus [OF assms _ refl] by blast
  then show "x \<in> (\<Union>obj \<in> set (pus_inside h b). o_cpuset obj)" by (meson UN_I nth_mem)
next
  let ?n = "length (pus_inside h b)"
  fix x assume "x \<in> (\<Union>obj \<in> set (pus_inside h b). o_cpuset obj)"
  then obtain p where p: "p < ?n" "x \<in> o_cpuset (pus_inside h b ! p)" by (auto simp: in_set_conv_nth)
  obtain i where i: "i < k" "chunk_start ?n k i \<le> p" "p < chunk_start ?n k (Suc i)"
    using chunk_of_position [OF assms p(1)] by blast
  then have "x \<in> split_piece h b k i" unfolding split_piece_pus [OF assms i(1) refl] using p by blast
  with i(1) show "x \<in> (\<Union>i < k. split_piece h b k i)" by blast
qed

lemma pus_inside_nonempty: "obj \<in> set (pus_inside h b) \<Longrightarrow> o_cpuset obj \<subseteq> b \<and> o_cpuset obj \<noteq> {}"
  by (simp add: objs_inside_def)

lemma split_piece_nonempty:
  assumes "0 < k" "k \<le> length (pus_inside h b)" "i < k"
  shows "split_piece h b k i \<noteq> {} \<and> split_piece h b k i \<subseteq> b"
proof
  let ?n = "length (pus_inside h b)"
  have "chunk_start ?n k i < chunk_start ?n k (Suc i)"
    using chunk_size_pos [OF assms(1,2)] by (simp add: chunk_start_Suc)
  moreover have "chunk_start ?n k (Suc i) \<le> ?n" using assms by (intro chunk_start_le) auto
  ultimately have lt: "chunk_start ?n k i < ?n" by linarith
  then obtain x where "x \<in> o_cpuset (pus_inside h b ! chunk_start ?n k i)"
    using pus_inside_nonempty by (metis all_not_in_conv nth_mem)
  then show "split_piece h b k i \<noteq> {}"
    using split_piece_pus [OF assms(1,3) refl] lt \<open>chunk_start ?n k i < chunk_start ?n k (Suc i)\<close> by blast
  show "split_piece h b k i \<subseteq> b"
  proof
    fix x assume "x \<in> split_piece h b k i"
    then obtain p where "p < ?n" "x \<in> o_cpuset (pus_inside h b ! p)"
      using split_piece_pus [OF assms(1,3) refl] by blast
    then show "x \<in> b" using pus_inside_nonempty [OF nth_mem] by blast
  qed
qed

section \<open>A concrete machine\<close>

text \<open>An instance of the library interface and of a machine with \<open>n\<close> processing units and two packages,
  used to show that the assumptions can hold.\<close>

definition demo_lib :: hwloc_lib where
  "demo_lib =
     \<lparr>bitmap_or = (\<lambda>a b. Some (a \<union> b)), bitmap_isincluded = (\<subseteq>), bitmap_intersects = (\<lambda>a b. a \<inter> b \<noteq> {}),
      bitmap_iszero = (\<lambda>a. a = {}), bitmap_singlify = (\<lambda>a. a), bitmap_asprintf = (\<lambda>a. None),
      bitmap_list_asprintf = (\<lambda>a. None), bitmap_scan = (\<lambda>s. None), obj_get_info_by_name = (\<lambda>obj n. None),
      lib_topology_init = None, lib_set_xml = (\<lambda>T p. None), lib_set_flags = Some,
      lib_set_all_types_filter = Some, lib_set_type_filter = Some, lib_load = Some, lib_restrict = (\<lambda>T b. Some T)\<rparr>"

definition demo_pu :: "nat \<Rightarrow> hwloc_obj" where
  "demo_pu i = Hwloc_obj HWLOC_OBJ_PU {i} i None [] HWLOC_OBJ_OSDEV_UNNAMED (0, 0, 0, 0) None"

definition demo_objs :: "nat \<Rightarrow> int \<Rightarrow> hwloc_obj list" where
  "demo_objs n depth = (if depth = 1 then map demo_pu [0..<n] else [])"

definition demo_topology :: "nat \<Rightarrow> topology" where
  "demo_topology n =
     (let inside = (\<lambda>c d. filter (\<lambda>obj. o_cpuset obj \<subseteq> c \<and> o_cpuset obj \<noteq> {}) (demo_objs n d)) in
     \<lparr>get_type_depth = (\<lambda>t. if t = HWLOC_OBJ_PU then 1 else 0), objs_by_depth = demo_objs n,
      nbobjs_by_depth = (\<lambda>d. int (length (demo_objs n d))),
      obj_inside_cpuset_by_depth = (\<lambda>c d i. if i < length (inside c d) then Some (inside c d ! i) else None),
      nbobjs_inside_cpuset_by_type = (\<lambda>c t. 0), objs_inside_cpuset_by_type = (\<lambda>c t. []),
      obj_by_type = (\<lambda>t i. None), osdevs = [], pcidev_by_busidstring = (\<lambda>s. None),
      non_io_ancestor_obj = (\<lambda>obj. None), allowed_cpuset = {0..<n}, topology_cpuset = {0..<n}\<rparr>)"

definition demo_hwloc :: "nat \<Rightarrow> qvi_hwloc" where
  "demo_hwloc n = \<lparr>m_flags = 1, m_topo = demo_topology n, m_topo_file = [], m_devmap = []\<rparr>"

lemma demo_bitmap_laws: "bitmap_laws demo_lib"
  by (simp add: bitmap_laws_def demo_lib_def)

lemma demo_topology_laws: "topology_laws (m_topo (demo_hwloc n))"
  by (simp add: topology_laws_def demo_hwloc_def demo_topology_def demo_objs_def demo_pu_def objs_inside_def Let_def)

lemma demo_pus: "pus_inside (demo_hwloc n) {0..<m} = map demo_pu [0..<min m n]"
proof -
  have "filter (\<lambda>i. i < m) [0..<n] = [0..<min m n]"
    by (rule os_eqI) auto
  then show ?thesis
    by (simp add: objs_inside_def demo_hwloc_def demo_topology_def demo_objs_def Let_def filter_map comp_def demo_pu_def)
qed

section \<open>Properties\<close>

text \<open>C11: \<^verbatim>\<open>bitmap_split\<close> cuts the processing units of a bitmap into the requested number of
  pieces: the pieces are not empty, lie inside the bitmap, are pairwise disjoint, together hold exactly
  the units of the bitmap, and each is the union of a run of \<open>npus div k\<close> or \<open>npus div k + 1\<close> units.\<close>

theorem bitmap_split_partition:
  assumes "bitmap_laws L" "topology_laws (m_topo h)" "length (pus_inside h b) < 2 ^ 32"
    and "0 < k" "k \<le> length (pus_inside h b)"
  shows "\<exists>pieces. bitmap_split L h b k = Inr pieces \<and> length pieces = k \<and>
    (\<forall>i < k. pieces ! i \<noteq> {} \<and> pieces ! i \<subseteq> b) \<and>
    (\<forall>i < k. \<forall>j < k. i \<noteq> j \<longrightarrow> pieces ! i \<inter> pieces ! j = {}) \<and>
    \<Union> (set pieces) = (\<Union>obj \<in> set (pus_inside h b). o_cpuset obj) \<and>
    (\<forall>i < k. pieces ! i = (\<Union>obj \<in> set (take (chunk_size (length (pus_inside h b)) k i)
        (drop (chunk_start (length (pus_inside h b)) k i) (pus_inside h b))). o_cpuset obj))"
proof -
  have eq: "bitmap_split L h b k = Inr (map (split_piece h b k) [0..<k])"
    using bitmap_split_eq [OF assms(1-3), of k] assms(4,5) by simp
  have "\<Union> (set (map (split_piece h b k) [0..<k])) = (\<Union>i < k. split_piece h b k i)"
    by (auto simp: lessThan_atLeast0)
  then show ?thesis
    using eq split_piece_nonempty [OF assms(4,5)] split_piece_disjoint [OF assms(2,4)] split_piece_cover [OF assms(4)]
    by (intro exI [of _ "map (split_piece h b k) [0..<k]"]) (simp add: split_piece_def Let_def)
qed

theorem bitmap_split_partition_witness:
  "\<exists>pieces. bitmap_split demo_lib (demo_hwloc 5) {0..<5} 2 = Inr pieces \<and> length pieces = 2 \<and>
     pieces ! 0 = {0, 1, 2} \<and> pieces ! 1 = {3, 4}"
proof -
  have p: "pus_inside (demo_hwloc 5) {0..<5} = map demo_pu [0..<5]" using demo_pus [of 5 5] by simp
  then obtain pieces where "bitmap_split demo_lib (demo_hwloc 5) {0..<5} 2 = Inr pieces" "length pieces = 2"
    "\<forall>i < 2. pieces ! i = (\<Union>obj \<in> set (take (chunk_size 5 2 i) (drop (chunk_start 5 2 i) (map demo_pu [0..<5]))). o_cpuset obj)"
    using bitmap_split_partition [OF demo_bitmap_laws demo_topology_laws [of 5], of "{0..<5}" 2] by auto
  moreover have "take (chunk_size 5 2 0) (drop (chunk_start 5 2 0) [0..<5]) = [0, 1, 2]"
    "take (chunk_size 5 2 1) (drop (chunk_start 5 2 1) [0..<5]) = [3, 4]" by code_simp+
  ultimately show ?thesis
    by (intro exI [of _ pieces]) (auto simp: demo_pu_def take_map drop_map)
qed

text \<open>Asking for more pieces than there are processing units, or for none, succeeds with an empty
  result; the callers have to cope with zero pieces.\<close>

theorem bitmap_split_too_many_pieces:
  assumes "bitmap_laws L" "topology_laws (m_topo h)" "length (pus_inside h b) < 2 ^ 32"
    and "k = 0 \<or> length (pus_inside h b) < k"
  shows "bitmap_split L h b k = Inr []"
  using bitmap_split_eq [OF assms(1-3), of k] assms(4) by auto

theorem bitmap_split_too_many_pieces_witness: "bitmap_split demo_lib (demo_hwloc 2) {0..<2} 3 = Inr []"
  using bitmap_split_too_many_pieces [OF demo_bitmap_laws demo_topology_laws [of 2], of "{0..<2}" 3] demo_pus [of 2 2] by simp

text \<open>\<^verbatim>\<open>get_cpuset_for_nobjs\<close> returns the union of the first \<open>nobjs\<close> objects of the type
  inside the set, and an hwloc error exactly when there are fewer than \<open>nobjs\<close> of them.\<close>

theorem get_cpuset_for_nobjs_correct:
  assumes "bitmap_laws L" "topology_laws (m_topo h)" "obj_get_type t = Inr ht"
    and "objs = objs_inside (m_topo h) cpuset (get_type_depth (m_topo h) ht)"
  shows "get_cpuset_for_nobjs L h cpuset t n =
    (if n \<le> length objs then Inr (\<Union>obj \<in> set (take n objs). o_cpuset obj) else Inl (Rc QV_ERR_HWLOC))"
  using rfold_or_obj [OF assms(1,2), of n cpuset "get_type_depth (m_topo h) ht" 0 "{}"]
    rfold_or_obj_fail [OF assms(1,2), of cpuset "get_type_depth (m_topo h) ht" n "{}"] assms(3,4)
  by (simp add: get_cpuset_for_nobjs_def obj_type_depth_def)

theorem get_cpuset_for_nobjs_correct_witness:
  "get_cpuset_for_nobjs demo_lib (demo_hwloc 3) {0..<3} QV_HW_OBJ_PU 2 = Inr {0, 1} \<and>
   get_cpuset_for_nobjs demo_lib (demo_hwloc 3) {0..<3} QV_HW_OBJ_PU 4 = Inl (Rc QV_ERR_HWLOC)"
proof -
  have p: "pus_inside (demo_hwloc 3) {0..<3} = map demo_pu [0..<3]" using demo_pus [of 3 3] by simp
  note eqn = get_cpuset_for_nobjs_correct [OF demo_bitmap_laws demo_topology_laws [of 3] obj_get_type.simps(4) refl, of "{0..<3}"]
  have "get_cpuset_for_nobjs demo_lib (demo_hwloc 3) {0..<3} QV_HW_OBJ_PU 2 = Inr {0, 1}"
    unfolding eqn p by (simp add: demo_pu_def numeral_eq_Suc upt_conv_Cons) auto
  moreover have "get_cpuset_for_nobjs demo_lib (demo_hwloc 3) {0..<3} QV_HW_OBJ_PU 4 = Inl (Rc QV_ERR_HWLOC)"
    unfolding eqn p by simp
  ultimately show ?thesis by simp
qed

end
