(* ===== verification/QV_Hwpool.thy ===== *)
theory QV_Hwpool
  imports QV_Hwloc
begin

text \<open>
  Hardware resource pools (\<^verbatim>\<open>qvi-hwpool.cc\<close>, \<^verbatim>\<open>qvi-hwpool.h\<close>): a CPU set and, per
  device type, a list of devices without duplicates in ascending order of device id. Clients rely on
  insertion being idempotent; the interface is the locale \<open>device_store\<close>, and the pool implements it.
\<close>

section \<open>Resources\<close>

record qvi_hwpool_res =
  res_flags :: int
  res_affinity :: bitmap

type_synonym qvi_hwpool_cpu = qvi_hwpool_res

record qvi_hwpool_dev = qvi_hwpool_res +
  m_type :: qv_hw_obj_type_t
  m_id :: int
  m_pci_bus_id :: string
  m_uuid :: string

definition QV_SCOPE_FLAG_NONE :: int where
  "QV_SCOPE_FLAG_NONE = 0"

definition qvi_hwpool_cpu_new :: "bitmap \<Rightarrow> qvi_hwpool_cpu" where
  "qvi_hwpool_cpu_new aff = \<lparr>res_flags = QV_SCOPE_FLAG_NONE, res_affinity = aff\<rparr>"

definition qvi_hwpool_dev_new :: "qvi_hwloc_device \<Rightarrow> qvi_hwpool_dev" where
  "qvi_hwpool_dev_new dev =
     \<lparr>res_flags = QV_SCOPE_FLAG_NONE, res_affinity = affinity dev, m_type = dev_type dev,
      m_id = dev_id dev, m_pci_bus_id = pci_bus_id dev, m_uuid = uuid dev\<rparr>"

text \<open>\<^verbatim>\<open>qvi_hwpool_dev::equals\<close>: two devices are the same when their bus ids are.\<close>

definition dev_equals :: "qvi_hwpool_dev \<Rightarrow> qvi_hwpool_dev \<Rightarrow> bool" where
  "dev_equals a b \<longleftrightarrow> m_pci_bus_id a = m_pci_bus_id b"

definition hwpool_dev_id :: "qvi_hwpool_dev \<Rightarrow> qv_device_id_type_t \<Rightarrow> string res" where
  "hwpool_dev_id dev format =
     (case format of
        QV_DEVICE_ID_UUID \<Rightarrow> Inr (m_uuid dev)
      | QV_DEVICE_ID_PCI_BUS_ID \<Rightarrow> Inr (m_pci_bus_id dev)
      | QV_DEVICE_ID_ORDINAL \<Rightarrow> Inr (std_to_string (m_id dev))
      | QV_DEVICE_ID_OTHER \<Rightarrow> Inl (Rterror QV_ERR_INVLD_ARG))"

section \<open>Pools\<close>

record qvi_hwpool =
  m_cpu :: qvi_hwpool_cpu
  m_dev_map :: "(qv_hw_obj_type_t, qvi_hwpool_dev list) omap"

definition qvi_hwpool_new :: "bitmap \<Rightarrow> qvi_hwpool" where
  "qvi_hwpool_new cpuset = \<lparr>m_cpu = qvi_hwpool_cpu_new cpuset, m_dev_map = []\<rparr>"

definition hwpool_cpuset :: "qvi_hwpool \<Rightarrow> bitmap" where
  "hwpool_cpuset p = res_affinity (m_cpu p)"

definition hwpool_devices :: "qvi_hwpool \<Rightarrow> qv_hw_obj_type_t \<Rightarrow> qvi_hwpool_dev list" where
  "hwpool_devices p obj_type = (case map_of (m_dev_map p) obj_type of None \<Rightarrow> [] | Some l \<Rightarrow> l)"

definition m_device_in_pool :: "qvi_hwpool \<Rightarrow> qvi_hwpool_dev \<Rightarrow> bool" where
  "m_device_in_pool p dev = list_ex (\<lambda>pool_dev. dev_equals pool_dev dev) (hwpool_devices p (m_type dev))"

definition add_device :: "qvi_hwpool_dev \<Rightarrow> qvi_hwpool \<Rightarrow> qvi_hwpool" where
  "add_device dev p =
     (if \<not> m_device_in_pool p dev
      then p\<lparr>m_dev_map := om_upd [] (m_type dev)
               (\<lambda>l. std_sort (\<lambda>a b. m_id a < m_id b) (l @ [dev])) (m_dev_map p)\<rparr>
      else p)"

definition m_add_devices_with_affinity :: "hwloc_lib \<Rightarrow> qvi_hwloc \<Rightarrow> qvi_hwpool \<Rightarrow> qvi_hwpool" where
  "m_add_devices_with_affinity L h p =
     fold (\<lambda>devt p.
       fold (\<lambda>dev. add_device (qvi_hwpool_dev_new dev))
         (get_devices_included_in_cpuset L h devt (res_affinity (m_cpu p))) p) supported_devices p"

definition populate :: "hwloc_lib \<Rightarrow> qvi_hwloc \<Rightarrow> bitmap \<Rightarrow> qvi_hwpool \<Rightarrow> qvi_hwpool" where
  "populate L h cpuset p = m_add_devices_with_affinity L h (p\<lparr>m_cpu := qvi_hwpool_cpu_new cpuset\<rparr>)"

definition device_affinities :: "qvi_hwpool \<Rightarrow> qv_hw_obj_type_t \<Rightarrow> bitmap list res" where
  "device_affinities p obj_type =
     rbind (obj_res_class obj_type) (\<lambda>c.
       if c = QVI_HWLOC_RES_CLASS_DEV then Inr (map res_affinity (hwpool_devices p obj_type))
       else Inl (Rterror QV_ERR_NOT_SUPPORTED))"

definition nobjects :: "hwloc_lib \<Rightarrow> qvi_hwpool \<Rightarrow> qvi_hwloc \<Rightarrow> qv_hw_obj_type_t \<Rightarrow> nat res" where
  "nobjects L p h obj_type =
     rbind (obj_res_class obj_type) (\<lambda>c.
       if c = QVI_HWLOC_RES_CLASS_HOST
       then (case get_nobjs_in_cpuset L h obj_type (res_affinity (m_cpu p)) of
               Inl (Rc c) \<Rightarrow> Inl (Rterror c) | r \<Rightarrow> r)
       else Inr (length (hwpool_devices p obj_type)))"

definition set_union :: "hwloc_lib \<Rightarrow> qvi_hwpool list \<Rightarrow> qvi_hwpool res" where
  "set_union L hwpools =
     rbind (rfold (\<lambda>p cpu_union. bitmap_op_or2 L cpu_union (hwpool_cpuset p)) hwpools {}) (\<lambda>cpu_union.
       Inr (fold (\<lambda>p result.
              fold (\<lambda>devt result. fold add_device (hwpool_devices p devt) result) supported_devices result)
            hwpools (qvi_hwpool_new cpu_union)))"

section \<open>The interface of a device store\<close>

text \<open>
  A store of devices identified by a key. Adding a device whose key is present changes nothing;
  otherwise exactly that device is added. The clients' loops then compute unions of key sets.
\<close>

locale device_store =
  fixes add :: "'d \<Rightarrow> 'p \<Rightarrow> 'p"
    and key :: "'d \<Rightarrow> 'k"
    and members :: "'p \<Rightarrow> 'd set"
    and ok :: "'p \<Rightarrow> bool"
  assumes add_present: "ok p \<Longrightarrow> key d \<in> key ` members p \<Longrightarrow> add d p = p"
    and add_new: "ok p \<Longrightarrow> key d \<notin> key ` members p \<Longrightarrow> members (add d p) = insert d (members p)"
    and ok_add: "ok p \<Longrightarrow> ok (add d p)"
begin

lemma members_keys_add: "ok p \<Longrightarrow> key ` members (add d p) = insert (key d) (key ` members p)"
  by (cases "key d \<in> key ` members p") (auto simp: add_present add_new)

lemma ok_fold: "ok p \<Longrightarrow> ok (fold add ds p)"
  by (induction ds arbitrary: p) (auto simp: ok_add)

lemma keys_fold: "ok p \<Longrightarrow> key ` members (fold add ds p) = key ` set ds \<union> key ` members p"
  by (induction ds arbitrary: p) (auto simp: ok_add members_keys_add)

lemma members_fold: "ok p \<Longrightarrow> members (fold add ds p) \<subseteq> set ds \<union> members p"
proof (induction ds arbitrary: p)
  case (Cons d ds)
  have "members (add d p) \<subseteq> insert d (members p)"
    using Cons.prems by (cases "key d \<in> key ` members p") (auto simp: add_present add_new)
  with Cons.IH [OF ok_add [OF Cons.prems]] show ?case by fastforce
qed simp

text \<open>With pairwise different keys, every device is kept.\<close>

lemma members_fold_inj:
  "ok p \<Longrightarrow> distinct (map key ds) \<Longrightarrow> key ` set ds \<inter> key ` members p = {} \<Longrightarrow>
    members (fold add ds p) = set ds \<union> members p"
proof (induction ds arbitrary: p)
  case (Cons d ds)
  then have "members (add d p) = insert d (members p)" by (auto simp: add_new)
  with Cons.IH [OF ok_add [OF Cons.prems(1)]] Cons.prems show ?case by auto
qed simp

end

section \<open>The pool's invariant\<close>

definition hwpool_ok :: "qvi_hwpool \<Rightarrow> bool" where
  "hwpool_ok p \<longleftrightarrow>
     om_ok (m_dev_map p) \<and>
     (\<forall>t. (\<forall>d \<in> set (hwpool_devices p t). m_type d = t) \<and>
          sorted (map m_id (hwpool_devices p t)) \<and>
          distinct (map m_pci_bus_id (hwpool_devices p t)))"

definition pool_members :: "qvi_hwpool \<Rightarrow> qvi_hwpool_dev set" where
  "pool_members p = (\<Union>t. set (hwpool_devices p t))"

definition dev_key :: "qvi_hwpool_dev \<Rightarrow> qv_hw_obj_type_t \<times> string" where
  "dev_key d = (m_type d, m_pci_bus_id d)"

interpretation by_id: compare "\<lambda>a b. m_id a < (m_id b :: int)"
  by unfold_locales auto

lemma sorted_by_id: "sorted (map m_id (std_sort (\<lambda>a b. m_id a < m_id b) l))"
  using by_id.std_sort_sorted [of l] by (simp add: sorted_map not_less)

lemma hwpool_devices_upd [simp]:
  "hwpool_devices (p\<lparr>m_dev_map := om_upd [] t f (m_dev_map p)\<rparr>) t' =
     (if t' = t then f (hwpool_devices p t) else hwpool_devices p t')"
  by (simp add: hwpool_devices_def om_ref_def)

lemma hwpool_devices_cpu [simp]: "hwpool_devices (p\<lparr>m_cpu := c\<rparr>) t = hwpool_devices p t"
  by (simp add: hwpool_devices_def)

lemma device_in_pool_iff:
  "hwpool_ok p \<Longrightarrow> m_device_in_pool p d \<longleftrightarrow> dev_key d \<in> dev_key ` pool_members p"
  unfolding hwpool_ok_def m_device_in_pool_def pool_members_def dev_key_def dev_equals_def list_ex_iff
  by (auto simp: image_iff) metis

lemma hwpool_ok_add: "hwpool_ok p \<Longrightarrow> hwpool_ok (add_device d p)"
proof -
  assume ok: "hwpool_ok p"
  show ?thesis
  proof (cases "m_device_in_pool p d")
    case False
    let ?l = "hwpool_devices p (m_type d)"
    have "m_pci_bus_id d \<notin> m_pci_bus_id ` set ?l"
      using False by (auto simp: m_device_in_pool_def list_ex_iff dev_equals_def)
    then have "distinct (map m_pci_bus_id (?l @ [d]))"
      using ok by (auto simp: hwpool_ok_def)
    then have "distinct (map m_pci_bus_id (std_sort (\<lambda>a b. m_id a < m_id b) (?l @ [d])))"
      by (metis mset_eq_imp_distinct_iff mset_map mset_std_sort)
    with ok False show ?thesis
      by (auto simp: add_device_def hwpool_ok_def sorted_by_id)
  qed (use ok in \<open>simp add: add_device_def\<close>)
qed

lemma pool_members_add:
  "\<not> m_device_in_pool p d \<Longrightarrow> pool_members (add_device d p) = insert d (pool_members p)"
  unfolding add_device_def pool_members_def by (auto split: if_splits)

interpretation pool: device_store add_device dev_key pool_members hwpool_ok
proof unfold_locales
  fix p d assume ok: "hwpool_ok p"
  show "dev_key d \<in> dev_key ` pool_members p \<Longrightarrow> add_device d p = p"
    using device_in_pool_iff [OF ok] by (simp add: add_device_def)
  show "dev_key d \<notin> dev_key ` pool_members p \<Longrightarrow> pool_members (add_device d p) = insert d (pool_members p)"
    using device_in_pool_iff [OF ok] by (simp add: pool_members_add)
  show "hwpool_ok (add_device d p)" using ok by (rule hwpool_ok_add)
qed

section \<open>Lemmas\<close>

lemma m_cpu_add_device [simp]: "m_cpu (add_device d p) = m_cpu p"
  by (simp add: add_device_def)

lemma m_cpu_fold_add_device [simp]: "m_cpu (fold add_device ds p) = m_cpu p"
  by (induction ds arbitrary: p) auto

lemma hwpool_ok_new [simp]: "hwpool_ok (qvi_hwpool_new b)"
  by (simp add: hwpool_ok_def qvi_hwpool_new_def hwpool_devices_def)

lemma pool_members_new [simp]: "pool_members (qvi_hwpool_new b) = {}"
  by (simp add: pool_members_def qvi_hwpool_new_def hwpool_devices_def)

lemma hwpool_cpuset_new [simp]: "hwpool_cpuset (qvi_hwpool_new b) = b"
  by (simp add: hwpool_cpuset_def qvi_hwpool_new_def qvi_hwpool_cpu_new_def)

lemma fold_fold: "fold (\<lambda>x. fold f (g x)) xs s = fold f (concat (map g xs)) s"
  by (induction xs arbitrary: s) auto

lemma set_union_eq:
  assumes "bitmap_laws L"
  shows "set_union L ps =
    Inr (fold add_device (concat (map (\<lambda>p. concat (map (hwpool_devices p) supported_devices)) ps))
          (qvi_hwpool_new (\<Union>p \<in> set ps. hwpool_cpuset p)))"
proof -
  have "rfold (\<lambda>p u. bitmap_op_or2 L u (hwpool_cpuset p)) ps r = Inr (r \<union> (\<Union>p \<in> set ps. hwpool_cpuset p))" for r
    using assms by (induction ps arbitrary: r) (auto simp: bitmap_op_or2_def bitmap_lawsD Un_assoc)
  then show ?thesis by (simp add: set_union_def fold_fold)
qed

lemma hwpool_cpuset_fold [simp]: "hwpool_cpuset (fold add_device ds p) = hwpool_cpuset p"
  by (simp add: hwpool_cpuset_def)

lemma included_filter:
  "fold (\<lambda>x acc. if \<not> P x then acc else acc @ [x]) xs acc = acc @ filter P xs"
  by (induction xs arbitrary: acc) auto

lemma get_devices_included_eq:
  assumes "bitmap_laws L"
  shows "get_devices_included_in_cpuset L h t c = filter (\<lambda>d. affinity d \<subseteq> c) (cget_dev_list (m_devmap h) t)"
  using assms by (simp add: get_devices_included_in_cpuset_eq included_filter bitmap_lawsD)

lemma populate_eq:
  assumes "bitmap_laws L"
  shows "populate L h c p =
    fold add_device (map qvi_hwpool_dev_new (concat (map (\<lambda>t. filter (\<lambda>d. affinity d \<subseteq> c) (cget_dev_list (m_devmap h) t))
       supported_devices))) (p\<lparr>m_cpu := qvi_hwpool_cpu_new c\<rparr>)"
proof -
  have f: "fold (\<lambda>d. add_device (qvi_hwpool_dev_new d)) ds q = fold add_device (map qvi_hwpool_dev_new ds) q" for ds q
    by (induction ds arbitrary: q) auto
  show ?thesis
    by (simp add: populate_def m_add_devices_with_affinity_def supported_devices_def f
        get_devices_included_eq [OF assms] qvi_hwpool_cpu_new_def)
qed

lemma populate_result:
  assumes "bitmap_laws L"
  shows "hwpool_ok (populate L h c (qvi_hwpool_new b)) \<and> hwpool_cpuset (populate L h c (qvi_hwpool_new b)) = c \<and>
    dev_key ` pool_members (populate L h c (qvi_hwpool_new b)) =
      {dev_key (qvi_hwpool_dev_new d) |d t. t \<in> set supported_devices \<and> d \<in> set (cget_dev_list (m_devmap h) t) \<and> affinity d \<subseteq> c}"
proof -
  let ?ds = "map qvi_hwpool_dev_new (concat (map (\<lambda>t. filter (\<lambda>d. affinity d \<subseteq> c) (cget_dev_list (m_devmap h) t)) supported_devices))"
  have new: "(qvi_hwpool_new b)\<lparr>m_cpu := qvi_hwpool_cpu_new c\<rparr> = qvi_hwpool_new c" by (simp add: qvi_hwpool_new_def)
  show ?thesis
    unfolding populate_eq [OF assms] new
    using pool.keys_fold [of "qvi_hwpool_new c" ?ds] pool.ok_fold [of "qvi_hwpool_new c" ?ds] by auto
qed

lemma set_union_result:
  assumes "bitmap_laws L" "\<forall>p \<in> set ps. hwpool_ok p"
  shows "\<exists>u. set_union L ps = Inr u \<and> hwpool_ok u \<and> hwpool_cpuset u = (\<Union>p \<in> set ps. hwpool_cpuset p) \<and>
    dev_key ` pool_members u = (\<Union>p \<in> set ps. \<Union>t \<in> set supported_devices. dev_key ` set (hwpool_devices p t)) \<and>
    pool_members u \<subseteq> (\<Union>p \<in> set ps. pool_members p)"
proof -
  let ?ds = "concat (map (\<lambda>p. concat (map (hwpool_devices p) supported_devices)) ps)"
  let ?u = "fold add_device ?ds (qvi_hwpool_new (\<Union>p \<in> set ps. hwpool_cpuset p))"
  have "pool_members ?u \<subseteq> set ?ds"
    using pool.members_fold [of "qvi_hwpool_new (\<Union>p \<in> set ps. hwpool_cpuset p)" ?ds] by simp
  also have "\<dots> \<subseteq> (\<Union>p \<in> set ps. pool_members p)" by (auto simp: pool_members_def)
  finally show ?thesis
    using set_union_eq [OF assms(1), of ps] pool.keys_fold [of "qvi_hwpool_new (\<Union>p \<in> set ps. hwpool_cpuset p)" ?ds]
    by (simp add: pool.ok_fold image_UN)
qed

section \<open>Properties\<close>

text \<open>C33: the pool's invariant (per type: the right device type, ascending device ids, no bus id twice)
  is kept by \<^verbatim>\<open>add_device\<close>; adding a device whose bus id is already present for its type
  changes nothing, and any other device is added without touching the rest.\<close>

theorem add_device_invariant:
  assumes "hwpool_ok p"
  shows "hwpool_ok (add_device d p) \<and>
    pool_members (add_device d p) =
      (if \<exists>d' \<in> pool_members p. m_type d' = m_type d \<and> m_pci_bus_id d' = m_pci_bus_id d
       then pool_members p else insert d (pool_members p)) \<and>
    hwpool_cpuset (add_device d p) = hwpool_cpuset p"
proof -
  have "(\<exists>d' \<in> pool_members p. m_type d' = m_type d \<and> m_pci_bus_id d' = m_pci_bus_id d) \<longleftrightarrow>
      dev_key d \<in> dev_key ` pool_members p"
    by (simp add: dev_key_def image_iff) metis
  then show ?thesis
    using pool.add_present [OF assms, of d] pool.add_new [OF assms, of d] hwpool_ok_add [OF assms]
    by (simp add: hwpool_cpuset_def)
qed

definition demo_device :: "int \<Rightarrow> string \<Rightarrow> qvi_hwloc_device" where
  "demo_device i bus =
     \<lparr>dev_type = QV_HW_OBJ_GPU, affinity = {0}, dev_id = i, dev_name = ''gpu'', pci_bus_id = bus, uuid = []\<rparr>"

theorem add_device_invariant_witness:
  "pool_members (add_device (qvi_hwpool_dev_new (demo_device 1 ''a'')) (add_device (qvi_hwpool_dev_new (demo_device 0 ''a'')) (qvi_hwpool_new {0}))) =
   {qvi_hwpool_dev_new (demo_device 0 ''a'')}"
  using add_device_invariant [of "add_device (qvi_hwpool_dev_new (demo_device 0 ''a'')) (qvi_hwpool_new {0})" "qvi_hwpool_dev_new (demo_device 1 ''a'')"]
    add_device_invariant [of "qvi_hwpool_new {0}" "qvi_hwpool_dev_new (demo_device 0 ''a'')"]
  by (simp add: qvi_hwpool_dev_new_def demo_device_def)

text \<open>The union of pools has the union of their CPU sets and, for every supported device type, holds
  a device with a given bus id exactly when one of the pools does; every device comes from one of them,
  and the result satisfies the pool invariant.\<close>

theorem set_union_correct:
  assumes "bitmap_laws L" "\<forall>p \<in> set ps. hwpool_ok p"
  shows "\<exists>u. set_union L ps = Inr u \<and> hwpool_ok u \<and> hwpool_cpuset u = (\<Union>p \<in> set ps. hwpool_cpuset p) \<and>
    dev_key ` pool_members u = (\<Union>p \<in> set ps. \<Union>t \<in> set supported_devices. dev_key ` set (hwpool_devices p t)) \<and>
    pool_members u \<subseteq> (\<Union>p \<in> set ps. pool_members p)"
  by (rule set_union_result [OF assms])

theorem set_union_correct_witness:
  "\<exists>u. set_union demo_lib [qvi_hwpool_new {0, 1}, qvi_hwpool_new {1, 2}] = Inr u \<and> hwpool_cpuset u = {0, 1, 2}"
  using set_union_correct [OF demo_bitmap_laws, of "[qvi_hwpool_new {0, 1}, qvi_hwpool_new {1, 2}]"] by auto

text \<open>Populating a pool that has no devices yet gives it the CPU set and, per supported device type,
  exactly the devices whose affinity lies inside the CPU set, each bus id once.\<close>

theorem populate_correct:
  assumes "bitmap_laws L"
  shows "hwpool_ok (populate L h c (qvi_hwpool_new b)) \<and> hwpool_cpuset (populate L h c (qvi_hwpool_new b)) = c \<and>
    dev_key ` pool_members (populate L h c (qvi_hwpool_new b)) =
      {dev_key (qvi_hwpool_dev_new d) |d t. t \<in> set supported_devices \<and> d \<in> set (cget_dev_list (m_devmap h) t) \<and> affinity d \<subseteq> c}"
  by (rule populate_result [OF assms])

theorem populate_correct_witness:
  "hwpool_ok (populate demo_lib (demo_hwloc 4) {0, 1} (qvi_hwpool_new {})) \<and>
   hwpool_cpuset (populate demo_lib (demo_hwloc 4) {0, 1} (qvi_hwpool_new {})) = {0, 1}"
  using populate_correct [OF demo_bitmap_laws, of "demo_hwloc 4" "{0, 1}" "{}"] by blast

end
