(* ===== verification/QV_Hwsplit.thy ===== *)
theory QV_Hwsplit
  imports QV_Hwpool QV_Matching QV_Discover
begin

text \<open>
  Splitting a hardware pool among the members of a group (\<^verbatim>\<open>qvi-hwsplit.cc\<close>). The root
  cuts the primary CPU set into pieces, maps the members to pieces with one of the mappers of
  \<^verbatim>\<open>qvi-map.cc\<close>, gives every member the piece it is mapped to, and then attaches the
  devices of the base pool to the members' pools by affinity.
\<close>

section \<open>State\<close>

record qvi_hwsplit =
  m_my_hwpool :: qvi_hwpool
  m_group_size :: nat
  m_split_size :: nat
  m_split_at_type :: qv_hw_obj_type_t
  m_base_hwpool :: qvi_hwpool
  m_my_cpu_affinity :: bitmap
  m_group_tids :: "int list"
  m_hwpools :: "qvi_hwpool list"
  m_colors :: "int list"
  m_split_cpusets :: "bitmap list"
  m_task_affinities :: "bitmap list"

definition QV_SCOPE_SPLIT_UNDEFINED :: int where
  "QV_SCOPE_SPLIT_UNDEFINED = -1"

definition QV_SCOPE_SPLIT_CLOSE :: int where
  "QV_SCOPE_SPLIT_CLOSE = -2"

definition QV_SCOPE_SPLIT_PACKED :: int where
  "QV_SCOPE_SPLIT_PACKED = -3"

definition QV_SCOPE_SPLIT_SPREAD :: int where
  "QV_SCOPE_SPLIT_SPREAD = -4"

definition format_coloring :: "int list \<Rightarrow> string" where
  "format_coloring colors =
     (let ncolors = length colors
      in ''  Key: (tid, color)'' @ newline @ ''{'' @ newline @
         concat (map (\<lambda>i. ''  ('' @ std_to_string (int i) @ '', '' @ std_to_string (colors ! i) @ '')'' @
                         (if i = ncolors - 1 then newline else '','' @ newline)) [0..<ncolors]) @
         ''}'' @ newline)"

text \<open>
  The constructor. \<open>bind_top\<close> is what the task reports as its current binding; an error code of it
  is thrown.
\<close>

definition qvi_hwsplit_new ::
  "qvi_hwpool \<Rightarrow> bitmap res \<Rightarrow> nat \<Rightarrow> nat \<Rightarrow> qv_hw_obj_type_t \<Rightarrow> qvi_hwsplit res" where
  "qvi_hwsplit_new parent_hwpool bind_top group_size split_size split_at_type =
     (case bind_top of
        Inl (Rc c) \<Rightarrow> Inl (Rterror c)
      | Inl e \<Rightarrow> Inl e
      | Inr aff \<Rightarrow>
          Inr \<lparr>m_my_hwpool = parent_hwpool, m_group_size = group_size, m_split_size = split_size,
               m_split_at_type = split_at_type, m_base_hwpool = qvi_hwpool_new {},
               m_my_cpu_affinity = aff, m_group_tids = [], m_hwpools = [], m_colors = [],
               m_split_cpusets = [], m_task_affinities = []\<rparr>)"

definition m_reserve :: "qvi_hwsplit \<Rightarrow> qvi_hwsplit" where
  "m_reserve hs =
     hs\<lparr>m_group_tids := vec_resize 0 (m_group_size hs) (m_group_tids hs),
        m_hwpools := vec_resize (qvi_hwpool_new {}) (m_group_size hs) (m_hwpools hs),
        m_colors := vec_resize 0 (m_group_size hs) (m_colors hs),
        m_task_affinities := vec_resize {} (m_group_size hs) (m_task_affinities hs)\<rparr>"

section \<open>Cutting the CPU set\<close>

definition m_primary_cpuset_for_split ::
  "hwloc_lib \<Rightarrow> qvi_hwsplit \<Rightarrow> qv_hw_obj_type_t \<Rightarrow> (qv_hw_obj_type_t \<times> bitmap) res" where
  "m_primary_cpuset_for_split L hs requested_type =
     rbind (obj_res_class requested_type) (\<lambda>c. case c of
        QVI_HWLOC_RES_CLASS_LAST \<Rightarrow> Inr (QV_HW_OBJ_PU, hwpool_cpuset (m_base_hwpool hs))
      | QVI_HWLOC_RES_CLASS_HOST \<Rightarrow> Inr (requested_type, hwpool_cpuset (m_base_hwpool hs))
      | QVI_HWLOC_RES_CLASS_DEV \<Rightarrow>
          rbind (rfold (\<lambda>dev result. bitmap_op_or2 L result (res_affinity dev))
                   (hwpool_devices (m_base_hwpool hs) requested_type) {}) (\<lambda>result.
            Inr (requested_type, result)))"

definition m_split_cpuset :: "hwloc_lib \<Rightarrow> qvi_hwloc \<Rightarrow> qvi_hwsplit \<Rightarrow> qvi_hwsplit res" where
  "m_split_cpuset L h hs =
     rbind (m_primary_cpuset_for_split L hs (m_split_at_type hs)) (\<lambda>(pri_type, pri_cpuset).
       let real_split_size = min (m_split_size hs) (m_group_size hs)
       in rbind (bitmap_split L h pri_cpuset real_split_size) (\<lambda>cpusets.
            Inr (hs\<lparr>m_split_cpusets := cpusets\<rparr>)))"

section \<open>Choosing the mapper\<close>

text \<open>\<open>front\<close> and \<open>back\<close> of the sorted colours; undefined on an empty vector.\<close>

definition user_colors :: "nat \<Rightarrow> int list \<Rightarrow> int list res" where
  "user_colors m colors =
     (let all_in_range = list_all (\<lambda>val. val \<ge> 0 \<and> val < to_int32 m) colors;
          colors = (if \<not> all_in_range then qvi_map_clamp_colors colors else colors)
      in if length (os_of_list colors) > m then Inl (Rc QV_ERR_SPLIT) else Inr colors)"

definition m_determine_mapping :: "qvi_hwsplit \<Rightarrow> (qvi_hwsplit \<times> bitmap qvi_map_config) res" where
  "m_determine_mapping hs =
     (let tcolors = sort (m_colors hs) in
      if tcolors = [] then Inl Undef
      else if hd tcolors \<ge> 0
      then rbind (user_colors (length (m_split_cpusets hs)) (m_colors hs)) (\<lambda>colors.
             Inr (hs\<lparr>m_colors := colors\<rparr>, map_config_colors colors Map_colors))
      else if last tcolors < 0
      then if hd tcolors \<noteq> last tcolors then Inl (Rc QV_ERR_INVLD_ARG)
           else let c = m_colors hs ! 0 in
             if c = QV_SCOPE_SPLIT_CLOSE
             then Inr (hs, map_config_affinities (m_task_affinities hs) (m_split_cpusets hs) Map_close)
             else if c = QV_SCOPE_SPLIT_PACKED
             then Inr (hs, map_config_sizes (m_group_size hs) (length (m_split_cpusets hs)) Map_packed)
             else if c = QV_SCOPE_SPLIT_SPREAD
             then Inr (hs, map_config_sizes (m_group_size hs) (length (m_split_cpusets hs)) Map_spread)
             else Inl (Rc QV_ERR_INVLD_ARG)
      else Inr (hs, map_config_colors (m_colors hs) Map_colors))"

section \<open>Applying the mapping\<close>

definition assign_cpuset :: "nat \<Rightarrow> nat \<Rightarrow> qvi_hwsplit \<Rightarrow> qvi_hwsplit res" where
  "assign_cpuset taski cpuseti hs =
     rbind (vec_at (m_split_cpusets hs) cpuseti) (\<lambda>cpuset.
     rbind (vec_set_at (m_hwpools hs) taski (qvi_hwpool_new cpuset)) (\<lambda>pools.
     rbind (vec_set_at (m_colors hs) taski (to_int32 cpuseti)) (\<lambda>colors.
       Inr (hs\<lparr>m_hwpools := pools, m_colors := colors\<rparr>))))"

definition assign_cpusets :: "qvi_map_t \<Rightarrow> qvi_hwsplit \<Rightarrow> qvi_hwsplit res" where
  "assign_cpusets hres_map hs =
     rfold (\<lambda>(taski, cpusetis). rfold (assign_cpuset taski) cpusetis) hres_map
       (hs\<lparr>m_colors := vec_resize 0 (length hres_map) (m_colors hs)\<rparr>)"

definition attach_device :: "qvi_hwpool_dev list \<Rightarrow> nat \<Rightarrow> nat \<Rightarrow> qvi_hwpool list \<Rightarrow> qvi_hwpool list res" where
  "attach_device devs devi pooli pools =
     rbind (vec_ix pools pooli) (\<lambda>p.
     rbind (vec_ix devs devi) (\<lambda>dev.
       Inr (pools[pooli := add_device dev p])))"

definition attach_devices ::
  "hwloc_lib \<Rightarrow> qvi_hwpool \<Rightarrow> bitmap list \<Rightarrow> qv_hw_obj_type_t \<Rightarrow> qvi_hwpool list \<Rightarrow> qvi_hwpool list res" where
  "attach_devices L base hwpool_affinities devt pools =
     (let devs = hwpool_devices base devt in
      if devs = [] then Inr pools
      else rbind (device_affinities base devt) (\<lambda>dev_affinities.
           rbind (qvi_map_close (bitmap_intersects L)
                    (map_config_affinities dev_affinities hwpool_affinities Map_none) []) (\<lambda>devs2hres_map.
             let devs2hres_map = (if length hwpool_affinities > length dev_affinities
                                  then qvi_map_uniq devs2hres_map else devs2hres_map)
             in rfold (\<lambda>(devi, poolis). rfold (attach_device devs devi) poolis) devs2hres_map pools)))"

definition m_split :: "hwloc_lib \<Rightarrow> qvi_hwloc \<Rightarrow> qvi_hwsplit \<Rightarrow> qvi_hwsplit res" where
  "m_split L h hs =
     rbind (m_split_cpuset L h hs) (\<lambda>hs.
     rbind (m_determine_mapping hs) (\<lambda>(hs, hres_map_config).
     rbind (map_fn_call (bitmap_intersects L) hres_map_config []) (\<lambda>hres_map.
     rbind (assign_cpusets hres_map hs) (\<lambda>hs.
       let hwpool_affinities = map hwpool_cpuset (m_hwpools hs)
       in rbind (rfold (attach_devices L (m_base_hwpool hs) hwpool_affinities) supported_devices (m_hwpools hs))
            (\<lambda>pools. Inr (hs\<lparr>m_hwpools := pools\<rparr>))))))"

section \<open>Splitting for threads\<close>

text \<open>
  \<^verbatim>\<open>thread_split\<close>: one task computes the split for \<open>k\<close> threads. The result is the
  colours and the pools, in thread order. Reading \<^verbatim>\<open>kcolors\<close> beyond its end is undefined.
\<close>

definition thread_split ::
  "hwloc_lib \<Rightarrow> qvi_hwloc \<Rightarrow> qvi_hwpool \<Rightarrow> bitmap res \<Rightarrow> int \<Rightarrow> nat \<Rightarrow> int list \<Rightarrow> nat \<Rightarrow> qv_hw_obj_type_t \<Rightarrow>
     (int list \<times> qvi_hwpool list) res" where
  "thread_split L h parent_hwpool bind_top task_id npieces kcolors k maybe_obj_type =
     rbind (qvi_hwsplit_new parent_hwpool bind_top k npieces maybe_obj_type) (\<lambda>hs.
     let hs = m_reserve hs;
         hs = hs\<lparr>m_base_hwpool := m_my_hwpool hs\<rparr>
     in rbind bind_top (\<lambda>task_affinity.
        rbind (rfold (\<lambda>i hs.
                 rbind (vec_ix kcolors i) (\<lambda>c.
                 rbind (vec_set_at (m_colors hs) i c) (\<lambda>colors.
                 rbind (vec_set_at (m_group_tids hs) i task_id) (\<lambda>tids.
                 rbind (vec_set_at (m_task_affinities hs) i task_affinity) (\<lambda>affs.
                   Inr (hs\<lparr>m_colors := colors, m_group_tids := tids, m_task_affinities := affs\<rparr>))))))
               [0..<k] hs) (\<lambda>hs.
        rbind (m_split L h hs) (\<lambda>hs. Inr (m_colors hs, m_hwpools hs)))))"

section \<open>Mappings with one destination per source\<close>

text \<open>What the CPU set assignment needs of a mapper: every member has exactly one piece.\<close>

definition single_map :: "nat \<Rightarrow> nat \<Rightarrow> qvi_map_t \<Rightarrow> bool" where
  "single_map n m M \<longleftrightarrow> map_ok M \<and> keys M = {..<n} \<and> (\<forall>s < n. \<exists>d < m. dests M s = {d})"

definition tabulate1 :: "nat \<Rightarrow> (nat \<Rightarrow> nat) \<Rightarrow> qvi_map_t" where
  "tabulate1 n f = map (\<lambda>i. (i, [f i])) [0..<n]"

lemma os_ok_singleton: "os_ok s \<Longrightarrow> set s = {d} \<Longrightarrow> s = [d]"
  by (rule os_eqI) (auto simp: os_ok_def)

lemma map_of_tabulate1: "map_of (tabulate1 n f) i = (if i < n then Some [f i] else None)"
  by (induction n) (auto simp: tabulate1_def map_add_def less_Suc_eq)

lemma single_map_tabulate:
  assumes "single_map n m M"
  obtains f where "M = tabulate1 n f" "\<And>i. i < n \<Longrightarrow> f i < m"
proof -
  define f where "f i = (THE d. dests M i = {d})" for i
  have f: "f i < m \<and> dests M i = {f i}" if "i < n" for i
    using assms that by (auto simp: single_map_def f_def)
  have ok: "map_ok M" and k: "keys M = {..<n}" using assms by (auto simp: single_map_def)
  have "map_of M i = Some [f i]" if i: "i < n" for i
  proof -
    obtain s where s: "map_of M i = Some s" using k i by (auto simp: keys_def set_eq_iff)
    moreover have "os_ok s" using ok s by (auto simp: map_ok_iff)
    ultimately show ?thesis using f [OF i] os_ok_singleton [of s "f i"] by (simp add: dests_def om_ref_def)
  qed
  moreover have "map_of M i = None" if "\<not> i < n" for i
    using k that by (auto simp: keys_def set_eq_iff)
  ultimately have "map_of M = map_of (tabulate1 n f)" by (auto simp: map_of_tabulate1 fun_eq_iff)
  then have "M = tabulate1 n f"
    using ok by (intro om_eqI) (auto simp: map_ok_def tabulate1_def)
  with f that show thesis by blast
qed

lemma balanced_single: "balanced_assignment n m M \<Longrightarrow> single_map n m M"
  by (simp add: balanced_assignment_def single_map_def)

lemma capacity_single: "capacity_assignment n m k M \<Longrightarrow> single_map n m M"
  by (simp add: capacity_assignment_def single_map_def)

lemma dests_tabulate1: "dests (tabulate1 n f) i = (if i < n then {f i} else {})"
  by (simp add: dests_def om_ref_def map_of_tabulate1)

section \<open>Assigning the pieces\<close>

lemma rfold_tabulate1:
  "rfold (\<lambda>(a, bs). rfold (g a) bs) (tabulate1 n f) s = rfold (\<lambda>i. g i (f i)) [0..<n] s"
proof -
  have "rfold (\<lambda>(a, bs). rfold (g a) bs) (map (\<lambda>i. (i, [f i])) xs) s = rfold (\<lambda>i. g i (f i)) xs s" for xs
  proof (induction xs arbitrary: s)
    case (Cons x xs)
    then show ?case by (cases "g x (f x) s") auto
  qed simp
  then show ?thesis by (simp add: tabulate1_def)
qed

lemma update_next: "j < length xs \<Longrightarrow> (map g [0..<j] @ drop j xs)[j := g j] = map g [0..<Suc j] @ drop (Suc j) xs"
  by (simp add: list_update_append Cons_nth_drop_Suc [symmetric])

lemma assign_cpusets_loop:
  assumes "\<And>i. i < n \<Longrightarrow> f i < length (m_split_cpusets hs)" "length (m_split_cpusets hs) \<le> 2 ^ 31"
    and "length (m_hwpools hs) = n" "length (m_colors hs) = n" "j \<le> n"
  shows "rfold (\<lambda>i. assign_cpuset i (f i)) [0..<j] hs =
    Inr (hs\<lparr>m_hwpools := map (\<lambda>i. qvi_hwpool_new (m_split_cpusets hs ! f i)) [0..<j] @ drop j (m_hwpools hs),
            m_colors := map (\<lambda>i. int (f i)) [0..<j] @ drop j (m_colors hs)\<rparr>)"
  using assms(5)
proof (induction j)
  case (Suc j)
  then have j: "j < n" "f j < length (m_split_cpusets hs)" using assms(1) by auto
  then have "to_int32 (f j) = int (f j)" using assms(2) by (intro to_int32_id) linarith
  with Suc j assms(3,4) update_next [of j "m_hwpools hs" "\<lambda>i. qvi_hwpool_new (m_split_cpusets hs ! f i)"]
    update_next [of j "m_colors hs" "\<lambda>i. int (f i)"]
  show ?case
    by (simp add: rfold_append assign_cpuset_def vec_at_def vec_set_at_def)
qed simp

lemma assign_cpusets_eq:
  assumes "\<And>i. i < n \<Longrightarrow> f i < length (m_split_cpusets hs)" "length (m_split_cpusets hs) \<le> 2 ^ 31"
    and "length (m_hwpools hs) = n"
  shows "assign_cpusets (tabulate1 n f) hs =
    Inr (hs\<lparr>m_hwpools := map (\<lambda>i. qvi_hwpool_new (m_split_cpusets hs ! f i)) [0..<n],
            m_colors := map (\<lambda>i. int (f i)) [0..<n]\<rparr>)"
  using assign_cpusets_loop [of n f "hs\<lparr>m_colors := vec_resize 0 n (m_colors hs)\<rparr>" n] assms
  by (simp add: assign_cpusets_def rfold_tabulate1) (simp add: tabulate1_def)

section \<open>Attaching the devices\<close>

lemma attach_loop:
  assumes "\<And>d. d < length devs \<Longrightarrow> g d < length pools" "j \<le> length devs"
  shows "rfold (\<lambda>d. attach_device devs d (g d)) [0..<j] pools =
    Inr (map (\<lambda>i. fold add_device (map (nth devs) (filter (\<lambda>d. g d = i) [0..<j])) (pools ! i)) [0..<length pools])"
  using assms(2)
proof (induction j)
  case 0
  show ?case by (simp add: map_nth)
next
  case (Suc j)
  let ?p = "\<lambda>j i. fold add_device (map (nth devs) (filter (\<lambda>d. g d = i) [0..<j])) (pools ! i)"
  have g: "g j < length pools" "j < length devs" using Suc.prems assms(1) by auto
  have "(map (?p j) [0..<length pools])[g j := add_device (devs ! j) (?p j (g j))] = map (?p (Suc j)) [0..<length pools]"
    using g by (intro nth_equalityI) (auto simp: nth_list_update)
  with Suc g show ?case
    by (simp add: rfold_append attach_device_def vec_ix_def)
qed

text \<open>A mapping with pairwise different single destinations is left alone by \<open>qvi_map_uniq\<close>.\<close>

lemma uniq_tabulate1:
  assumes "inj_on g {..<n}"
  shows "qvi_map_uniq (tabulate1 n g) = tabulate1 n g"
proof -
  have "\<exists>seen. fold map_uniq_step (tabulate1 j g) ([], []) = (tabulate1 j g, seen) \<and> set seen = g ` {..<j}"
    if "j \<le> n" for j
    using that
  proof (induction j)
    case 0
    show ?case by (simp add: tabulate1_def)
  next
    case (Suc j)
    then obtain seen where IH: "fold map_uniq_step (tabulate1 j g) ([], []) = (tabulate1 j g, seen)"
      "set seen = g ` {..<j}" by auto
    have new: "g j \<notin> set seen" using IH(2) assms Suc.prems by (force dest: inj_onD)
    have "om_insert j [g j] (tabulate1 j g) = tabulate1 (Suc j) g"
      using om_put_last [of "tabulate1 j g" j "[g j]"] map_of_tabulate1 [of j g j]
      by (auto simp: om_insert_def tabulate1_def)
    then have "map_uniq_step (j, [g j]) (tabulate1 j g, seen) = (tabulate1 (Suc j) g, os_insert (g j) seen)"
      using new by (simp add: map_uniq_step_def)
    moreover have "tabulate1 (Suc j) g = tabulate1 j g @ [(j, [g j])]" by (simp add: tabulate1_def)
    ultimately show ?case using IH by (auto simp: lessThan_Suc)
  qed
  from this [of n] show ?thesis by (auto simp: qvi_map_uniq_def)
qed

lemma qvi_map_close_single:
  assumes "0 < length (dst_affinities config)"
    and "length (src_affinities config) + length (dst_affinities config) \<le> 2 ^ 64"
  shows "\<exists>M. qvi_map_close intersects config mp = Inr M \<and>
    capacity_assignment (length (src_affinities config)) (length (dst_affinities config))
      (qvi_maxiperk (length (src_affinities config)) (length (dst_affinities config))) M"
  using solve_ap_mapping_correct [OF aff_ok_calc assms] by (auto simp: qvi_map_close_def Let_def)

lemma maxiperk_one: "0 < n \<Longrightarrow> n < m \<Longrightarrow> n + m \<le> 2 ^ 64 \<Longrightarrow> qvi_maxiperk n m \<le> 1"
  by (rule qvi_maxiperk_least) auto

lemma load_one_inj:
  assumes "\<And>d. load (tabulate1 n g) d \<le> 1"
  shows "inj_on g {..<n}"
proof (rule inj_onI)
  fix a b assume ab: "a \<in> {..<n}" "b \<in> {..<n}" "g a = g b"
  let ?S = "{s. g a \<in> dests (tabulate1 n g) s}"
  have "?S \<subseteq> {..<n}" by (auto simp: dests_tabulate1 split: if_splits)
  then have fin: "finite ?S" using finite_subset by blast
  have "a \<in> ?S" "b \<in> ?S" using ab by (auto simp: dests_tabulate1)
  moreover have "card ?S \<le> 1" using assms [of "g a"] by (simp add: load_def)
  ultimately show "a = b" using fin card_le_Suc0_iff_eq [OF fin] by auto
qed

text \<open>The devices of one type: each goes to exactly one pool.\<close>

lemma attach_devices_eq:
  assumes "length affs = length pools" "0 < length pools"
    and "length (hwpool_devices base t) + length pools \<le> 2 ^ 64" "obj_res_class t = Inr QVI_HWLOC_RES_CLASS_DEV"
  shows "\<exists>g. (\<forall>d < length (hwpool_devices base t). g d < length pools) \<and>
    attach_devices L base affs t pools =
      Inr (map (\<lambda>i. fold add_device (map (nth (hwpool_devices base t))
             (filter (\<lambda>d. g d = i) [0..<length (hwpool_devices base t)])) (pools ! i)) [0..<length pools])"
proof -
  let ?devs = "hwpool_devices base t" and ?nd = "length (hwpool_devices base t)" and ?n = "length pools"
  show ?thesis
  proof (cases "?devs = []")
    case True
    then show ?thesis by (simp add: attach_devices_def map_nth)
  next
    case False
    let ?cfg = "map_config_affinities (map res_affinity ?devs) affs Map_none :: bitmap qvi_map_config"
    obtain M where M: "qvi_map_close (bitmap_intersects L) ?cfg [] = Inr M"
      and cap: "capacity_assignment ?nd ?n (qvi_maxiperk ?nd ?n) M"
      using qvi_map_close_single [of ?cfg "bitmap_intersects L" "[]"] assms by (auto simp: map_config_affinities_def)
    obtain g where g: "M = tabulate1 ?nd g" "\<And>d. d < ?nd \<Longrightarrow> g d < ?n"
      using single_map_tabulate [OF capacity_single [OF cap]] by blast
    have "qvi_map_uniq M = M" if lt: "?nd < ?n"
    proof -
      have "qvi_maxiperk ?nd ?n \<le> 1" using False lt assms(3) by (intro maxiperk_one) auto
      then have "load (tabulate1 ?nd g) d \<le> 1" for d
        using cap g(1) le_trans unfolding capacity_assignment_def by blast
      then show ?thesis using g(1) uniq_tabulate1 load_one_inj by blast
    qed
    then have "attach_devices L base affs t pools =
        rfold (\<lambda>d. attach_device ?devs d (g d)) [0..<?nd] pools"
      using False M assms(1,4) g(1) by (auto simp: attach_devices_def device_affinities_def Let_def rfold_tabulate1)
    with attach_loop [of ?devs g pools ?nd] g(2) show ?thesis by auto
  qed
qed

section \<open>The whole split\<close>

text \<open>The colourings that the split accepts for \<open>k\<close> pieces.\<close>

definition valid_coloring :: "nat \<Rightarrow> int list \<Rightarrow> bool" where
  "valid_coloring k colors \<longleftrightarrow>
     colors \<noteq> [] \<and>
     ((\<forall>c \<in> set colors. 0 \<le> c) \<and> card (set colors) \<le> k \<or>
      (\<exists>a \<in> {QV_SCOPE_SPLIT_CLOSE, QV_SCOPE_SPLIT_PACKED, QV_SCOPE_SPLIT_SPREAD}. set colors = {a}))"

lemma length_os_of_list: "length (os_of_list xs) = card (set xs)"
  by (metis distinct_card os_ok_distinct os_of_list_ok set_os_of_list)

lemma user_colors_Inr:
  assumes "user_colors k colors = Inr cs" "\<forall>c \<in> set colors. 0 \<le> c" "k < 2 ^ 31"
  shows "length cs = length colors \<and> (\<forall>c \<in> set cs. 0 \<le> c \<and> c < int k) \<and>
    (\<forall>i < length colors. \<forall>j < length colors. cs ! i < cs ! j \<longleftrightarrow> colors ! i < colors ! j)"
proof (cases "list_all (\<lambda>val. val \<ge> 0 \<and> val < to_int32 k) colors")
  case True
  then show ?thesis using assms by (auto simp: user_colors_def list_all_iff split: if_splits)
next
  case False
  let ?r = "\<lambda>c. card {c' \<in> set colors. c' < c}"
  have cs: "cs = map (\<lambda>c. int (?r c)) colors"
    using assms(1) False unfolding qvi_map_clamp_colors_rank [symmetric]
    by (auto simp: user_colors_def Let_def split: if_splits)
  have mono: "?r a < ?r b \<longleftrightarrow> a < b" if "a \<in> set colors" "b \<in> set colors" for a b
    using rank_strict_mono [OF _ that(1), of b] rank_strict_mono [OF _ that(2), of a]
    by (metis (no_types, lifting) List.finite_set less_asym not_less_iff_gr_or_eq)
  have "card (set cs) = card (set colors)"
    unfolding cs set_map using mono
    by (intro card_image inj_onI) (metis (no_types, lifting) not_less_iff_gr_or_eq of_nat_eq_iff)
  moreover have "card (set cs) \<le> k"
    using assms(1) by (auto simp: user_colors_def Let_def length_os_of_list split: if_splits)
  ultimately have "?r c < k" if "c \<in> set colors" for c
    using rank_less_card [OF _ that] by (metis (no_types, lifting) List.finite_set less_le_trans)
  with mono show ?thesis by (auto simp: cs)
qed

lemma user_colors_total:
  assumes "\<forall>c \<in> set colors. 0 \<le> c" "card (set colors) \<le> k"
  shows "\<exists>cs. user_colors k colors = Inr cs"
proof -
  have "card (set (qvi_map_clamp_colors colors)) \<le> card (set colors)"
    by (simp add: qvi_map_clamp_colors_def card_image_le)
  with assms show ?thesis by (auto simp: user_colors_def Let_def length_os_of_list)
qed

lemma sort_front_back:
  fixes xs :: "int list"
  assumes "xs \<noteq> []"
  shows "hd (sort xs) \<ge> 0 \<longleftrightarrow> (\<forall>c \<in> set xs. 0 \<le> c)" "last (sort xs) < 0 \<longleftrightarrow> (\<forall>c \<in> set xs. c < 0)"
    "hd (sort xs) = last (sort xs) \<longleftrightarrow> (\<forall>c \<in> set xs. \<forall>d \<in> set xs. c = d)"
proof -
  have ne: "sort xs \<noteq> []" using assms by (metis set_empty set_sort)
  have h: "hd (sort xs) \<in> set xs" "\<forall>c \<in> set xs. hd (sort xs) \<le> c"
    using ne by (metis hd_in_set set_sort, metis hd_Cons_tl list.set_cases order_refl set_ConsD set_sort sorted_simps(2) sorted_sort)
  have l: "last (sort xs) \<in> set xs" "\<forall>c \<in> set xs. c \<le> last (sort xs)"
    using ne by (metis last_in_set set_sort, metis in_set_conv_nth last_conv_nth length_greater_0_conv diff_less less_Suc0 One_nat_def less_Suc_eq_le Suc_pred set_sort sorted_nth_mono sorted_sort zero_less_one)
  show "hd (sort xs) \<ge> 0 \<longleftrightarrow> (\<forall>c \<in> set xs. 0 \<le> c)" using h by fastforce
  show "last (sort xs) < 0 \<longleftrightarrow> (\<forall>c \<in> set xs. c < 0)" using l by fastforce
  show "hd (sort xs) = last (sort xs) \<longleftrightarrow> (\<forall>c \<in> set xs. \<forall>d \<in> set xs. c = d)"
    using h l by (metis order_antisym)
qed

lemma qvi_map_colors_single:
  assumes "length cs = n" "\<forall>c \<in> set cs. 0 \<le> c \<and> c < int k"
  shows "\<exists>M. qvi_map_colors (map_config_colors cs Map_colors :: 'b qvi_map_config) [] = Inr M \<and> single_map n k M"
proof -
  let ?cfg = "map_config_colors cs Map_colors :: 'b qvi_map_config"
  have sc: "src_colors ?cfg = cs" by (simp add: map_config_colors_def)
  have "list_all (\<lambda>val. val \<ge> 0) cs" using assms(2) by (simp add: list_all_iff)
  then obtain M where M: "qvi_map_colors ?cfg [] = Inr M" by (simp add: qvi_map_colors_def sc)
  have "nat (cs ! i) < k" if "i < n" for i
    using assms that nth_mem [of i cs] by fastforce
  with qvi_map_colors_Inr [OF M] M assms(1) show ?thesis by (auto simp: single_map_def sc)
qed

lemma determine_mapping_user:
  assumes "m_colors hs \<noteq> []" "\<forall>c \<in> set (m_colors hs). 0 \<le> c" "card (set (m_colors hs)) \<le> length (m_split_cpusets hs)"
    and "length (m_split_cpusets hs) < 2 ^ 31"
  shows "\<exists>cs M. m_determine_mapping hs = Inr (hs\<lparr>m_colors := cs\<rparr>, map_config_colors cs Map_colors) \<and>
     map_fn_call I (map_config_colors cs Map_colors :: bitmap qvi_map_config) [] = Inr M \<and>
     single_map (length (m_colors hs)) (length (m_split_cpusets hs)) M"
proof -
  obtain cs where cs: "user_colors (length (m_split_cpusets hs)) (m_colors hs) = Inr cs"
    using user_colors_total assms by blast
  have "m_determine_mapping hs = Inr (hs\<lparr>m_colors := cs\<rparr>, map_config_colors cs Map_colors)"
    using assms(1,2) sort_front_back(1) [of "m_colors hs"] cs
    by (simp add: m_determine_mapping_def Let_def flip: length_greater_0_conv)
  moreover have "map_fn_call I (map_config_colors cs Map_colors :: bitmap qvi_map_config) =
      qvi_map_colors (map_config_colors cs Map_colors :: bitmap qvi_map_config)"
    by (simp add: fun_eq_iff map_fn_call_def map_config_colors_def)
  ultimately show ?thesis
    using qvi_map_colors_single user_colors_Inr [OF cs assms(2,4)] by metis
qed

lemma determine_mapping_auto:
  assumes a: "m_colors hs \<noteq> []" "set (m_colors hs) = {a}" "a \<in> {QV_SCOPE_SPLIT_CLOSE, QV_SCOPE_SPLIT_PACKED, QV_SCOPE_SPLIT_SPREAD}"
    and k: "0 < length (m_split_cpusets hs)" "length (m_split_cpusets hs) \<le> n"
    and n: "m_group_size hs = n" "length (m_task_affinities hs) = n" "n + length (m_split_cpusets hs) \<le> 2 ^ 64"
  shows "\<exists>cfg M. m_determine_mapping hs = Inr (hs, cfg) \<and> map_fn_call I cfg [] = Inr M \<and>
     single_map n (length (m_split_cpusets hs)) M"
proof -
  let ?k = "length (m_split_cpusets hs)"
  have neg: "a < 0" using a(3) by (auto simp: QV_SCOPE_SPLIT_CLOSE_def QV_SCOPE_SPLIT_PACKED_def QV_SCOPE_SPLIT_SPREAD_def)
  have c0: "m_colors hs ! 0 = a" using a(1,2) nth_mem [of 0 "m_colors hs"] by auto
  have det: "m_determine_mapping hs =
     (if a = QV_SCOPE_SPLIT_CLOSE then Inr (hs, map_config_affinities (m_task_affinities hs) (m_split_cpusets hs) Map_close)
      else if a = QV_SCOPE_SPLIT_PACKED then Inr (hs, map_config_sizes n ?k Map_packed)
      else Inr (hs, map_config_sizes n ?k Map_spread))"
    using sort_front_back [OF a(1)] a c0 neg n(1)
    by (auto simp: m_determine_mapping_def Let_def simp flip: length_greater_0_conv)
  consider "a = QV_SCOPE_SPLIT_CLOSE" | "a = QV_SCOPE_SPLIT_PACKED" | "a = QV_SCOPE_SPLIT_SPREAD" using a(3) by blast
  then show ?thesis
  proof cases
    case 1
    let ?cfg = "map_config_affinities (m_task_affinities hs) (m_split_cpusets hs) Map_close"
    obtain M where "qvi_map_close I ?cfg [] = Inr M" "capacity_assignment n ?k (qvi_maxiperk n ?k) M"
      using qvi_map_close_single [of ?cfg I "[]"] k n by (auto simp: map_config_affinities_def)
    then show ?thesis using det 1 capacity_single
      by (auto simp: map_fn_call_def map_config_affinities_def)
  next
    case 2
    let ?cfg = "map_config_sizes n ?k Map_packed :: bitmap qvi_map_config"
    have "QV_SCOPE_SPLIT_PACKED \<noteq> QV_SCOPE_SPLIT_CLOSE" by (simp add: QV_SCOPE_SPLIT_CLOSE_def QV_SCOPE_SPLIT_PACKED_def)
    moreover have "\<exists>M. qvi_map_packed ?cfg [] = Inr M \<and> single_map n ?k M"
      using qvi_map_packed_direct [of ?cfg] packed_map_balanced k balanced_single by (simp add: map_config_sizes_def)
    ultimately show ?thesis using det 2 by (auto simp: map_fn_call_def map_config_sizes_def)
  next
    case 3
    let ?cfg = "map_config_sizes n ?k Map_spread :: bitmap qvi_map_config"
    have "QV_SCOPE_SPLIT_SPREAD \<noteq> QV_SCOPE_SPLIT_CLOSE" "QV_SCOPE_SPLIT_SPREAD \<noteq> QV_SCOPE_SPLIT_PACKED"
      by (simp_all add: QV_SCOPE_SPLIT_CLOSE_def QV_SCOPE_SPLIT_PACKED_def QV_SCOPE_SPLIT_SPREAD_def)
    moreover have "\<exists>M. qvi_map_spread ?cfg [] = Inr M \<and> single_map n ?k M"
      using qvi_map_spread_direct [of ?cfg] spread_map_balanced k balanced_single by (simp add: map_config_sizes_def)
    ultimately show ?thesis using det 3 by (auto simp: map_fn_call_def map_config_sizes_def)
  qed
qed

text \<open>What a successful split promises for \<open>n\<close> members, base pool \<open>base\<close> and pieces \<open>pieces\<close>.\<close>

definition split_result_ok :: "nat \<Rightarrow> qvi_hwpool \<Rightarrow> bitmap list \<Rightarrow> int list \<Rightarrow> qvi_hwpool list \<Rightarrow> bool" where
  "split_result_ok n base pieces colors pools \<longleftrightarrow>
     length colors = n \<and> length pools = n \<and>
     (\<forall>i < n. \<exists>c < length pieces. colors ! i = int c \<and> hwpool_cpuset (pools ! i) = pieces ! c \<and> hwpool_ok (pools ! i)) \<and>
     (\<forall>t \<in> set supported_devices. \<forall>d \<in> set (hwpool_devices base t). \<exists>!i. i < n \<and> d \<in> pool_members (pools ! i)) \<and>
     (\<forall>i < n. pool_members (pools ! i) \<subseteq> (\<Union>t \<in> set supported_devices. set (hwpool_devices base t)))"

lemma devices_distinct:
  assumes "hwpool_ok base"
  shows "distinct (map dev_key (map (nth (hwpool_devices base t)) (filter P [0..<length (hwpool_devices base t)])))"
proof -
  let ?l = "hwpool_devices base t"
  have "distinct (map m_pci_bus_id ?l)" using assms by (simp add: hwpool_ok_def)
  then have "inj_on (\<lambda>d. m_pci_bus_id (?l ! d)) {0..<length ?l}"
    by (auto simp: inj_on_def distinct_conv_nth) metis
  then have "inj_on (\<lambda>d. dev_key (?l ! d)) (set (filter P [0..<length ?l]))"
    by (auto simp: inj_on_def dev_key_def)
  then show ?thesis by (simp add: distinct_map comp_def)
qed

text \<open>Attaching the GPUs and the NICs: the devices of one pool after both rounds.\<close>

lemma attached_members:
  assumes ok: "hwpool_ok base"
    and p: "p = fold add_device (map (nth (hwpool_devices base QV_HW_OBJ_NIC)) (filter P2 [0..<length (hwpool_devices base QV_HW_OBJ_NIC)]))
      (fold add_device (map (nth (hwpool_devices base QV_HW_OBJ_GPU)) (filter P1 [0..<length (hwpool_devices base QV_HW_OBJ_GPU)]))
         (qvi_hwpool_new b))"
  shows "hwpool_ok p" "hwpool_cpuset p = b"
    "pool_members p = {hwpool_devices base QV_HW_OBJ_NIC ! d |d. d < length (hwpool_devices base QV_HW_OBJ_NIC) \<and> P2 d} \<union>
       {hwpool_devices base QV_HW_OBJ_GPU ! d |d. d < length (hwpool_devices base QV_HW_OBJ_GPU) \<and> P1 d}"
proof -
  let ?g = "map (nth (hwpool_devices base QV_HW_OBJ_GPU)) (filter P1 [0..<length (hwpool_devices base QV_HW_OBJ_GPU)])"
  let ?c = "map (nth (hwpool_devices base QV_HW_OBJ_NIC)) (filter P2 [0..<length (hwpool_devices base QV_HW_OBJ_NIC)])"
  show "hwpool_ok p" "hwpool_cpuset p = b" by (simp_all add: p pool.ok_fold)
  have 1: "pool_members (fold add_device ?g (qvi_hwpool_new b)) = set ?g"
    using pool.members_fold_inj [of "qvi_hwpool_new b" ?g] devices_distinct [OF ok] by simp
  have ty: "m_type (hwpool_devices base t ! d) = t" if "d < length (hwpool_devices base t)" for t d
    using ok that by (simp add: hwpool_ok_def)
  have "dev_key ` set ?c \<inter> dev_key ` set ?g = {}" using ty by (auto simp: dev_key_def)
  then have "pool_members p = set ?c \<union> set ?g"
    unfolding p using pool.members_fold_inj [of "fold add_device ?g (qvi_hwpool_new b)" ?c] devices_distinct [OF ok] 1
    by (simp add: pool.ok_fold)
  then show "pool_members p = {hwpool_devices base QV_HW_OBJ_NIC ! d |d. d < length (hwpool_devices base QV_HW_OBJ_NIC) \<and> P2 d} \<union>
       {hwpool_devices base QV_HW_OBJ_GPU ! d |d. d < length (hwpool_devices base QV_HW_OBJ_GPU) \<and> P1 d}"
    by auto
qed

text \<open>Things that are handed out by an index have one owner, if the other things of the owners are different.\<close>

lemma unique_owner:
  assumes "\<And>i. i < n \<Longrightarrow> M i = {A ! d |d. d < length A \<and> g d = i} \<union> R i" "\<And>i. i < n \<Longrightarrow> set A \<inter> R i = {}"
    and "distinct A" "\<forall>d < length A. g d < n" "x \<in> set A"
  shows "\<exists>!i. i < n \<and> x \<in> M i"
proof -
  obtain d where d: "d < length A" "x = A ! d" using assms(5) by (auto simp: in_set_conv_nth)
  show ?thesis
  proof (rule ex1I [of _ "g d"])
    show "g d < n \<and> x \<in> M (g d)" using assms(1,4) d by blast
    fix i assume i: "i < n \<and> x \<in> M i"
    then obtain d' where "d' < length A" "g d' = i" "x = A ! d'" using assms(1,2,5) by blast
    then show "i = g d" using assms(3) d by (simp add: nth_eq_iff_index_eq)
  qed
qed

lemma device_lists:
  assumes "hwpool_ok base"
  shows "distinct (hwpool_devices base t)" "d \<in> set (hwpool_devices base t) \<Longrightarrow> m_type d = t"
  using assms by (auto simp: hwpool_ok_def distinct_map in_set_conv_nth)

lemma attached_result:
  assumes ok: "hwpool_ok base" and f: "\<And>i. i < n \<Longrightarrow> f i < length pieces" and "length P = n"
    and g1: "\<forall>d < length (hwpool_devices base QV_HW_OBJ_GPU). g1 d < n" and g2: "\<forall>d < length (hwpool_devices base QV_HW_OBJ_NIC). g2 d < n"
    and p: "\<And>i. i < n \<Longrightarrow> P ! i = fold add_device
        (map (nth (hwpool_devices base QV_HW_OBJ_NIC)) (filter (\<lambda>d. g2 d = i) [0..<length (hwpool_devices base QV_HW_OBJ_NIC)]))
        (fold add_device (map (nth (hwpool_devices base QV_HW_OBJ_GPU)) (filter (\<lambda>d. g1 d = i) [0..<length (hwpool_devices base QV_HW_OBJ_GPU)]))
          (qvi_hwpool_new (pieces ! f i)))"
  shows "split_result_ok n base pieces (map (\<lambda>i. int (f i)) [0..<n]) P"
proof -
  let ?G = "hwpool_devices base QV_HW_OBJ_GPU" and ?C = "hwpool_devices base QV_HW_OBJ_NIC"
  let ?g = "\<lambda>i. {?G ! d |d. d < length ?G \<and> g1 d = i}" and ?c = "\<lambda>i. {?C ! d |d. d < length ?C \<and> g2 d = i}"
  note mem = attached_members [OF ok p]
  have sub: "?g i \<subseteq> set ?G" "?c i \<subseteq> set ?C" for i by auto
  have "set ?G \<inter> set ?C = {}" using device_lists(2) [OF ok, of _ QV_HW_OBJ_GPU] device_lists(2) [OF ok, of _ QV_HW_OBJ_NIC] by force
  then have sep: "set ?G \<inter> ?c i = {}" "set ?C \<inter> ?g i = {}" for i using sub by blast+
  have owner: "\<exists>!i. i < n \<and> d \<in> pool_members (P ! i)" if "t \<in> set supported_devices" "d \<in> set (hwpool_devices base t)" for t d
  proof -
    from that(1) consider "t = QV_HW_OBJ_GPU" | "t = QV_HW_OBJ_NIC" by (auto simp: supported_devices_def)
    then show ?thesis
    proof cases
      case 1
      show ?thesis
        by (rule unique_owner [where A = ?G and g = g1 and R = ?c]) (use mem(3) sep(1) device_lists(1) [OF ok] g1 that(2) 1 in auto)
    next
      case 2
      show ?thesis
        by (rule unique_owner [where A = ?C and g = g2 and R = ?g]) (use mem(3) sep(2) device_lists(1) [OF ok] g2 that(2) 2 in auto)
    qed
  qed
  show ?thesis
    unfolding split_result_ok_def
  proof (intro conjI allI impI ballI)
    fix i assume i: "i < n"
    show "\<exists>c < length pieces. map (\<lambda>i. int (f i)) [0..<n] ! i = int c \<and> hwpool_cpuset (P ! i) = pieces ! c \<and> hwpool_ok (P ! i)"
      using i f mem(1,2) [of i] by auto
    show "pool_members (P ! i) \<subseteq> (\<Union>t \<in> set supported_devices. set (hwpool_devices base t))"
      unfolding mem(3) [OF i] by (auto simp: supported_devices_def)
  qed (use assms(3) owner in auto)
qed

lemma attach_all_devices:
  assumes ok: "hwpool_ok base" and n: "0 < n" and f: "\<And>i. i < n \<Longrightarrow> f i < length pieces"
    and sz: "\<And>t. length (hwpool_devices base t) + n \<le> 2 ^ 64"
  shows "\<exists>pools. rfold (attach_devices L base (map hwpool_cpuset (map (\<lambda>i. qvi_hwpool_new (pieces ! f i)) [0..<n])))
       supported_devices (map (\<lambda>i. qvi_hwpool_new (pieces ! f i)) [0..<n]) = Inr pools \<and>
     split_result_ok n base pieces (map (\<lambda>i. int (f i)) [0..<n]) pools"
proof -
  let ?P0 = "map (\<lambda>i. qvi_hwpool_new (pieces ! f i)) [0..<n]"
  let ?affs = "map hwpool_cpuset ?P0"
  let ?G = "hwpool_devices base QV_HW_OBJ_GPU" and ?C = "hwpool_devices base QV_HW_OBJ_NIC"
  obtain g1 where g1: "\<forall>d < length ?G. g1 d < n" "attach_devices L base ?affs QV_HW_OBJ_GPU ?P0 =
      Inr (map (\<lambda>i. fold add_device (map (nth ?G) (filter (\<lambda>d. g1 d = i) [0..<length ?G])) (?P0 ! i)) [0..<n])"
    using attach_devices_eq [of ?affs ?P0 base QV_HW_OBJ_GPU L] n sz by auto
  define P1 where "P1 = map (\<lambda>i. fold add_device (map (nth ?G) (filter (\<lambda>d. g1 d = i) [0..<length ?G])) (?P0 ! i)) [0..<n]"
  obtain g2 where g2: "\<forall>d < length ?C. g2 d < n" "attach_devices L base ?affs QV_HW_OBJ_NIC P1 =
      Inr (map (\<lambda>i. fold add_device (map (nth ?C) (filter (\<lambda>d. g2 d = i) [0..<length ?C])) (P1 ! i)) [0..<n])"
    using attach_devices_eq [of ?affs P1 base QV_HW_OBJ_NIC L] n sz by (auto simp: P1_def)
  define P2 where "P2 = map (\<lambda>i. fold add_device (map (nth ?C) (filter (\<lambda>d. g2 d = i) [0..<length ?C])) (P1 ! i)) [0..<n]"
  have run: "rfold (attach_devices L base ?affs) supported_devices ?P0 = Inr P2"
    using g1(2) g2(2) by (simp add: supported_devices_def P1_def P2_def)
  have "split_result_ok n base pieces (map (\<lambda>i. int (f i)) [0..<n]) P2"
    by (rule attached_result [OF ok f _ g1(1) g2(1)]) (simp_all add: P2_def P1_def)
  with run show ?thesis by blast
qed

lemma m_split_correct:
  assumes laws: "bitmap_laws L" "topology_laws (m_topo h)"
    and prim: "m_primary_cpuset_for_split L hs (m_split_at_type hs) = Inr (t', b)"
    and n: "m_group_size hs = n" "length (m_colors hs) = n" "length (m_task_affinities hs) = n" "length (m_hwpools hs) = n"
    and k: "k = min (m_split_size hs) n" "0 < k" "k \<le> length (pus_inside h b)" "length (pus_inside h b) < 2 ^ 31" "n < 2 ^ 31"
    and base: "hwpool_ok (m_base_hwpool hs)" "\<And>t. length (hwpool_devices (m_base_hwpool hs) t) < 2 ^ 31"
    and col: "valid_coloring k (m_colors hs)"
  shows "\<exists>hs'. m_split L h hs = Inr hs' \<and>
    split_result_ok n (m_base_hwpool hs) (map (split_piece h b k) [0..<k]) (m_colors hs') (m_hwpools hs')"
proof -
  let ?pieces = "map (split_piece h b k) [0..<k]"
  let ?hs = "hs\<lparr>m_split_cpusets := ?pieces\<rparr>"
  have npu: "length (pus_inside h b) < 2 ^ 32" using k(4) by simp
  have k31: "k < 2 ^ 31" "k \<le> n" "0 < n" using k by auto
  have cut: "m_split_cpuset L h hs = Inr ?hs"
    using bitmap_split_eq [OF laws npu, of k] k(1-3) n(1) prim by (simp add: m_split_cpuset_def Let_def)
  obtain cs cfg M where det: "m_determine_mapping ?hs = Inr (?hs\<lparr>m_colors := cs\<rparr>, cfg)"
    and M: "map_fn_call (bitmap_intersects L) cfg [] = Inr M" "single_map n k M"
  proof -
    from col consider "\<forall>c \<in> set (m_colors hs). 0 \<le> c" "card (set (m_colors hs)) \<le> k"
      | a where "a \<in> {QV_SCOPE_SPLIT_CLOSE, QV_SCOPE_SPLIT_PACKED, QV_SCOPE_SPLIT_SPREAD}" "set (m_colors hs) = {a}"
      unfolding valid_coloring_def by blast
    then show thesis
    proof cases
      case 1
      have "\<exists>cs M. m_determine_mapping ?hs = Inr (?hs\<lparr>m_colors := cs\<rparr>, map_config_colors cs Map_colors) \<and>
         map_fn_call (bitmap_intersects L) (map_config_colors cs Map_colors :: bitmap qvi_map_config) [] = Inr M \<and>
         single_map (length (m_colors ?hs)) (length (m_split_cpusets ?hs)) M"
        using col 1 k31 by (intro determine_mapping_user) (auto simp: valid_coloring_def)
      then show thesis using that n(2) by auto
    next
      case 2
      have "\<exists>cfg M. m_determine_mapping ?hs = Inr (?hs, cfg) \<and> map_fn_call (bitmap_intersects L) cfg [] = Inr M \<and>
         single_map n (length (m_split_cpusets ?hs)) M"
        using col 2 k31 k(5) n k(2) by (intro determine_mapping_auto [of _ a]) (auto simp: valid_coloring_def)
      then show thesis using that [of "m_colors ?hs"] by auto
    qed
  qed
  obtain f where f: "M = tabulate1 n f" "\<And>i. i < n \<Longrightarrow> f i < k" using single_map_tabulate [OF M(2)] by blast
  let ?hs1 = "?hs\<lparr>m_colors := cs\<rparr>"
  have asg: "assign_cpusets M ?hs1 = Inr (?hs1\<lparr>m_hwpools := map (\<lambda>i. qvi_hwpool_new (?pieces ! f i)) [0..<n],
       m_colors := map (\<lambda>i. int (f i)) [0..<n]\<rparr>)"
    unfolding f(1) using assign_cpusets_eq [of n f ?hs1] f(2) k31 n(4) by simp
  have "length (hwpool_devices (m_base_hwpool hs) t) + n \<le> 2 ^ 64" for t
    using base(2) [of t] k(5) by simp
  then obtain pools where pools: "rfold (attach_devices L (m_base_hwpool hs) (map hwpool_cpuset (map (\<lambda>i. qvi_hwpool_new (?pieces ! f i)) [0..<n])))
       supported_devices (map (\<lambda>i. qvi_hwpool_new (?pieces ! f i)) [0..<n]) = Inr pools"
     "split_result_ok n (m_base_hwpool hs) ?pieces (map (\<lambda>i. int (f i)) [0..<n]) pools"
    using attach_all_devices [OF base(1) k31(3), of f ?pieces L] f(2) by auto
  have "m_split L h hs = Inr (?hs1\<lparr>m_hwpools := pools, m_colors := map (\<lambda>i. int (f i)) [0..<n]\<rparr>)"
    using cut det M(1) asg pools(1) by (simp add: m_split_def del: map_map)
  with pools(2) show ?thesis by auto
qed

lemma m_split_no_pieces:
  assumes "bitmap_laws L" "topology_laws (m_topo h)"
    and "m_primary_cpuset_for_split L hs (m_split_at_type hs) = Inr (t', b)"
    and "length (pus_inside h b) < min (m_split_size hs) (m_group_size hs)" "length (pus_inside h b) < 2 ^ 32"
    and "m_colors hs = replicate (m_group_size hs) a" "0 < m_group_size hs" "m_task_affinities hs \<noteq> []"
  shows "(a = QV_SCOPE_SPLIT_CLOSE \<longrightarrow> m_split L h hs = Inl (Rterror QV_ERR_NOT_SUPPORTED)) \<and>
    (a = QV_SCOPE_SPLIT_PACKED \<longrightarrow> (\<forall>hs'. m_split L h hs = Inr hs' \<longrightarrow> m_colors hs' = [])) \<and>
    (a = QV_SCOPE_SPLIT_SPREAD \<longrightarrow> m_split L h hs = Inl Undef)"
proof -
  let ?hs = "hs\<lparr>m_split_cpusets := []\<rparr>"
  have "\<not> min (m_split_size hs) (m_group_size hs) \<le> length (pus_inside h b)"
    using assms(4) by (simp only: not_le)
  then have "bitmap_split L h b (min (m_split_size hs) (m_group_size hs)) = Inr []"
    using bitmap_split_eq [OF assms(1,2,5), of "min (m_split_size hs) (m_group_size hs)"] by (simp del: min_le_iff_disj)
  then have cut: "m_split_cpuset L h hs = Inr ?hs"
    using assms(3) by (simp add: m_split_cpuset_def Let_def)
  have ne: "replicate (m_group_size hs) a \<noteq> []" using assms(7) by simp
  have c0: "replicate (m_group_size hs) a ! 0 = a" using assms(7) by simp
  have det: "m_determine_mapping ?hs =
     (if a = QV_SCOPE_SPLIT_CLOSE then Inr (?hs, map_config_affinities (m_task_affinities hs) [] Map_close)
      else if a = QV_SCOPE_SPLIT_PACKED then Inr (?hs, map_config_sizes (m_group_size hs) 0 Map_packed)
      else if a = QV_SCOPE_SPLIT_SPREAD then Inr (?hs, map_config_sizes (m_group_size hs) 0 Map_spread)
      else Inl (Rc QV_ERR_INVLD_ARG))" if "a < 0"
    using that sort_front_back [OF ne] assms(6,7) c0
    by (auto simp: m_determine_mapping_def Let_def simp flip: length_greater_0_conv)
  have cl: "qvi_map_close I (map_config_affinities (m_task_affinities hs) ([] :: bitmap list) Map_close) [] =
      Inl (Rterror QV_ERR_NOT_SUPPORTED)" for I
  proof -
    let ?n = "length (m_task_affinities hs)"
    have n: "[0..<?n] = 0 # [Suc 0..<?n]" using assms(8) by (simp add: upt_conv_Cons)
    have "qvi_map_calc_affinities I (m_task_affinities hs) [] = []"
      by (simp add: calc_affinities_adds) (simp add: affinity_pairs_def concat_eq_Nil_conv [THEN iffD2])
    moreover have "solve_ap_mapping ?n 0 [] = Inl (Rterror QV_ERR_NOT_SUPPORTED)"
      by (simp add: solve_ap_mapping_def no_destination_prefs solve_def n solve_step_def om_ref_def Let_def)
    ultimately show ?thesis by (simp add: qvi_map_close_def map_config_affinities_def Let_def)
  qed
  show ?thesis
  proof (intro conjI impI allI)
    assume a: "a = QV_SCOPE_SPLIT_CLOSE"
    show "m_split L h hs = Inl (Rterror QV_ERR_NOT_SUPPORTED)"
      using cut det cl a by (simp add: m_split_def map_fn_call_def QV_SCOPE_SPLIT_CLOSE_def) (simp add: map_config_affinities_def)
  next
    fix hs' assume a: "a = QV_SCOPE_SPLIT_PACKED" and r: "m_split L h hs = Inr hs'"
    have "map_fn_call (bitmap_intersects L) (map_config_sizes (m_group_size hs) 0 Map_packed) [] = Inr []"
      by (simp add: map_fn_call_def qvi_map_packed_def map_config_sizes_def Let_def)
    with cut det a r show "m_colors hs' = []"
      by (auto simp: m_split_def assign_cpusets_def vec_resize_def rc_simps QV_SCOPE_SPLIT_CLOSE_def QV_SCOPE_SPLIT_PACKED_def)
  next
    assume a: "a = QV_SCOPE_SPLIT_SPREAD"
    have "map_fn_call (bitmap_intersects L) (map_config_sizes (m_group_size hs) 0 Map_spread) [] = Inl Undef"
      using assms(7) by (simp add: map_fn_call_def qvi_map_spread_def map_config_sizes_def Let_def upt_conv_Cons)
    with cut det a show "m_split L h hs = Inl Undef"
      by (simp add: m_split_def QV_SCOPE_SPLIT_CLOSE_def QV_SCOPE_SPLIT_PACKED_def QV_SCOPE_SPLIT_SPREAD_def)
  qed
qed

text \<open>The split for threads is the same computation on replicated data.\<close>

definition thread_hwsplit :: "qvi_hwpool \<Rightarrow> bitmap \<Rightarrow> int \<Rightarrow> nat \<Rightarrow> int list \<Rightarrow> qv_hw_obj_type_t \<Rightarrow> qvi_hwsplit" where
  "thread_hwsplit p aff tid npieces kcolors type =
     (let k = length kcolors in
      \<lparr>m_my_hwpool = p, m_group_size = k, m_split_size = npieces, m_split_at_type = type, m_base_hwpool = p,
       m_my_cpu_affinity = aff, m_group_tids = replicate k tid, m_hwpools = replicate k (qvi_hwpool_new {}),
       m_colors = kcolors, m_split_cpusets = [], m_task_affinities = replicate k aff\<rparr>)"

lemma thread_fill_loop:
  assumes "n \<le> length kcolors" "length (m_colors hs) = length kcolors" "length (m_group_tids hs) = length kcolors"
    "length (m_task_affinities hs) = length kcolors"
  shows "rfold (\<lambda>i hs.
           rbind (vec_ix kcolors i) (\<lambda>c.
           rbind (vec_set_at (m_colors hs) i c) (\<lambda>colors.
           rbind (vec_set_at (m_group_tids hs) i task_id) (\<lambda>tids.
           rbind (vec_set_at (m_task_affinities hs) i task_affinity) (\<lambda>affs.
             Inr (hs\<lparr>m_colors := colors, m_group_tids := tids, m_task_affinities := affs\<rparr>))))))
         [0..<n] hs =
    Inr (hs\<lparr>m_colors := take n kcolors @ drop n (m_colors hs), m_group_tids := replicate n task_id @ drop n (m_group_tids hs),
            m_task_affinities := replicate n task_affinity @ drop n (m_task_affinities hs)\<rparr>)"
  using assms(1)
proof (induction n)
  case (Suc n)
  have upd: "(xs @ drop n ys)[n := y] = (xs @ [y]) @ drop (Suc n) ys" if "length xs = n" "n < length ys" for xs ys :: "'b list" and y
    using that by (simp add: list_update_append flip: Cons_nth_drop_Suc)
  show ?case
    using Suc assms
    by (simp add: rfold_append vec_ix_def vec_set_at_def upd take_Suc_conv_app_nth replicate_append_same [symmetric] del: replicate_Suc)
       (simp add: upd replicate_append_same)
qed simp

lemma thread_split_correct:
  assumes laws: "bitmap_laws L" "topology_laws (m_topo h)"
    and prim: "m_primary_cpuset_for_split L (thread_hwsplit p aff tid npieces kcolors type) type = Inr (t', b)"
    and k: "k = min npieces (length kcolors)" "0 < k" "k \<le> length (pus_inside h b)" "length (pus_inside h b) < 2 ^ 31"
      "length kcolors < 2 ^ 31"
    and base: "hwpool_ok p" "\<And>t. length (hwpool_devices p t) < 2 ^ 31"
    and col: "valid_coloring k kcolors"
  shows "\<exists>colors pools. thread_split L h p (Inr aff) tid npieces kcolors (length kcolors) type = Inr (colors, pools) \<and>
    split_result_ok (length kcolors) p (map (split_piece h b k) [0..<k]) colors pools"
proof -
  let ?hs = "thread_hwsplit p aff tid npieces kcolors type"
  have "\<exists>hs'. m_split L h ?hs = Inr hs' \<and>
      split_result_ok (length kcolors) (m_base_hwpool ?hs) (map (split_piece h b k) [0..<k]) (m_colors hs') (m_hwpools hs')"
    by (rule m_split_correct [OF laws, of _ t']) (use prim k base col in \<open>simp_all add: thread_hwsplit_def Let_def\<close>)
  then obtain hs' where hs': "m_split L h ?hs = Inr hs'"
    "split_result_ok (length kcolors) p (map (split_piece h b k) [0..<k]) (m_colors hs') (m_hwpools hs')"
    by (auto simp: thread_hwsplit_def Let_def)
  have "thread_split L h p (Inr aff) tid npieces kcolors (length kcolors) type = Inr (m_colors hs', m_hwpools hs')"
    using hs'(1) thread_fill_loop [of "length kcolors" kcolors "(m_reserve \<lparr>m_my_hwpool = p, m_group_size = length kcolors,
        m_split_size = npieces, m_split_at_type = type, m_base_hwpool = qvi_hwpool_new {}, m_my_cpu_affinity = aff, m_group_tids = [],
        m_hwpools = [], m_colors = [], m_split_cpusets = [], m_task_affinities = []\<rparr>)\<lparr>m_base_hwpool := p\<rparr>" tid aff]
    by (simp add: thread_split_def qvi_hwsplit_new_def m_reserve_def vec_resize_def Let_def thread_hwsplit_def)
  with hs'(2) show ?thesis by blast
qed

text \<open>Colourings that the root rejects with an error code.\<close>

lemma card_clamped: "card (set (qvi_map_clamp_colors colors)) = card (set colors)"
proof -
  let ?r = "\<lambda>c. card {c' \<in> set colors. c' < c}"
  have "?r a \<noteq> ?r b" if "a \<in> set colors" "b \<in> set colors" "a \<noteq> b" for a b
    using rank_strict_mono [OF _ that(1), of b] rank_strict_mono [OF _ that(2), of a] that(3)
    by (cases a b rule: linorder_cases) fastforce+
  then have "inj_on (\<lambda>c. int (?r c)) (set colors)" by (intro inj_onI) (metis of_nat_eq_iff)
  then show ?thesis by (simp add: qvi_map_clamp_colors_rank card_image)
qed

lemma m_split_rejects:
  assumes laws: "bitmap_laws L" "topology_laws (m_topo h)"
    and prim: "m_primary_cpuset_for_split L hs (m_split_at_type hs) = Inr (t', b)"
    and k: "k = min (m_split_size hs) (m_group_size hs)" "0 < k" "k \<le> length (pus_inside h b)" "length (pus_inside h b) < 2 ^ 32"
    and ne: "m_colors hs \<noteq> []"
  shows "\<forall>c \<in> set (m_colors hs). 0 \<le> c \<Longrightarrow> k < card (set (m_colors hs)) \<Longrightarrow> m_split L h hs = Inl (Rc QV_ERR_SPLIT)"
    and "\<forall>c \<in> set (m_colors hs). c < 0 \<Longrightarrow> 1 < card (set (m_colors hs)) \<Longrightarrow> m_split L h hs = Inl (Rc QV_ERR_INVLD_ARG)"
proof -
  let ?pieces = "map (split_piece h b k) [0..<k]"
  let ?hs = "hs\<lparr>m_split_cpusets := ?pieces\<rparr>"
  note sf = sort_front_back [OF ne]
  have ne': "sort (m_colors hs) \<noteq> []" using ne by (metis set_empty set_sort)
  have cut: "m_split_cpuset L h hs = Inr ?hs"
    using bitmap_split_eq [OF laws k(4), of k] k(1-3) prim by (simp add: m_split_cpuset_def Let_def)
  show "m_split L h hs = Inl (Rc QV_ERR_SPLIT)" if "\<forall>c \<in> set (m_colors hs). 0 \<le> c" "k < card (set (m_colors hs))"
  proof -
    have "user_colors k (m_colors hs) = Inl (Rc QV_ERR_SPLIT)"
      using that(2) by (simp add: user_colors_def Let_def length_os_of_list card_clamped)
    then show ?thesis using cut ne' sf(1) that(1) by (simp add: m_split_def m_determine_mapping_def Let_def)
  qed
  show "m_split L h hs = Inl (Rc QV_ERR_INVLD_ARG)" if "\<forall>c \<in> set (m_colors hs). c < 0" and two: "1 < card (set (m_colors hs))"
  proof -
    have "\<not> 0 \<le> hd (sort (m_colors hs))" using that(1) ne sf(1) by (cases "m_colors hs") auto
    moreover have "last (sort (m_colors hs)) < 0" using that(1) sf(2) by blast
    moreover have "hd (sort (m_colors hs)) \<noteq> last (sort (m_colors hs))"
    proof -
      obtain x y where "x \<in> set (m_colors hs)" "y \<in> set (m_colors hs)" "x \<noteq> y"
        using two by (metis One_nat_def card_le_Suc0_iff_eq List.finite_set not_less)
      then show ?thesis using sf(3) by metis
    qed
    ultimately show ?thesis using cut ne' by (simp add: m_split_def m_determine_mapping_def Let_def)
  qed
qed

section \<open>Properties\<close>

text \<open>C3: the split at the root, end to end. For \<open>n\<close> members, a base pool that satisfies its invariant,
  a positive number of pieces that does not exceed the processing units, and a valid colouring (explicit
  colours, of which at most as many are distinct as there are pieces, or one of the automatic modes), the
  split succeeds; every member's new pool is exactly the piece of its new colour; and every device of the
  base pool is attached to exactly one member's pool, with no device from elsewhere.\<close>

theorem m_split_assigns_all:
  assumes "bitmap_laws L" "topology_laws (m_topo h)"
    and "m_primary_cpuset_for_split L hs (m_split_at_type hs) = Inr (t', b)"
    and "m_group_size hs = n" "length (m_colors hs) = n" "length (m_task_affinities hs) = n" "length (m_hwpools hs) = n"
    and "k = min (m_split_size hs) n" "0 < k" "k \<le> length (pus_inside h b)" "length (pus_inside h b) < 2 ^ 31" "n < 2 ^ 31"
    and "hwpool_ok (m_base_hwpool hs)" "\<And>t. length (hwpool_devices (m_base_hwpool hs) t) < 2 ^ 31"
    and "valid_coloring k (m_colors hs)"
  shows "\<exists>hs'. m_split L h hs = Inr hs' \<and>
    split_result_ok n (m_base_hwpool hs) (map (split_piece h b k) [0..<k]) (m_colors hs') (m_hwpools hs')"
  by (rule m_split_correct [OF assms])

definition demo_hwsplit :: "nat \<Rightarrow> nat \<Rightarrow> int list \<Rightarrow> qvi_hwsplit" where
  "demo_hwsplit npus npieces colors =
     (let n = length colors in
      \<lparr>m_my_hwpool = qvi_hwpool_new {0..<npus}, m_group_size = n, m_split_size = npieces, m_split_at_type = QV_HW_OBJ_LAST,
       m_base_hwpool = qvi_hwpool_new {0..<npus}, m_my_cpu_affinity = {}, m_group_tids = replicate n 0,
       m_hwpools = replicate n (qvi_hwpool_new {}), m_colors = colors, m_split_cpusets = [], m_task_affinities = replicate n {}\<rparr>)"

lemma hwpool_devices_new [simp]: "hwpool_devices (qvi_hwpool_new b) t = []"
  by (simp add: hwpool_devices_def qvi_hwpool_new_def)

theorem m_split_assigns_all_witness:
  "\<exists>hs'. m_split demo_lib (demo_hwloc 4) (demo_hwsplit 4 2 [7, 3, 7]) = Inr hs' \<and>
    split_result_ok 3 (qvi_hwpool_new {0..<4}) (map (split_piece (demo_hwloc 4) {0..<4} 2) [0..<2]) (m_colors hs') (m_hwpools hs')"
proof -
  let ?hs = "demo_hwsplit 4 2 [7, 3, 7]"
  have p: "length (pus_inside (demo_hwloc 4) {0..<4}) = 4" using demo_pus [of 4 4] by simp
  have v: "valid_coloring 2 (m_colors ?hs)"
    by (auto simp: valid_coloring_def demo_hwsplit_def card_insert_if)
  have prim: "m_primary_cpuset_for_split demo_lib ?hs (m_split_at_type ?hs) = Inr (QV_HW_OBJ_PU, {0..<4})"
    by (simp add: m_primary_cpuset_for_split_def demo_hwsplit_def)
  show ?thesis
    using m_split_assigns_all [OF demo_bitmap_laws demo_topology_laws [of 4] prim, of 3 2] p v
    by (simp add: demo_hwsplit_def)
qed

text \<open>Which colourings the mapping step accepts, branch by branch: all colours non-negative (an error
  if there are more distinct colours than pieces), all equal to one automatic mode, mixed signs (passed on
  as explicit colours), different negative values or an unknown negative value (an invalid argument).\<close>

theorem m_determine_mapping_branches:
  assumes "m_colors hs \<noteq> []"
  shows "m_determine_mapping hs =
    (if \<forall>c \<in> set (m_colors hs). 0 \<le> c
     then rbind (user_colors (length (m_split_cpusets hs)) (m_colors hs)) (\<lambda>cs.
            Inr (hs\<lparr>m_colors := cs\<rparr>, map_config_colors cs Map_colors))
     else if \<exists>c \<in> set (m_colors hs). 0 \<le> c then Inr (hs, map_config_colors (m_colors hs) Map_colors)
     else if set (m_colors hs) = {QV_SCOPE_SPLIT_CLOSE}
     then Inr (hs, map_config_affinities (m_task_affinities hs) (m_split_cpusets hs) Map_close)
     else if set (m_colors hs) = {QV_SCOPE_SPLIT_PACKED}
     then Inr (hs, map_config_sizes (m_group_size hs) (length (m_split_cpusets hs)) Map_packed)
     else if set (m_colors hs) = {QV_SCOPE_SPLIT_SPREAD}
     then Inr (hs, map_config_sizes (m_group_size hs) (length (m_split_cpusets hs)) Map_spread)
     else Inl (Rc QV_ERR_INVLD_ARG))"
proof -
  note sf = sort_front_back [OF assms]
  have ne: "sort (m_colors hs) \<noteq> []" using assms by (metis set_empty set_sort)
  have c0: "m_colors hs ! 0 \<in> set (m_colors hs)" using assms by simp
  have all: "(\<forall>c \<in> set (m_colors hs). \<forall>d \<in> set (m_colors hs). c = d) \<longleftrightarrow> set (m_colors hs) = {m_colors hs ! 0}"
    using c0 by auto
  have one: "set (m_colors hs) = {x} \<longleftrightarrow> set (m_colors hs) = {m_colors hs ! 0} \<and> m_colors hs ! 0 = x" for x
    using c0 by auto
  have last: "last (sort (m_colors hs)) < 0 \<longleftrightarrow> \<not> (\<exists>c \<in> set (m_colors hs). 0 \<le> c)" using sf(2) by force
  show ?thesis
    unfolding m_determine_mapping_def Let_def sf(1) last one [of QV_SCOPE_SPLIT_CLOSE] one [of QV_SCOPE_SPLIT_PACKED]
      one [of QV_SCOPE_SPLIT_SPREAD] using ne sf(3) all by (auto simp: )
qed

theorem m_determine_mapping_branches_witness:
  "m_determine_mapping (demo_hwsplit 4 2 [-2, -3]) = Inl (Rc QV_ERR_INVLD_ARG)"
  using m_determine_mapping_branches [of "demo_hwsplit 4 2 [-2, -3]"]
  by (simp add: demo_hwsplit_def QV_SCOPE_SPLIT_CLOSE_def QV_SCOPE_SPLIT_PACKED_def QV_SCOPE_SPLIT_SPREAD_def)

text \<open>Explicit colours keep their meaning: the colours used for the split lie in the range of the
  pieces and compare exactly as the requested ones, so members with equal colours share a piece and
  members with different colours do not.\<close>

theorem user_colors_order_preserved:
  assumes "user_colors k colors = Inr cs" "\<forall>c \<in> set colors. 0 \<le> c" "k < 2 ^ 31"
  shows "length cs = length colors \<and> (\<forall>c \<in> set cs. 0 \<le> c \<and> c < int k) \<and>
    (\<forall>i < length colors. \<forall>j < length colors. cs ! i < cs ! j \<longleftrightarrow> colors ! i < colors ! j)"
  by (rule user_colors_Inr [OF assms])

theorem user_colors_order_preserved_witness:
  "user_colors 2 [7, 3, 7] = Inr [1, 0, 1] \<and> ([1, 0, 1] ! 1 < [1, 0, 1 :: int] ! 2 \<longleftrightarrow> [7, 3, 7] ! 1 < [7, 3, 7 :: int] ! 2)"
proof -
  have u: "user_colors 2 [7, 3, 7] = Inr [1, 0, 1]" by code_simp
  have "[1, 0, 1] ! 1 < [1, 0, 1 :: int] ! 2 \<longleftrightarrow> [7, 3, 7] ! 1 < [7, 3, 7 :: int] ! 2"
    using user_colors_order_preserved [OF u] by simp
  with u show ?thesis by blast
qed



end
