(* ===== verification/QV_Bbuff.thy ===== *)
theory QV_Bbuff
  imports QV_Prelude
begin

text \<open>
  Growable byte buffers and message packing (\<^verbatim>\<open>qvi-bbuff.cc\<close>, \<^verbatim>\<open>qvi-bbuff.h\<close>). The
  backing store is the list of its bytes, as long as the capacity; \<open>alloc n\<close> tells whether
  \<^verbatim>\<open>calloc\<close> of \<open>n\<close> bytes succeeds. The cereal archives that turn values into bytes are a
  pair of functions.
\<close>

section \<open>The buffer\<close>

type_synonym byte = char

record qvi_bbuff =
  bb_capacity :: nat
  bb_size :: nat
  bb_data :: "byte list"

definition s_min_growth :: nat where
  "s_min_growth = 256"

definition bbuff_new :: "(nat \<Rightarrow> bool) \<Rightarrow> qvi_bbuff res" where
  "bbuff_new alloc =
     (if alloc s_min_growth
      then Inr \<lparr>bb_capacity = s_min_growth, bb_size = 0, bb_data = replicate s_min_growth (CHR 0x00)\<rparr>
      else Inl (Rterror QV_ERR_OOR))"

text \<open>The copy into the store; writing beyond its end is undefined.\<close>

definition bbuff_write :: "byte list \<Rightarrow> qvi_bbuff \<Rightarrow> qvi_bbuff res" where
  "bbuff_write dat b =
     (if bb_size b + length dat > length (bb_data b) then Inl Undef
      else Inr (b\<lparr>bb_data := take (bb_size b) (bb_data b) @ dat @ drop (bb_size b + length dat) (bb_data b),
                 bb_size := wrap64 (bb_size b + length dat)\<rparr>))"

definition bbuff_append :: "(nat \<Rightarrow> bool) \<Rightarrow> byte list \<Rightarrow> qvi_bbuff \<Rightarrow> qvi_bbuff res" where
  "bbuff_append alloc dat b =
     (let req_capacity = wrap64 (length dat + bb_size b) in
      if req_capacity > bb_capacity b
      then let new_capacity = wrap64 (req_capacity + s_min_growth) in
           if \<not> alloc new_capacity then Inl (Rc QV_ERR_OOR)
           else if bb_size b > new_capacity then Inl Undef
           else bbuff_write dat
             (b\<lparr>bb_capacity := new_capacity,
                bb_data := take (bb_size b) (bb_data b) @ replicate (new_capacity - bb_size b) (CHR 0x00)\<rparr>)
      else bbuff_write dat b)"

text \<open>The copy constructor; an error of the append is thrown.\<close>

definition bbuff_copy :: "(nat \<Rightarrow> bool) \<Rightarrow> qvi_bbuff \<Rightarrow> qvi_bbuff res" where
  "bbuff_copy alloc src =
     rbind (bbuff_new alloc) (\<lambda>b.
       case bbuff_append alloc (take (bb_size src) (bb_data src)) b of
         Inl (Rc c) \<Rightarrow> Inl (Rterror c) | r \<Rightarrow> r)"

text \<open>The assignment. \<open>self\<close> says that source and destination are the same object: the source is then already
  empty when it is read.\<close>

definition bbuff_assign :: "(nat \<Rightarrow> bool) \<Rightarrow> bool \<Rightarrow> qvi_bbuff \<Rightarrow> qvi_bbuff res" where
  "bbuff_assign alloc self src =
     rbind (bbuff_new alloc) (\<lambda>b.
       let src' = (if self then b else src)
       in case bbuff_append alloc (take (bb_size src') (bb_data src')) b of
            Inl (Rc c) \<Rightarrow> Inl (Rterror c) | r \<Rightarrow> r)"

section \<open>Messages\<close>

text \<open>The bytes of a \<^verbatim>\<open>size_t\<close>, least significant first, and their value.\<close>

definition size_bytes :: "nat \<Rightarrow> byte list" where
  "size_bytes n = map (\<lambda>i. char_of (n div 256 ^ i)) [0..<8]"

fun bytes_value :: "byte list \<Rightarrow> nat" where
  "bytes_value [] = 0"
| "bytes_value (c # cs) = of_char c + 256 * bytes_value cs"

text \<open>\<^verbatim>\<open>pack\<close>: the length of the archive, then the archive. \<open>ser\<close> is the serialisation of
  the arguments (\<open>None\<close>: it throws).\<close>

definition pack :: "(nat \<Rightarrow> bool) \<Rightarrow> ('a \<Rightarrow> byte list option) \<Rightarrow> 'a \<Rightarrow> qvi_bbuff \<Rightarrow> qvi_bbuff res" where
  "pack alloc ser args b =
     qvi_catch_and_return
       (case ser args of
          None \<Rightarrow> Inl StdExn
        | Some archives \<Rightarrow>
            rbind (bbuff_append alloc (size_bytes (length archives)) b) (bbuff_append alloc archives))"

text \<open>\<^verbatim>\<open>unpack\<close> from the bytes at a position; reading beyond the end is undefined.\<close>

definition unpack :: "(byte list \<Rightarrow> 'a option) \<Rightarrow> byte list \<Rightarrow> 'a res" where
  "unpack deser dat =
     qvi_catch_and_return
       (if length dat < 8 then Inl Undef
        else let slen = bytes_value (take 8 dat); pos = drop 8 dat
             in if length pos < slen then Inl Undef
                else case deser (take slen pos) of None \<Rightarrow> Inl StdExn | Some x \<Rightarrow> Inr x)"

section \<open>Lemmas\<close>

text \<open>The stored bytes, and the invariant of a buffer.\<close>

definition contents :: "qvi_bbuff \<Rightarrow> byte list" where
  "contents b = take (bb_size b) (bb_data b)"

definition bbuff_ok :: "qvi_bbuff \<Rightarrow> bool" where
  "bbuff_ok b \<longleftrightarrow> bb_size b \<le> bb_capacity b \<and> length (bb_data b) = bb_capacity b"

lemma length_contents [simp]: "bbuff_ok b \<Longrightarrow> length (contents b) = bb_size b"
  by (simp add: contents_def bbuff_ok_def)

lemma bbuff_new_ok: "bbuff_new alloc = Inr b \<Longrightarrow> bbuff_ok b \<and> contents b = []"
  by (auto simp: bbuff_new_def bbuff_ok_def contents_def split: if_splits)

lemma bbuff_assign_other: "bbuff_assign alloc False src = bbuff_copy alloc src"
  by (simp add: bbuff_assign_def bbuff_copy_def)

text \<open>Assigning a buffer to itself empties it.\<close>

lemma bbuff_assign_self: "alloc s_min_growth \<Longrightarrow> \<exists>b. bbuff_assign alloc True src = Inr b \<and> contents b = []"
  by (simp add: bbuff_assign_def bbuff_new_def bbuff_append_def bbuff_write_def s_min_growth_def contents_def)

lemma bbuff_write_ok:
  assumes "bbuff_ok b" "bb_size b + length dat \<le> bb_capacity b" "bb_size b + length dat \<le> SIZE_MAX"
  shows "\<exists>b'. bbuff_write dat b = Inr b' \<and> bbuff_ok b' \<and> contents b' = contents b @ dat \<and>
    bb_size b' = bb_size b + length dat"
  using assms by (auto simp: bbuff_write_def bbuff_ok_def contents_def)

lemma bbuff_append_ok:
  assumes ok: "bbuff_ok b" and sz: "bb_size b + length dat + s_min_growth \<le> SIZE_MAX"
    and al: "alloc (bb_size b + length dat + s_min_growth)"
  shows "\<exists>b'. bbuff_append alloc dat b = Inr b' \<and> bbuff_ok b' \<and> contents b' = contents b @ dat \<and>
    bb_size b' = bb_size b + length dat"
proof -
  have w: "wrap64 (length dat + bb_size b) = length dat + bb_size b"
    "wrap64 (length dat + bb_size b + s_min_growth) = length dat + bb_size b + s_min_growth"
    using sz by (auto intro!: wrap64_id)
  show ?thesis
  proof (cases "length dat + bb_size b > bb_capacity b")
    case False
    then show ?thesis using bbuff_write_ok [OF ok, of dat] sz w by (simp add: bbuff_append_def add.commute)
  next
    case True
    let ?n = "length dat + bb_size b + s_min_growth"
    let ?b = "b\<lparr>bb_capacity := ?n, bb_data := take (bb_size b) (bb_data b) @ replicate (?n - bb_size b) (CHR 0x00)\<rparr>"
    have "bbuff_ok ?b" "contents ?b = contents b" using ok by (auto simp: bbuff_ok_def contents_def)
    moreover have "bbuff_append alloc dat b = bbuff_write dat ?b"
      using True w al by (simp add: bbuff_append_def add.commute add.left_commute)
    ultimately show ?thesis using bbuff_write_ok [of ?b dat] sz by simp
  qed
qed

lemma length_size_bytes [simp]: "length (size_bytes n) = 8"
  by (simp add: size_bytes_def)

lemma bytes_value_map:
  "bytes_value (map (\<lambda>i. char_of (n div 256 ^ i)) [k..<k + j]) = (n div 256 ^ k) mod 256 ^ j"
proof (induction j arbitrary: k)
  case (Suc j)
  have "[k..<k + Suc j] = k # [Suc k..<Suc k + j]" by (simp add: upt_conv_Cons)
  then have "bytes_value (map (\<lambda>i. char_of (n div 256 ^ i)) [k..<k + Suc j]) =
      (n div 256 ^ k) mod 256 + 256 * ((n div 256 ^ Suc k) mod 256 ^ j)"
    using Suc.IH [of "Suc k"] by simp
  also have "n div 256 ^ Suc k = n div 256 ^ k div 256" by (simp only: power_Suc2 div_mult2_eq)
  finally show ?case by (simp add: mod_mult2_eq)
qed simp

lemma bytes_value_size_bytes: "n \<le> SIZE_MAX \<Longrightarrow> bytes_value (size_bytes n) = n"
  using bytes_value_map [of n 0 8] by (simp add: size_bytes_def SIZE_MAX_def)

text \<open>What packing needs: room in the address space, and memory for the buffer.\<close>

lemma pack_ok:
  assumes ok: "bbuff_ok b" and s: "ser x = Some a" and sz: "bb_size b + 8 + length a + s_min_growth \<le> SIZE_MAX"
    and al: "\<And>n. alloc n"
  shows "\<exists>b'. pack alloc ser x b = Inr b' \<and> bbuff_ok b' \<and> contents b' = contents b @ size_bytes (length a) @ a"
proof -
  obtain b1 where b1: "bbuff_append alloc (size_bytes (length a)) b = Inr b1" "bbuff_ok b1"
    "contents b1 = contents b @ size_bytes (length a)" "bb_size b1 = bb_size b + 8"
    using bbuff_append_ok [OF ok, of "size_bytes (length a)" alloc] sz al by auto
  obtain b2 where "bbuff_append alloc a b1 = Inr b2" "bbuff_ok b2" "contents b2 = contents b1 @ a"
    using bbuff_append_ok [OF b1(2), of a alloc] sz al b1(4) by auto
  with b1 s show ?thesis by (simp add: pack_def)
qed

lemma unpack_packed:
  assumes "length a \<le> SIZE_MAX" "deser a = Some x"
  shows "unpack deser (size_bytes (length a) @ a @ rest) = Inr x"
  using assms by (simp add: unpack_def bytes_value_size_bytes Let_def)

section \<open>Properties\<close>

text \<open>Appending keeps the buffer's invariant (the size never exceeds the capacity, which is the size of
  the store) and adds exactly the given bytes after the stored ones; no byte is written outside the store
  as long as sizes do not overflow, and a failed allocation is an error code.\<close>

theorem bbuff_append_correct:
  assumes "bbuff_ok b" "bb_size b + length dat + s_min_growth \<le> SIZE_MAX"
  shows "bbuff_append alloc dat b = Inl (Rc QV_ERR_OOR) \<or>
    (\<exists>b'. bbuff_append alloc dat b = Inr b' \<and> bbuff_ok b' \<and> contents b' = contents b @ dat)"
proof (cases "alloc (bb_size b + length dat + s_min_growth)")
  case True
  then show ?thesis using bbuff_append_ok [OF assms, of alloc] by blast
next
  case False
  have w: "wrap64 (length dat + bb_size b) = length dat + bb_size b"
    "wrap64 (length dat + bb_size b + s_min_growth) = length dat + bb_size b + s_min_growth"
    using assms(2) by (auto intro!: wrap64_id)
  show ?thesis
  proof (cases "length dat + bb_size b > bb_capacity b")
    case True
    then show ?thesis using False w by (simp add: bbuff_append_def add.commute add.left_commute)
  next
    case False
    then show ?thesis using bbuff_write_ok [OF assms(1), of dat] assms(2) w by (auto simp: bbuff_append_def add.commute)
  qed
qed

theorem bbuff_append_correct_witness:
  "\<exists>b b'. bbuff_new (\<lambda>n. True) = Inr b \<and> bbuff_append (\<lambda>n. True) ''abc'' b = Inr b' \<and> contents b' = ''abc''"
proof -
  obtain b where b: "bbuff_new (\<lambda>n. True) = Inr b" by (simp add: bbuff_new_def)
  have "bb_size b = 0" using b by (auto simp: bbuff_new_def)
  with bbuff_new_ok [OF b] bbuff_append_correct [of b "''abc''" "\<lambda>n. True"] b show ?thesis
    by (auto simp: s_min_growth_def SIZE_MAX_def bbuff_append_def bbuff_write_def Let_def split: if_splits)
qed

text \<open>A message that has been packed into an empty buffer is unpacked to the packed value, whatever
  follows it in memory, for every serialisation whose reader inverts its writer.\<close>

theorem unpack_pack_roundtrip:
  assumes "bbuff_ok b" "contents b = []" "ser x = Some a" "deser a = Some x"
    and "length a + 8 + s_min_growth \<le> SIZE_MAX" "\<And>n. alloc n"
  shows "\<exists>b'. pack alloc ser x b = Inr b' \<and> bbuff_ok b' \<and> unpack deser (bb_data b') = Inr x"
proof -
  have s0: "bb_size b = 0" using length_contents [OF assms(1)] assms(2) by simp
  then obtain b' where b': "pack alloc ser x b = Inr b'" "bbuff_ok b'" "contents b' = size_bytes (length a) @ a"
    using pack_ok [of b ser x a alloc] assms(1-3,5,6) by auto
  have "bb_data b' = size_bytes (length a) @ a @ drop (bb_size b') (bb_data b')"
    using b'(3) append_take_drop_id [of "bb_size b'" "bb_data b'"] by (simp add: contents_def)
  with unpack_packed [of a deser x "drop (bb_size b') (bb_data b')"] assms(4,5) b' show ?thesis by auto
qed

theorem unpack_pack_roundtrip_witness:
  "\<exists>b b'. bbuff_new (\<lambda>n. True) = Inr b \<and> pack (\<lambda>n. True) Some ''hello'' b = Inr b' \<and> unpack Some (bb_data b') = Inr ''hello''"
proof -
  obtain b where b: "bbuff_new (\<lambda>n. True) = Inr b" by (simp add: bbuff_new_def)
  from unpack_pack_roundtrip [of b Some "''hello''" "''hello''" Some "\<lambda>n. True"] bbuff_new_ok [OF b] b show ?thesis
    by (auto simp: s_min_growth_def SIZE_MAX_def)
qed

end
