(* ===== verification/QV_Group.thy ===== *)
theory QV_Group
  imports QV_Bbuff QV_Discover
begin

text \<open>
  Task groups and their collectives: \<^verbatim>\<open>qvi-group.cc\<close>, \<^verbatim>\<open>qvi-group-process.h\<close>,
  \<^verbatim>\<open>qvi-group-thread.h\<close>, the buffer collectives of \<^verbatim>\<open>qvi-mpi.cc\<close> and the typed
  collectives of \<^verbatim>\<open>qvi-coll.h\<close>.

  A collective is modelled for the whole group: its arguments and results are lists indexed by rank.
  The typed collectives use a group only through its buffer collectives; that interface is the locale
  \<open>collectives\<close>, implemented by the process group and by the MPI group. MPI itself is a record of
  functions.
\<close>

section \<open>Group identifiers\<close>

text \<open>The state is the value of the static counter.\<close>

definition group_id_init :: nat where
  "group_id_init = 64"

definition next_id :: "nat \<Rightarrow> (nat \<times> nat) res" where
  "next_id group_id = (if group_id = SIZE_MAX then Inl (Rc QV_ERR_OOR) else Inr (group_id, group_id + 1))"

definition next_ids :: "nat \<Rightarrow> nat \<Rightarrow> (nat list \<times> nat) res" where
  "next_ids n group_id =
     rfold (\<lambda>i (gids, group_id). rbind (next_id group_id) (\<lambda>(gid, group_id). Inr (gids[i := gid], group_id)))
       [0..<n] (replicate n 0, group_id)"

section \<open>The process group\<close>

definition process_size :: nat where
  "process_size = 1"

definition process_rank :: nat where
  "process_rank = 0"

definition process_gather :: "(nat \<Rightarrow> bool) \<Rightarrow> nat \<Rightarrow> qvi_bbuff list \<Rightarrow> qvi_bbuff list res" where
  "process_gather alloc root txbuffs =
     (if root \<noteq> 0 \<or> process_size \<noteq> 1 then Inl Abort
      else rbind (vec_ix txbuffs process_rank) (\<lambda>txbuff. rbind (bbuff_copy alloc txbuff) (\<lambda>b. Inr [b])))"

definition process_scatter :: "(nat \<Rightarrow> bool) \<Rightarrow> nat \<Rightarrow> qvi_bbuff list \<Rightarrow> qvi_bbuff list res" where
  "process_scatter alloc root txbuffs =
     (if root \<noteq> 0 \<or> process_size \<noteq> 1 then Inl Abort
      else rbind (vec_ix txbuffs root) (\<lambda>txbuff. rbind (bbuff_copy alloc txbuff) (\<lambda>b. Inr [b])))"

section \<open>MPI groups\<close>

text \<open>
  The calls of MPI that the buffer collectives make, seen for all ranks at once (\<open>None\<close>: a code other
  than \<^verbatim>\<open>MPI_SUCCESS\<close>). \<open>mpi_gatherv\<close> takes the ranks' send buffers, the receive
  counts, the displacements and the size of the receive buffer at the root.
\<close>

record mpi_lib =
  mpi_gather :: "int list \<Rightarrow> int list option"
  mpi_gatherv :: "byte list list \<Rightarrow> int list \<Rightarrow> int list \<Rightarrow> nat \<Rightarrow> byte list option"
  mpi_scatter :: "int list \<Rightarrow> int list option"
  mpi_scatterv :: "byte list \<Rightarrow> int list \<Rightarrow> int list \<Rightarrow> byte list list option"

definition mpi_check :: "'a option \<Rightarrow> 'a res" where
  "mpi_check x = (case x of None \<Rightarrow> Inl (Rc QV_ERR_MPI) | Some y \<Rightarrow> Inr y)"

text \<open>The displacements are partial sums kept in an \<^verbatim>\<open>int\<close>; overflow is undefined.\<close>

definition add_count :: "int \<Rightarrow> int list \<times> int \<Rightarrow> (int list \<times> int) res" where
  "add_count c st =
     (case st of (displs, total_bytes) \<Rightarrow>
        if total_bytes + c \<ge> 2 ^ 31 \<or> total_bytes + c < - (2 ^ 31) then Inl Undef
        else Inr (displs @ [total_bytes], total_bytes + c))"

definition layout :: "int list \<Rightarrow> (int list \<times> int) res" where
  "layout counts = rfold add_count counts ([], 0)"

text \<open>The new buffers are cut from the flat buffer one after the other.\<close>

fun cut_buffers :: "(nat \<Rightarrow> bool) \<Rightarrow> int list \<Rightarrow> byte list \<Rightarrow> qvi_bbuff list res" where
  "cut_buffers alloc [] bytes = Inr []"
| "cut_buffers alloc (c # cs) bytes =
     (if c < 0 \<or> nat c > length bytes then Inl Undef
      else rbind (bbuff_new alloc) (\<lambda>b0.
           rbind (bbuff_append alloc (take (nat c) bytes) b0) (\<lambda>b.
           rbind (cut_buffers alloc cs (drop (nat c) bytes)) (\<lambda>bs. Inr (b # bs)))))"

definition gather_bbuffs :: "mpi_lib \<Rightarrow> (nat \<Rightarrow> bool) \<Rightarrow> nat \<Rightarrow> qvi_bbuff list \<Rightarrow> qvi_bbuff list res" where
  "gather_bbuffs M alloc root txbuffs =
     (let send_counts = map (\<lambda>b. to_int32 (bb_size b)) txbuffs
      in rbind (mpi_check (mpi_gather M send_counts)) (\<lambda>rxcounts.
         rbind (layout rxcounts) (\<lambda>(displs, total_bytes).
         if total_bytes < 0 then Inl StdExn
         else rbind (mpi_check (mpi_gatherv M (map contents txbuffs) rxcounts displs (nat total_bytes))) (\<lambda>allbytes.
              cut_buffers alloc rxcounts allbytes))))"

definition scatter_bbuffs :: "mpi_lib \<Rightarrow> (nat \<Rightarrow> bool) \<Rightarrow> nat \<Rightarrow> qvi_bbuff list \<Rightarrow> qvi_bbuff list res" where
  "scatter_bbuffs M alloc root txbuffs =
     (let txcounts = map (\<lambda>b. to_int32 (bb_size b)) txbuffs
      in rbind (layout txcounts) (\<lambda>(displs, total_bytes).
         if total_bytes < 0 then Inl StdExn
         else let txbytes = concat (map contents txbuffs)
              in rbind (mpi_check (mpi_scatter M txcounts)) (\<lambda>rxcounts.
                 rbind (mpi_check (mpi_scatterv M txbytes txcounts displs)) (\<lambda>mybytes.
                 rmap (\<lambda>bs. rbind (bbuff_new alloc) (bbuff_append alloc bs)) mybytes))))"

text \<open>What MPI promises for these calls.\<close>

definition mpi_laws :: "mpi_lib \<Rightarrow> bool" where
  "mpi_laws M \<longleftrightarrow>
     (\<forall>xs. mpi_gather M xs = Some xs) \<and> (\<forall>xs. mpi_scatter M xs = Some xs) \<and>
     (\<forall>bufs counts displs. counts = map (int \<circ> length) bufs \<longrightarrow>
        displs = map (\<lambda>i. int (length (concat (take i bufs)))) [0..<length bufs] \<longrightarrow>
        mpi_gatherv M bufs counts displs (length (concat bufs)) = Some (concat bufs)) \<and>
     (\<forall>flat counts displs. length displs = length counts \<longrightarrow>
        mpi_scatterv M flat counts displs =
          Some (map (\<lambda>i. take (nat (counts ! i)) (drop (nat (displs ! i)) flat)) [0..<length counts]))"

section \<open>The collective interface\<close>

text \<open>
  \<open>gather\<close> and \<open>scatter\<close> move the contents of the buffers unchanged, rank by rank, when the buffers are
  \<open>fit\<close> for transport.
\<close>

locale collectives =
  fixes gsize :: nat
    and fit :: "qvi_bbuff list \<Rightarrow> bool"
    and root_ok :: "nat \<Rightarrow> bool"
    and cgather :: "nat \<Rightarrow> qvi_bbuff list \<Rightarrow> qvi_bbuff list res"
    and cscatter :: "nat \<Rightarrow> qvi_bbuff list \<Rightarrow> qvi_bbuff list res"
  assumes gather_contents: "root_ok root \<Longrightarrow> length bs = gsize \<Longrightarrow> fit bs \<Longrightarrow>
      \<exists>rs. cgather root bs = Inr rs \<and> map contents rs = map contents bs \<and> (\<forall>r \<in> set rs. bbuff_ok r)"
    and scatter_contents: "root_ok root \<Longrightarrow> length bs = gsize \<Longrightarrow> fit bs \<Longrightarrow>
      \<exists>rs. cscatter root bs = Inr rs \<and> map contents rs = map contents bs \<and> (\<forall>r \<in> set rs. bbuff_ok r)"

section \<open>Typed collectives\<close>

text \<open>
  \<^verbatim>\<open>qvi_coll::gather\<close>, \<^verbatim>\<open>scatter\<close> and \<^verbatim>\<open>bcast\<close> over the whole group. The
  arguments \<open>G\<close> and \<open>S\<close> are the group's buffer collectives; \<open>ser\<close> and \<open>deser\<close> the archives.
\<close>

definition pack_new :: "(nat \<Rightarrow> bool) \<Rightarrow> ('a \<Rightarrow> byte list option) \<Rightarrow> 'a \<Rightarrow> qvi_bbuff res" where
  "pack_new alloc ser x = rbind (bbuff_new alloc) (pack alloc ser x)"

definition coll_gather ::
  "(nat \<Rightarrow> bool) \<Rightarrow> ('a \<Rightarrow> byte list option) \<Rightarrow> (byte list \<Rightarrow> 'a option) \<Rightarrow>
   (nat \<Rightarrow> qvi_bbuff list \<Rightarrow> qvi_bbuff list res) \<Rightarrow> nat \<Rightarrow> nat \<Rightarrow> 'a list \<Rightarrow> 'a list res" where
  "coll_gather alloc ser deser G group_size rootid sends =
     rbind (rmap (pack_new alloc ser) sends) (\<lambda>txbuffs.
     rbind (G rootid txbuffs) (\<lambda>bbuffs.
       rmap (\<lambda>i. rbind (vec_ix bbuffs i) (\<lambda>b. unpack deser (bb_data b))) [0..<group_size]))"

definition coll_scatter ::
  "(nat \<Rightarrow> bool) \<Rightarrow> ('a \<Rightarrow> byte list option) \<Rightarrow> (byte list \<Rightarrow> 'a option) \<Rightarrow>
   (nat \<Rightarrow> qvi_bbuff list \<Rightarrow> qvi_bbuff list res) \<Rightarrow> nat \<Rightarrow> nat \<Rightarrow> 'a list \<Rightarrow> 'a list res" where
  "coll_scatter alloc ser deser S group_size rootid send =
     rbind (rmap (\<lambda>i. rbind (vec_ix send i) (pack_new alloc ser)) [0..<group_size]) (\<lambda>txbuffs.
     rbind (S rootid txbuffs) (\<lambda>rxbuffs.
       rmap (\<lambda>b. unpack deser (bb_data b)) rxbuffs))"

definition coll_bcast ::
  "(nat \<Rightarrow> bool) \<Rightarrow> ('a \<Rightarrow> byte list option) \<Rightarrow> (byte list \<Rightarrow> 'a option) \<Rightarrow>
   (nat \<Rightarrow> qvi_bbuff list \<Rightarrow> qvi_bbuff list res) \<Rightarrow> nat \<Rightarrow> nat \<Rightarrow> 'a \<Rightarrow> 'a list res" where
  "coll_bcast alloc ser deser S group_size rootid val =
     coll_scatter alloc ser deser S group_size rootid (replicate group_size val)"

section \<open>Thread groups\<close>

text \<open>
  \<^verbatim>\<open>qvi_group_thread\<close>: the number of tasks and the cache from thread ids to task indices;
  \<open>next_index\<close> is the static counter shared by all thread groups.
\<close>

record qvi_group_thread =
  m_ntasks :: nat
  m_tid2index :: "(int, nat) qvi_lru_cache"

definition qvi_group_thread_new :: "nat \<Rightarrow> qvi_group_thread" where
  "qvi_group_thread_new nthreads = \<lparr>m_ntasks = nthreads, m_tid2index = qvi_lru_cache_new (nthreads * 8)\<rparr>"

definition thread_task :: "int \<Rightarrow> nat \<Rightarrow> qvi_group_thread \<Rightarrow> (nat \<times> nat \<times> qvi_group_thread) res" where
  "thread_task mytid next_index g =
     rbind (lru_get mytid (m_tid2index g)) (\<lambda>(r, cache).
       case r of
         Some myindex \<Rightarrow>
           if myindex < m_ntasks g then Inr (myindex, next_index, g\<lparr>m_tid2index := cache\<rparr>) else Inl StdExn
       | None \<Rightarrow>
           if m_ntasks g = 0 then Inl Undef
           else let myindex = next_index mod m_ntasks g
                in rbind (lru_put mytid myindex cache) (\<lambda>cache.
                     Inr (myindex, wrap64 (next_index + 1), g\<lparr>m_tid2index := cache\<rparr>)))"

section \<open>Lemmas\<close>

lemma bbuff_append_new:
  assumes "\<And>n. alloc n" "length dat + s_min_growth \<le> SIZE_MAX"
  shows "\<exists>b. rbind (bbuff_new alloc) (bbuff_append alloc dat) = Inr b \<and> bbuff_ok b \<and> contents b = dat"
proof -
  obtain b0 where b0: "bbuff_new alloc = Inr b0" "bb_size b0 = 0" using assms(1) by (simp add: bbuff_new_def)
  from bbuff_append_ok [of b0 dat alloc] bbuff_new_ok [OF b0(1)] b0 assms show ?thesis by auto
qed

lemma bbuff_copy_ok:
  assumes "\<And>n. alloc n" "bbuff_ok b" "bb_size b + s_min_growth \<le> SIZE_MAX"
  shows "\<exists>b'. bbuff_copy alloc b = Inr b' \<and> bbuff_ok b' \<and> contents b' = contents b"
proof -
  have "length (contents b) + s_min_growth \<le> SIZE_MAX" using assms by simp
  from bbuff_append_new [of alloc "contents b", OF assms(1) this] show ?thesis
    unfolding bbuff_copy_def contents_def by (cases "bbuff_new alloc") auto
qed

definition fit_process :: "qvi_bbuff list \<Rightarrow> bool" where
  "fit_process bs \<longleftrightarrow> (\<forall>b \<in> set bs. bbuff_ok b \<and> bb_size b + s_min_growth \<le> SIZE_MAX)"

definition fit_mpi :: "qvi_bbuff list \<Rightarrow> bool" where
  "fit_mpi bs \<longleftrightarrow> (\<forall>b \<in> set bs. bbuff_ok b) \<and> sum_list (map bb_size bs) < 2 ^ 31"

lemma process_collective:
  assumes "\<And>n. alloc n" "root = 0" "length bs = process_size" "fit_process bs"
  shows "\<exists>rs. process_gather alloc root bs = Inr rs \<and> map contents rs = map contents bs \<and> (\<forall>r \<in> set rs. bbuff_ok r)"
    and "\<exists>rs. process_scatter alloc root bs = Inr rs \<and> map contents rs = map contents bs \<and> (\<forall>r \<in> set rs. bbuff_ok r)"
proof -
  obtain b where b: "bs = [b]" using assms(3) by (auto simp: process_size_def length_Suc_conv)
  from bbuff_copy_ok [of alloc b, OF assms(1)] assms(4) b obtain b' where
    "bbuff_copy alloc b = Inr b'" "bbuff_ok b'" "contents b' = contents b" by (auto simp: fit_process_def)
  then show "\<exists>rs. process_gather alloc root bs = Inr rs \<and> map contents rs = map contents bs \<and> (\<forall>r \<in> set rs. bbuff_ok r)"
    "\<exists>rs. process_scatter alloc root bs = Inr rs \<and> map contents rs = map contents bs \<and> (\<forall>r \<in> set rs. bbuff_ok r)"
    using b assms(2) by (auto simp: process_gather_def process_scatter_def process_size_def process_rank_def vec_ix_def)
qed

interpretation process: collectives process_size fit_process "\<lambda>root. root = 0"
  "process_gather (\<lambda>n. True)" "process_scatter (\<lambda>n. True)"
  by unfold_locales (use process_collective [of "\<lambda>n. True"] in auto)

lemma layout_sums:
  "sum_list (map length bufs) < 2 ^ 31 \<Longrightarrow>
    layout (map (int \<circ> length) bufs) =
      Inr (map (\<lambda>i. int (length (concat (take i bufs)))) [0..<length bufs], int (length (concat bufs)))"
proof (induction bufs rule: rev_induct)
  case (snoc b bufs)
  then have lt: "length (concat bufs) + length b < 2 ^ 31" by (simp add: length_concat)
  then have "int (length (concat bufs)) + int (length b) < 2 ^ 31" by simp
  with snoc show ?case
    by (simp add: layout_def rfold_append add_count_def length_concat)
qed (simp add: layout_def)

lemma cut_buffers_concat:
  assumes "\<And>n. alloc n" "length (concat bufs) < 2 ^ 31"
  shows "\<exists>rs. cut_buffers alloc (map (int \<circ> length) bufs) (concat bufs) = Inr rs \<and> map contents rs = bufs \<and>
    (\<forall>r \<in> set rs. bbuff_ok r)"
  using assms(2)
proof (induction bufs)
  case (Cons b bufs)
  have "length b + s_min_growth \<le> SIZE_MAX" using Cons.prems by (simp add: s_min_growth_def SIZE_MAX_def)
  from bbuff_append_new [of alloc b, OF assms(1) this] obtain b' where
    b': "rbind (bbuff_new alloc) (bbuff_append alloc b) = Inr b'" "bbuff_ok b'" "contents b' = b" by blast
  then obtain b0 where "bbuff_new alloc = Inr b0" "bbuff_append alloc b b0 = Inr b'" by (auto simp: rc_simps)
  with Cons b' show ?case by auto
qed simp

lemma contents_counts:
  assumes "fit_mpi bs"
  shows "map (\<lambda>b. to_int32 (bb_size b)) bs = map (int \<circ> length) (map contents bs)"
    "sum_list (map length (map contents bs)) < 2 ^ 31"
proof -
  have "bb_size b < 2 ^ 31" if "b \<in> set bs" for b
    using member_le_sum_list [of "bb_size b" "map bb_size bs"] that assms by (auto simp: fit_mpi_def)
  then show "map (\<lambda>b. to_int32 (bb_size b)) bs = map (int \<circ> length) (map contents bs)"
    using assms by (auto simp: fit_mpi_def)
  have "map length (map contents bs) = map bb_size bs" using assms by (auto simp: fit_mpi_def)
  then show "sum_list (map length (map contents bs)) < 2 ^ 31" using assms by (simp only: fit_mpi_def)
qed

lemma take_drop_concat:
  "i < length bufs \<Longrightarrow> take (length (bufs ! i)) (drop (length (concat (take i bufs))) (concat bufs)) = bufs ! i"
proof -
  assume i: "i < length bufs"
  have "concat bufs = concat (take i bufs) @ bufs ! i @ concat (drop (Suc i) bufs)"
    using i by (metis concat_append concat.simps(2) id_take_nth_drop)
  then show ?thesis by (metis append_eq_conv_conj)
qed

lemma gather_bbuffs_ok:
  assumes "mpi_laws M" "\<And>n. alloc n" "fit_mpi bs"
  shows "\<exists>rs. gather_bbuffs M alloc root bs = Inr rs \<and> map contents rs = map contents bs \<and> (\<forall>r \<in> set rs. bbuff_ok r)"
proof -
  note c = contents_counts [OF assms(3)]
  have g: "mpi_gather M xs = Some xs" for xs using assms(1) by (simp add: mpi_laws_def)
  have gv: "mpi_gatherv M (map contents bs) (map (int \<circ> length) (map contents bs))
     (map (\<lambda>i. int (length (concat (take i (map contents bs))))) [0..<length (map contents bs)])
     (length (concat (map contents bs))) = Some (concat (map contents bs))"
    using assms(1) unfolding mpi_laws_def by blast
  have "length (concat (map contents bs)) < 2 ^ 31" using c(2) by (simp add: length_concat)
  from cut_buffers_concat [of alloc, OF assms(2) this] show ?thesis
    using layout_sums [OF c(2)] gv
    by (simp add: gather_bbuffs_def c(1) g mpi_check_def del: map_map)
qed

lemma scatter_bbuffs_ok:
  assumes "mpi_laws M" "\<And>n. alloc n" "fit_mpi bs"
  shows "\<exists>rs. scatter_bbuffs M alloc root bs = Inr rs \<and> map contents rs = map contents bs \<and> (\<forall>r \<in> set rs. bbuff_ok r)"
proof -
  let ?bufs = "map contents bs"
  note c = contents_counts [OF assms(3)]
  have g: "mpi_scatter M xs = Some xs" for xs using assms(1) by (simp add: mpi_laws_def)
  have sv: "mpi_scatterv M flat counts displs =
     Some (map (\<lambda>i. take (nat (counts ! i)) (drop (nat (displs ! i)) flat)) [0..<length counts])"
    if "length displs = length counts" for flat counts displs
    using assms(1) that unfolding mpi_laws_def by blast
  have "map (\<lambda>i. take (nat (map (int \<circ> length) ?bufs ! i))
       (drop (nat (map (\<lambda>i. int (length (concat (take i ?bufs)))) [0..<length ?bufs] ! i)) (concat ?bufs))) [0..<length ?bufs] = ?bufs"
    using take_drop_concat [of _ ?bufs] by (intro nth_equalityI) auto
  then have cut: "mpi_scatterv M (concat ?bufs) (map (int \<circ> length) ?bufs)
      (map (\<lambda>i. int (length (concat (take i ?bufs)))) [0..<length ?bufs]) = Some ?bufs"
    using sv [of "map (\<lambda>i. int (length (concat (take i ?bufs)))) [0..<length ?bufs]" "map (int \<circ> length) ?bufs" "concat ?bufs"]
    by simp
  have ex: "\<exists>r. rbind (bbuff_new alloc) (bbuff_append alloc x) = Inr r \<and> bbuff_ok r \<and> contents r = x" if "x \<in> set ?bufs" for x
  proof -
    have "length x \<le> sum_list (map length ?bufs)" using that by (auto intro: member_le_sum_list)
    then have "length x + s_min_growth \<le> SIZE_MAX" using c(2) by (simp add: s_min_growth_def SIZE_MAX_def)
    then show ?thesis using bbuff_append_new [of alloc x, OF assms(2)] by blast
  qed
  then obtain f where f: "\<And>x. x \<in> set ?bufs \<Longrightarrow> rbind (bbuff_new alloc) (bbuff_append alloc x) = Inr (f x) \<and> bbuff_ok (f x) \<and> contents (f x) = x"
    by metis
  have "rmap (\<lambda>x. rbind (bbuff_new alloc) (bbuff_append alloc x)) ?bufs = Inr (map f ?bufs)"
    using f by (intro rmap_total) blast
  then have "scatter_bbuffs M alloc root bs = Inr (map f ?bufs)"
    using layout_sums [OF c(2)] cut by (simp add: scatter_bbuffs_def c(1) g mpi_check_def del: map_map)
  moreover have "map contents (map f ?bufs) = ?bufs" using f by (auto intro!: map_idI)
  ultimately show ?thesis using f by auto
qed

lemma mpi_collectives:
  assumes "mpi_laws M" "\<And>n. alloc n"
  shows "collectives n fit_mpi (\<lambda>root. True) (gather_bbuffs M alloc) (scatter_bbuffs M alloc)"
  by unfold_locales (use gather_bbuffs_ok [of M alloc, OF assms] scatter_bbuffs_ok [of M alloc, OF assms] in auto)

definition message :: "byte list \<Rightarrow> byte list" where
  "message a = size_bytes (length a) @ a"

text \<open>The archives of the sent values: the reader inverts the writer, and a message fits the address space.\<close>

definition archives_ok :: "('a \<Rightarrow> byte list option) \<Rightarrow> (byte list \<Rightarrow> 'a option) \<Rightarrow> 'a list \<Rightarrow> bool" where
  "archives_ok ser deser xs \<longleftrightarrow>
     (\<forall>x \<in> set xs. \<exists>a. ser x = Some a \<and> deser a = Some x \<and> length a + 8 + s_min_growth \<le> SIZE_MAX)"

lemma pack_new_ok:
  assumes "\<And>n. alloc n" "archives_ok ser deser xs" "x \<in> set xs"
  shows "\<exists>b. pack_new alloc ser x = Inr b \<and> bbuff_ok b \<and> contents b = message (the (ser x))"
proof -
  obtain a where a: "ser x = Some a" "length a + 8 + s_min_growth \<le> SIZE_MAX"
    using assms(2,3) by (auto simp: archives_ok_def)
  obtain b0 where b0: "bbuff_new alloc = Inr b0" "bb_size b0 = 0" using assms(1) by (simp add: bbuff_new_def)
  from pack_ok [of b0 ser x a alloc] bbuff_new_ok [OF b0(1)] a b0 assms(1) show ?thesis
    by (auto simp: pack_new_def message_def)
qed

lemma unpack_contents:
  assumes "archives_ok ser deser xs" "x \<in> set xs" "contents b = message (the (ser x))"
  shows "unpack deser (bb_data b) = Inr x"
proof -
  obtain a where a: "ser x = Some a" "deser a = Some x" "length a + 8 + s_min_growth \<le> SIZE_MAX"
    using assms(1,2) by (auto simp: archives_ok_def)
  have "bb_data b = size_bytes (length a) @ a @ drop (bb_size b) (bb_data b)"
    using assms(3) a(1) append_take_drop_id [of "bb_size b" "bb_data b"] by (simp add: contents_def message_def)
  with unpack_packed [of a deser x "drop (bb_size b) (bb_data b)"] a show ?thesis by auto
qed

context collectives
begin

text \<open>Typed collectives deliver the values: proved once for every group that implements the interface.\<close>

lemma typed_collectives:
  assumes r: "root_ok root" and len: "length xs = gsize" and al: "\<And>n. alloc n" and ar: "archives_ok ser deser xs"
    and fits: "\<And>bs. \<forall>b \<in> set bs. bbuff_ok b \<Longrightarrow> map contents bs = map (\<lambda>x. message (the (ser x))) xs \<Longrightarrow> fit bs"
  shows "coll_gather alloc ser deser cgather gsize root xs = Inr xs"
    and "coll_scatter alloc ser deser cscatter gsize root xs = Inr xs"
proof -
  obtain p where p: "\<And>x. x \<in> set xs \<Longrightarrow> pack_new alloc ser x = Inr (p x) \<and> bbuff_ok (p x) \<and> contents (p x) = message (the (ser x))"
    using pack_new_ok [of alloc ser deser xs, OF al ar] by metis
  have m: "map contents (map p xs) = map (\<lambda>x. message (the (ser x))) xs" "length (map p xs) = gsize"
    using p len by auto
  have ft: "fit (map p xs)" using p m(1) by (intro fits) auto
  have pk: "rmap (pack_new alloc ser) xs = Inr (map p xs)" using p by (intro rmap_total) blast
  have un: "unpack deser (bb_data b) = Inr (xs ! i)" if "map contents bs = map contents (map p xs)" "i < length xs" "b = bs ! i" for bs i b
  proof -
    have "length bs = length xs" using that(1) by (metis length_map)
    then have "contents b = message (the (ser (xs ! i)))"
      using that m(1) by (metis (no_types, lifting) nth_map)
    then show ?thesis using unpack_contents [OF ar] that(2) by auto
  qed
  obtain rs where rs: "cgather root (map p xs) = Inr rs" "map contents rs = map contents (map p xs)"
    using gather_contents [OF r m(2) ft] by blast
  have lr: "length rs = length xs" using rs(2) by (metis length_map)
  have "rmap (\<lambda>i. rbind (vec_ix rs i) (\<lambda>b. unpack deser (bb_data b))) [0..<gsize] = Inr (map (nth xs) [0..<gsize])"
    using un [OF rs(2)] len lr by (intro rmap_total) (auto simp: vec_ix_def)
  then show "coll_gather alloc ser deser cgather gsize root xs = Inr xs"
    using pk rs(1) map_nth [of xs, unfolded len] by (simp add: coll_gather_def)
  obtain ts where ts: "cscatter root (map p xs) = Inr ts" "map contents ts = map contents (map p xs)"
    using scatter_contents [OF r m(2) ft] by blast
  have lt: "length ts = length xs" using ts(2) by (metis length_map)
  have "rmap (\<lambda>i. rbind (vec_ix xs i) (pack_new alloc ser)) [0..<gsize] = Inr (map (\<lambda>i. p (xs ! i)) [0..<gsize])"
    using p len by (intro rmap_total) (auto simp: vec_ix_def)
  also have "map (\<lambda>i. p (xs ! i)) [0..<gsize] = map p xs"
    using len by (intro nth_equalityI) auto
  finally have pk2: "rmap (\<lambda>i. rbind (vec_ix xs i) (pack_new alloc ser)) [0..<gsize] = Inr (map p xs)" .
  have "rmap (\<lambda>b. unpack deser (bb_data b)) ts = Inr xs"
    using un [OF ts(2)] lt by (simp add: rmap_Inr_iff)
  then show "coll_scatter alloc ser deser cscatter gsize root xs = Inr xs"
    using pk2 ts(1) by (simp add: coll_scatter_def)
qed

end

lemma next_ids_loop:
  assumes "k \<le> n" "g + k \<le> SIZE_MAX"
  shows "rfold (\<lambda>i (gids, group_id). rbind (next_id group_id) (\<lambda>(gid, group_id). Inr (gids[i := gid], group_id)))
       [0..<k] (replicate n 0, g) = Inr ([g..<g + k] @ replicate (n - k) 0, g + k)"
  using assms
proof (induction k)
  case (Suc k)
  then have "n - k = Suc (n - Suc k)" by simp
  with Suc show ?case by (simp add: rfold_append next_id_def list_update_append)
qed simp

definition thread_group_ok :: "qvi_group_thread \<Rightarrow> bool" where
  "thread_group_ok g \<longleftrightarrow> 0 < m_ntasks g \<and> lru_ok (m_tid2index g) \<and>
     (\<forall>(t, i) \<in> set (lru_abs (m_tid2index g)). i < m_ntasks g)"

lemma thread_task_ok:
  assumes ok: "thread_group_ok g"
  shows "\<exists>i nx g'. thread_task tid next_index g = Inr (i, nx, g') \<and> i < m_ntasks g \<and> thread_group_ok g' \<and>
    m_ntasks g' = m_ntasks g \<and>
    (case map_of (lru_abs (m_tid2index g)) tid of
       Some j \<Rightarrow> i = j \<and> nx = next_index
     | None \<Rightarrow> i = next_index mod m_ntasks g \<and> nx = wrap64 (next_index + 1)) \<and>
    map_of (lru_abs (m_tid2index g')) tid = Some i"
proof -
  let ?c = "m_tid2index g"
  have c: "lru_ok ?c" "0 < m_ntasks g" "\<forall>(t, i) \<in> set (lru_abs ?c). i < m_ntasks g"
    using ok by (auto simp: thread_group_ok_def)
  obtain r c1 where get: "lru_get tid ?c = Inr (r, c1)" "lru_ok c1" "spec_get tid (lru_abs ?c) = (r, lru_abs c1)"
    "m_capacity c1 = m_capacity ?c"
    using lru_get_refines [OF c(1)] by metis
  show ?thesis
  proof (cases "map_of (lru_abs ?c) tid")
    case None
    then have r: "r = None" "lru_abs c1 = lru_abs ?c" using get(3) by (auto simp: spec_get_def)
    let ?i = "next_index mod m_ntasks g"
    obtain c2 where put: "lru_put tid ?i c1 = Inr c2" "lru_ok c2" "lru_abs c2 = spec_put (m_capacity c1) tid ?i (lru_abs c1)"
      using lru_put_refines [OF get(2)] by metis
    have i: "?i < m_ntasks g" using c(2) by simp
    have cap: "0 < m_capacity c1" using get(2) by (simp add: lru_ok_def)
    have sub: "set (lru_abs c2) \<subseteq> insert (tid, ?i) (set (lru_abs ?c))"
      unfolding put(3) spec_put_def r(2) by (auto dest: in_set_takeD)
    have "map_of (lru_abs c2) tid = Some ?i" using cap by (cases "m_capacity c1") (auto simp: put(3) spec_put_def)
    moreover have "\<forall>(t, j) \<in> set (lru_abs c2). j < m_ntasks g" using sub c(3) i by auto
    ultimately show ?thesis
      using get put r None c(2) i by (auto simp: thread_task_def thread_group_ok_def Let_def)
  next
    case (Some j)
    then have r: "r = Some j" "lru_abs c1 = (tid, j) # filter (\<lambda>(k, _). k \<noteq> tid) (lru_abs ?c)"
      using get(3) by (auto simp: spec_get_def)
    have j: "j < m_ntasks g" using c(3) map_of_SomeD [OF Some] by auto
    have "\<forall>(t, j) \<in> set (lru_abs c1). j < m_ntasks g" using c(3) j by (auto simp: r(2))
    with get r Some j c(2) show ?thesis by (auto simp: thread_task_def thread_group_ok_def)
  qed
qed

lemma mpi_typed_transfer:
  assumes "mpi_laws M" "\<And>n. alloc n" "archives_ok ser deser xs"
    and "sum_list (map (\<lambda>x. length (the (ser x)) + 8) xs) < 2 ^ 31"
  shows "coll_gather alloc ser deser (gather_bbuffs M alloc) (length xs) root xs = Inr xs \<and>
    coll_scatter alloc ser deser (scatter_bbuffs M alloc) (length xs) root xs = Inr xs"
proof -
  have fits: "fit_mpi bs" if "\<forall>b \<in> set bs. bbuff_ok b" "map contents bs = map (\<lambda>x. message (the (ser x))) xs" for bs
  proof -
    have "map bb_size bs = map length (map contents bs)" using that(1) by auto
    also have "\<dots> = map (\<lambda>x. length (the (ser x)) + 8) xs" unfolding that(2) by (simp add: message_def add.commute)
    finally show ?thesis using that(1) assms(4) by (simp add: fit_mpi_def)
  qed
  note c = mpi_collectives [of M alloc "length xs", OF assms(1,2)]
  show ?thesis
    using collectives.typed_collectives [OF c, where root = root and xs = xs and alloc = alloc and ser = ser and deser = deser]
      assms(2,3) fits by blast
qed

lemma process_typed_transfer:
  assumes "\<And>n. alloc n" "archives_ok ser deser xs" "length xs = process_size"
  shows "coll_gather alloc ser deser (process_gather alloc) process_size 0 xs = Inr xs \<and>
    coll_scatter alloc ser deser (process_scatter alloc) process_size 0 xs = Inr xs"
proof -
  have c: "collectives process_size fit_process (\<lambda>root. root = 0) (process_gather alloc) (process_scatter alloc)"
    by unfold_locales (use process_collective [of alloc, OF assms(1)] in auto)
  have fits: "fit_process bs" if "\<forall>b \<in> set bs. bbuff_ok b" "map contents bs = map (\<lambda>x. message (the (ser x))) xs" for bs
  proof -
    have "bb_size b + s_min_growth \<le> SIZE_MAX" if "b \<in> set bs" for b
    proof -
      from that \<open>map contents bs = _\<close> obtain x where "x \<in> set xs" "contents b = message (the (ser x))"
        by (metis (no_types, lifting) imageE image_eqI list.set_map)
      then show ?thesis using length_contents [of b] \<open>\<forall>b \<in> set bs. bbuff_ok b\<close> that assms(2)
        by (fastforce simp: message_def archives_ok_def)
    qed
    then show ?thesis using that(1) by (auto simp: fit_process_def)
  qed
  show ?thesis
    using collectives.typed_collectives [OF c, where root = 0 and xs = xs and alloc = alloc and ser = ser and deser = deser]
      assms fits by blast
qed

section \<open>Properties\<close>

text \<open>C30: the typed collectives over an MPI group deliver every value: gathering hands the root the values
  of all ranks in rank order, and scattering hands every rank its own value. The flattened buffers are cut
  at the computed displacements without reading beyond them.\<close>

theorem mpi_typed_collectives:
  assumes "mpi_laws M" "\<And>n. alloc n" "archives_ok ser deser xs"
    and "sum_list (map (\<lambda>x. length (the (ser x)) + 8) xs) < 2 ^ 31"
  shows "coll_gather alloc ser deser (gather_bbuffs M alloc) (length xs) root xs = Inr xs \<and>
    coll_scatter alloc ser deser (scatter_bbuffs M alloc) (length xs) root xs = Inr xs"
  by (rule mpi_typed_transfer [of M alloc, OF assms])

definition demo_mpi :: mpi_lib where
  "demo_mpi =
     \<lparr>mpi_gather = Some, mpi_gatherv = (\<lambda>bufs counts displs total. Some (concat bufs)), mpi_scatter = Some,
      mpi_scatterv = (\<lambda>flat counts displs.
        Some (map (\<lambda>i. take (nat (counts ! i)) (drop (nat (displs ! i)) flat)) [0..<length counts]))\<rparr>"

lemma demo_mpi_laws: "mpi_laws demo_mpi"
  by (simp add: mpi_laws_def demo_mpi_def)

theorem mpi_typed_collectives_witness:
  "coll_gather (\<lambda>n. True) Some Some (gather_bbuffs demo_mpi (\<lambda>n. True)) (length [''ab'', ''c'']) 0 [''ab'', ''c''] = Inr [''ab'', ''c'']"
  by (rule mpi_typed_collectives [THEN conjunct1, OF demo_mpi_laws])
     (simp_all add: archives_ok_def s_min_growth_def SIZE_MAX_def)

text \<open>The same for the process group, whose only member is the root: the value comes back, and a
  broadcast is the identity. Any other root is an internal error.\<close>

theorem process_typed_collectives:
  assumes "archives_ok ser deser [x]"
  shows "coll_gather (\<lambda>n. True) ser deser (process_gather (\<lambda>n. True)) process_size 0 [x] = Inr [x] \<and>
    coll_bcast (\<lambda>n. True) ser deser (process_scatter (\<lambda>n. True)) process_size 0 x = Inr [x] \<and>
    (\<forall>root bs. root \<noteq> 0 \<longrightarrow> process_gather (\<lambda>n. True) root bs = Inl Abort)"
  using process_typed_transfer [of "\<lambda>n. True" ser deser "[x]"] assms
  by (simp add: coll_bcast_def process_size_def process_gather_def)

theorem process_typed_collectives_witness:
  "coll_gather (\<lambda>n. True) Some Some (process_gather (\<lambda>n. True)) process_size 0 [''pool''] = Inr [''pool'']"
  using process_typed_collectives [of Some Some "''pool''"]
  by (simp add: archives_ok_def s_min_growth_def SIZE_MAX_def)

text \<open>Group identifiers are consecutive and never repeat until the 64-bit space is exhausted, which
  is reported as an error; none collides with the identifiers below 64 reserved for intrinsic groups.\<close>

theorem next_ids_fresh:
  assumes "group_id_init \<le> g" "g + n \<le> SIZE_MAX"
  shows "next_ids n g = Inr ([g..<g + n], g + n) \<and> distinct [g..<g + n] \<and>
    (\<forall>i \<in> set [g..<g + n]. 64 \<le> i \<and> i < g + n) \<and> next_id SIZE_MAX = Inl (Rc QV_ERR_OOR)"
  using next_ids_loop [of n n g] assms by (auto simp: next_ids_def next_id_def group_id_init_def)

theorem next_ids_fresh_witness: "next_ids 3 64 = Inr ([64..<67], 67)"
  using next_ids_fresh [of 64 3] by (simp add: group_id_init_def SIZE_MAX_def)

text \<open>In a thread group every thread is given a valid task index; a thread that is still cached keeps
  its index, a new one gets the next index round robin, and either way the thread is cached afterwards.\<close>

theorem thread_task_index:
  assumes "thread_group_ok g"
  shows "\<exists>i nx g'. thread_task tid next_index g = Inr (i, nx, g') \<and> i < m_ntasks g \<and> thread_group_ok g' \<and>
    (case map_of (lru_abs (m_tid2index g)) tid of
       Some j \<Rightarrow> i = j \<and> nx = next_index
     | None \<Rightarrow> i = next_index mod m_ntasks g \<and> nx = wrap64 (next_index + 1)) \<and>
    map_of (lru_abs (m_tid2index g')) tid = Some i"
  using thread_task_ok [OF assms] by metis

theorem thread_task_index_witness:
  "\<exists>i nx g'. thread_task 42 5 (qvi_group_thread_new 4) = Inr (i, nx, g') \<and> i < 4"
proof -
  have "thread_group_ok (qvi_group_thread_new 4)" "m_ntasks (qvi_group_thread_new 4) = 4"
    using lru_ok_new [of 32] by (auto simp: thread_group_ok_def qvi_group_thread_new_def)
  with thread_task_index [of "qvi_group_thread_new 4" 42 5] show ?thesis by fastforce
qed

end
