(* ===== verification/QV_Rmi.thy ===== *)
theory QV_Rmi
  imports QV_Bbuff QV_Hwpool QV_Discover
begin

text \<open>
  Remote method invocation between the tasks and the daemon: \<^verbatim>\<open>qvi-rmi.cc\<close> and
  \<^verbatim>\<open>qvi-rmi.h\<close>. Messages are byte lists: a four-byte function id followed by a packed archive.
  The server's handlers, its dispatch table and its main loop are modelled with the operating system's
  CPU bindings as the state they act on; the client's stubs exchange messages over a socket.

  The code behind the calls that is not part of the repository is a parameter: the cereal archives
  (\<open>archive\<close>), hwloc (\<open>hwloc_lib\<close>), the scheduler behind \<^verbatim>\<open>hwloc_set_proc_cpubind\<close>, and
  ZeroMQ (what a send returns, what a poll reports, what a receive yields).
\<close>

section \<open>Messages\<close>

datatype qvi_rmi_rpc_fid_t =
    QVI_RMI_FID_INVALID
  | QVI_RMI_FID_SERVER_SHUTDOWN
  | QVI_RMI_FID_HELLO
  | QVI_RMI_FID_GET_CPUBIND
  | QVI_RMI_FID_SET_CPUBIND
  | QVI_RMI_FID_OBJ_TYPE_DEPTH
  | QVI_RMI_FID_GET_NOBJS_IN_CPUSET
  | QVI_RMI_FID_GET_CPUSET_FOR_NOBJS
  | QVI_RMI_FID_GET_DEVICE_IN_CPUSET
  | QVI_RMI_FID_GET_INTRINSIC_HWPOOL

fun fid_code :: "qvi_rmi_rpc_fid_t \<Rightarrow> nat" where
  "fid_code QVI_RMI_FID_INVALID = 0"
| "fid_code QVI_RMI_FID_SERVER_SHUTDOWN = 1"
| "fid_code QVI_RMI_FID_HELLO = 2"
| "fid_code QVI_RMI_FID_GET_CPUBIND = 3"
| "fid_code QVI_RMI_FID_SET_CPUBIND = 4"
| "fid_code QVI_RMI_FID_OBJ_TYPE_DEPTH = 5"
| "fid_code QVI_RMI_FID_GET_NOBJS_IN_CPUSET = 6"
| "fid_code QVI_RMI_FID_GET_CPUSET_FOR_NOBJS = 7"
| "fid_code QVI_RMI_FID_GET_DEVICE_IN_CPUSET = 8"
| "fid_code QVI_RMI_FID_GET_INTRINSIC_HWPOOL = 9"

text \<open>Intrinsic scopes; \<open>QV_SCOPE_OTHER\<close> stands for any other value of the enumeration's integer type.\<close>

datatype qv_scope_intrinsic_t =
  QV_SCOPE_SYSTEM | QV_SCOPE_USER | QV_SCOPE_JOB | QV_SCOPE_PROCESS | QV_SCOPE_OTHER

text \<open>The values that travel in messages, and their types.\<close>

datatype rpc_val =
    Vrc qv_rc
  | Vint int
  | Vsize nat
  | Vflags int
  | Vpid int
  | Vpids "int list"
  | Vobj qv_hw_obj_type_t
  | Viscope qv_scope_intrinsic_t
  | Vdevid qv_device_id_type_t
  | Vbitmap bitmap
  | Vstr string
  | Vpool qvi_hwpool

datatype rpc_ty = Trc | Tint | Tsize | Tflags | Tpid | Tpids | Tobj | Tiscope | Tdevid | Tbitmap | Tstr | Tpool

fun ty_of :: "rpc_val \<Rightarrow> rpc_ty" where
  "ty_of (Vrc x) = Trc"
| "ty_of (Vint x) = Tint"
| "ty_of (Vsize x) = Tsize"
| "ty_of (Vflags x) = Tflags"
| "ty_of (Vpid x) = Tpid"
| "ty_of (Vpids x) = Tpids"
| "ty_of (Vobj x) = Tobj"
| "ty_of (Viscope x) = Tiscope"
| "ty_of (Vdevid x) = Tdevid"
| "ty_of (Vbitmap x) = Tbitmap"
| "ty_of (Vstr x) = Tstr"
| "ty_of (Vpool x) = Tpool"

record archive =
  ar_save :: "rpc_val list \<Rightarrow> byte list option"
  ar_load :: "rpc_ty list \<Rightarrow> byte list \<Rightarrow> rpc_val list option"

text \<open>What the code runs in: memory, archives, hwloc, the scheduler, and the version the build was given.\<close>

record rmi_env =
  e_alloc :: "nat \<Rightarrow> bool"
  e_archive :: archive
  e_lib :: hwloc_lib
  e_sched :: scheduler
  e_version :: nat

text \<open>The header is the four bytes of the function id, least significant first.\<close>

definition header_size :: nat where
  "header_size = 4"

definition header_bytes :: "nat \<Rightarrow> byte list" where
  "header_bytes fid = map (\<lambda>i. char_of (fid div 256 ^ i)) [0..<header_size]"

definition buffer_append_header :: "(nat \<Rightarrow> bool) \<Rightarrow> nat \<Rightarrow> qvi_bbuff \<Rightarrow> qvi_bbuff res" where
  "buffer_append_header alloc fid buff = bbuff_append alloc (header_bytes fid) buff"

definition data_trim :: "byte list \<Rightarrow> nat \<Rightarrow> byte list" where
  "data_trim msg trim = drop trim msg"

text \<open>Reading the header of a message that is shorter than a header is undefined.\<close>

definition unpack_msg_header :: "byte list \<Rightarrow> (nat \<times> nat) res" where
  "unpack_msg_header dat =
     (if length dat < header_size then Inl Undef else Inr (bytes_value (take header_size dat), header_size))"

text \<open>\<^verbatim>\<open>qvi_new\<close> turns an exception of the constructor into a return code.\<close>

definition rpc_pack :: "rmi_env \<Rightarrow> nat \<Rightarrow> rpc_val list \<Rightarrow> qvi_bbuff res" where
  "rpc_pack E fid args =
     rbind (qvi_catch_and_return (bbuff_new (e_alloc E))) (\<lambda>ibuff.
     rbind (buffer_append_header (e_alloc E) fid ibuff) (\<lambda>ibuff.
       pack (e_alloc E) (ar_save (e_archive E)) args ibuff))"

definition rpc_unpack :: "rmi_env \<Rightarrow> rpc_ty list \<Rightarrow> byte list \<Rightarrow> rpc_val list res" where
  "rpc_unpack E tys dat =
     rbind (unpack_msg_header dat) (\<lambda>(fid, trim). unpack (ar_load (e_archive E) tys) (data_trim dat trim))"

text \<open>\<^verbatim>\<open>zmq_send\<close> returns the number of bytes it has taken; a message that was not taken
  whole is an error.\<close>

definition zsock_send_bbuff :: "(byte list \<Rightarrow> int) \<Rightarrow> qvi_bbuff \<Rightarrow> qv_rc \<times> byte list option" where
  "zsock_send_bbuff zsend b =
     (if zsend (contents b) \<noteq> to_int32 (bb_size b) then (QV_ERR_RPC, None) else (QV_SUCCESS, Some (contents b)))"

section \<open>The server's handlers\<close>

record qvi_rmi_config =
  url :: string
  portno :: int

record qvi_rmi_server =
  srv_config :: qvi_rmi_config
  srv_hwlocs :: qvi_hwlocs

text \<open>
  A handler gets the server, the function id of the header and the body of the message, and returns a
  code, the reply, and the bindings after the call. An exception it does not catch is a failure.
\<close>

type_synonym rpc_fun = "qvi_rmi_server \<Rightarrow> nat \<Rightarrow> byte list \<Rightarrow> cpubinds \<Rightarrow> (qv_rc \<times> qvi_bbuff option \<times> cpubinds) res"

definition rpc_reply :: "rmi_env \<Rightarrow> nat \<Rightarrow> cpubinds \<Rightarrow> rpc_val list \<Rightarrow> (qv_rc \<times> qvi_bbuff option \<times> cpubinds) res" where
  "rpc_reply E fid w vals =
     (case rpc_pack E fid vals of
        Inr b \<Rightarrow> Inr (QV_SUCCESS, Some b, w)
      | Inl (Rc c) \<Rightarrow> Inr (c, None, w)
      | Inl f \<Rightarrow> Inl f)"

text \<open>The code of a call and the value it leaves: \<open>out\<close> where it has returned an error.\<close>

definition rpc_status :: "'a \<Rightarrow> 'a res \<Rightarrow> (qv_rc \<times> 'a) res" where
  "rpc_status out r =
     (case r of Inr x \<Rightarrow> Inr (QV_SUCCESS, x) | Inl (Rc c) \<Rightarrow> Inr (c, out) | Inl f \<Rightarrow> Inl f)"

definition unpack_args :: "rmi_env \<Rightarrow> rpc_ty list \<Rightarrow> byte list \<Rightarrow> rpc_val list res" where
  "unpack_args E tys input = unpack (ar_load (e_archive E) tys) input"

definition m_get_iscope_bitmap_user :: "qvi_rmi_server \<Rightarrow> int \<Rightarrow> bitmap res" where
  "m_get_iscope_bitmap_user srv flags =
     rbind (qvi_hwlocs_get (srv_hwlocs srv) flags) (\<lambda>h. Inr (topology_get_cpuset h))"

definition m_get_iscope_bitmap_job :: "hwloc_lib \<Rightarrow> qvi_rmi_server \<Rightarrow> int \<Rightarrow> int list \<Rightarrow> cpubinds \<Rightarrow> bitmap res" where
  "m_get_iscope_bitmap_job L srv flags who w =
     rbind (rmap (\<lambda>p. rbind (qvi_hwlocs_get (srv_hwlocs srv) flags) (\<lambda>h. task_get_cpubind w p)) who) (op_or L)"

definition m_get_iscope_bitmap_proc :: "qvi_rmi_server \<Rightarrow> int \<Rightarrow> int list \<Rightarrow> cpubinds \<Rightarrow> bitmap res" where
  "m_get_iscope_bitmap_proc srv flags who w =
     (if length who \<noteq> 1 then Inl Abort
      else rbind (qvi_hwlocs_get (srv_hwlocs srv) flags) (\<lambda>h. task_get_cpubind w (hd who)))"

definition iscope_bitmap ::
  "hwloc_lib \<Rightarrow> qvi_rmi_server \<Rightarrow> int \<Rightarrow> int list \<Rightarrow> qv_scope_intrinsic_t \<Rightarrow> cpubinds \<Rightarrow> bitmap res" where
  "iscope_bitmap L srv flags who iscope w =
     (case iscope of
        QV_SCOPE_SYSTEM \<Rightarrow> Inl (Rc QV_ERR_NOT_SUPPORTED)
      | QV_SCOPE_USER \<Rightarrow> m_get_iscope_bitmap_user srv flags
      | QV_SCOPE_JOB \<Rightarrow> m_get_iscope_bitmap_job L srv flags who w
      | QV_SCOPE_PROCESS \<Rightarrow> m_get_iscope_bitmap_proc srv flags who w
      | QV_SCOPE_OTHER \<Rightarrow> Inl (Rc QV_ERR_INVLD_ARG))"

definition intrinsic_hwpool ::
  "hwloc_lib \<Rightarrow> qvi_rmi_server \<Rightarrow> int \<Rightarrow> int list \<Rightarrow> qv_scope_intrinsic_t \<Rightarrow> cpubinds \<Rightarrow> qvi_hwpool res" where
  "intrinsic_hwpool L srv flags who iscope w =
     rbind (iscope_bitmap L srv flags who iscope w) (\<lambda>sbitmap.
     rbind (qvi_hwlocs_get (srv_hwlocs srv) flags) (\<lambda>h.
       Inr (populate L h sbitmap (qvi_hwpool_new {}))))"

definition s_rpc_get_intrinsic_hwpool :: "rmi_env \<Rightarrow> rpc_fun" where
  "s_rpc_get_intrinsic_hwpool E srv fid input w =
     rbind (rpc_status (qvi_hwpool_new {})
       (rbind (unpack_args E [Tflags, Tpids, Tiscope, Tflags] input) (\<lambda>args.
          case args of
            [Vflags hwloc_flags, Vpids who, Viscope iscope, Vflags scope_flags] \<Rightarrow>
              intrinsic_hwpool (e_lib E) srv hwloc_flags who iscope w
          | _ \<Rightarrow> Inl Undef))) (\<lambda>(rpcrc, hwpool).
     rpc_reply E fid w [Vrc rpcrc, Vpool hwpool])"

definition s_rpc_invalid :: "rmi_env \<Rightarrow> rpc_fun" where
  "s_rpc_invalid E srv fid input w = Inl Abort"

definition s_rpc_shutdown :: "rmi_env \<Rightarrow> rpc_fun" where
  "s_rpc_shutdown E srv fid input w =
     (case rpc_pack E fid [] of
        Inr b \<Rightarrow> Inr (QV_SUCCESS_SHUTDOWN, Some b, w)
      | Inl (Rc c) \<Rightarrow> Inr (QV_SUCCESS_SHUTDOWN, None, w)
      | Inl f \<Rightarrow> Inl f)"

text \<open>
  The greeting. When the arguments cannot be unpacked, the client's version and flags are read
  although they have no value.
\<close>

definition s_rpc_hello :: "rmi_env \<Rightarrow> rpc_fun" where
  "s_rpc_hello E srv fid input w =
     (case unpack_args E [Tsize, Tflags, Tpid] input of
        Inr [Vsize client_version, Vflags flags, Vpid whoisit] \<Rightarrow>
          rbind (qvi_hwlocs_get (srv_hwlocs srv) flags) (\<lambda>h.
            rpc_reply E fid w
              [Vrc (if e_version E \<noteq> client_version then QV_ERR_NOT_SUPPORTED else QV_SUCCESS),
               Vstr (m_topo_file h)])
      | Inr _ \<Rightarrow> Inl Undef
      | Inl (Rc c) \<Rightarrow> Inl Undef
      | Inl f \<Rightarrow> Inl f)"

definition s_rpc_get_cpubind :: "rmi_env \<Rightarrow> rpc_fun" where
  "s_rpc_get_cpubind E srv fid input w =
     rbind (rpc_status {}
       (rbind (unpack_args E [Tflags, Tpid] input) (\<lambda>args.
          case args of
            [Vflags flags, Vpid who] \<Rightarrow>
              rbind (qvi_hwlocs_get (srv_hwlocs srv) flags) (\<lambda>h. task_get_cpubind w who)
          | _ \<Rightarrow> Inl Undef))) (\<lambda>(rpcrc, bitmap).
     rpc_reply E fid w [Vrc rpcrc, Vbitmap bitmap])"

definition s_rpc_set_cpubind :: "rmi_env \<Rightarrow> rpc_fun" where
  "s_rpc_set_cpubind E srv fid input w =
     rbind (rpc_status w
       (rbind (unpack_args E [Tflags, Tpid, Tbitmap] input) (\<lambda>args.
          case args of
            [Vflags flags, Vpid who, Vbitmap cpuset] \<Rightarrow>
              rbind (qvi_hwlocs_get (srv_hwlocs srv) flags) (\<lambda>h.
                task_set_cpubind_from_cpuset (e_sched E) who cpuset w)
          | _ \<Rightarrow> Inl Undef))) (\<lambda>(rpcrc, w').
     rpc_reply E fid w' [Vrc rpcrc])"

definition s_rpc_obj_type_depth :: "rmi_env \<Rightarrow> rpc_fun" where
  "s_rpc_obj_type_depth E srv fid input w =
     rbind (rpc_status 0
       (rbind (unpack_args E [Tflags, Tobj] input) (\<lambda>args.
          case args of
            [Vflags flags, Vobj obj] \<Rightarrow>
              rbind (qvi_hwlocs_get (srv_hwlocs srv) flags) (\<lambda>h. obj_type_depth h obj)
          | _ \<Rightarrow> Inl Undef))) (\<lambda>(rpcrc, depth).
     rpc_reply E fid w [Vrc rpcrc, Vint depth])"

definition s_rpc_get_nobjs_in_cpuset :: "rmi_env \<Rightarrow> rpc_fun" where
  "s_rpc_get_nobjs_in_cpuset E srv fid input w =
     rbind (rpc_status 0
       (rbind (unpack_args E [Tflags, Tobj, Tbitmap] input) (\<lambda>args.
          case args of
            [Vflags flags, Vobj target_obj, Vbitmap cpuset] \<Rightarrow>
              rbind (qvi_hwlocs_get (srv_hwlocs srv) flags) (\<lambda>h. get_nobjs_in_cpuset (e_lib E) h target_obj cpuset)
          | _ \<Rightarrow> Inl Undef))) (\<lambda>(rpcrc, nobjs).
     rpc_reply E fid w [Vrc rpcrc, Vsize nobjs])"

text \<open>The set that a call with an error has accumulated before it stopped is sent along with the code.\<close>

fun rfold_last :: "('a \<Rightarrow> 's \<Rightarrow> 's res) \<Rightarrow> 'a list \<Rightarrow> 's \<Rightarrow> 's" where
  "rfold_last f [] s = s"
| "rfold_last f (x # xs) s = (case f x s of Inl e \<Rightarrow> s | Inr s' \<Rightarrow> rfold_last f xs s')"

definition cpuset_for_nobjs_out :: "hwloc_lib \<Rightarrow> qvi_hwloc \<Rightarrow> bitmap \<Rightarrow> qv_hw_obj_type_t \<Rightarrow> nat \<Rightarrow> bitmap" where
  "cpuset_for_nobjs_out L h cpuset obj_type nobjs =
     (case obj_type_depth h obj_type of
        Inl f \<Rightarrow> {} | Inr obj_depth \<Rightarrow> rfold_last (or_obj L h cpuset obj_depth) [0..<nobjs] {})"

definition s_rpc_get_cpuset_for_nobjs :: "rmi_env \<Rightarrow> rpc_fun" where
  "s_rpc_get_cpuset_for_nobjs E srv fid input w =
     rbind (case unpack_args E [Tflags, Tbitmap, Tobj, Tint] input of
              Inr [Vflags flags, Vbitmap cpuset, Vobj obj_type, Vint nobjs] \<Rightarrow>
                rbind (qvi_hwlocs_get (srv_hwlocs srv) flags) (\<lambda>h.
                  let n = nat (nobjs mod 2 ^ 32)
                  in rpc_status (cpuset_for_nobjs_out (e_lib E) h cpuset obj_type n)
                       (get_cpuset_for_nobjs (e_lib E) h cpuset obj_type n))
            | Inr _ \<Rightarrow> Inl Undef
            | Inl f \<Rightarrow> rpc_status {} (Inl f)) (\<lambda>(rpcrc, result).
     rpc_reply E fid w [Vrc rpcrc, Vbitmap result])"

definition s_rpc_get_device_in_cpuset :: "rmi_env \<Rightarrow> rpc_fun" where
  "s_rpc_get_device_in_cpuset E srv fid input w =
     rbind (rpc_status []
       (rbind (unpack_args E [Tflags, Tobj, Tint, Tbitmap, Tdevid] input) (\<lambda>args.
          case args of
            [Vflags flags, Vobj dev_obj, Vint dev_i, Vbitmap cpuset, Vdevid devid_type] \<Rightarrow>
              rbind (qvi_hwlocs_get (srv_hwlocs srv) flags) (\<lambda>h.
                get_device_id_in_cpuset (e_lib E) h dev_obj dev_i cpuset devid_type)
          | _ \<Rightarrow> Inl Undef))) (\<lambda>(rpcrc, devid).
     rpc_reply E fid w [Vrc rpcrc, Vstr devid])"

section \<open>Dispatch and the main loop\<close>

definition m_rpc_dispatch_table :: "rmi_env \<Rightarrow> (nat \<times> rpc_fun) list" where
  "m_rpc_dispatch_table E =
     [(fid_code QVI_RMI_FID_INVALID, s_rpc_invalid E),
      (fid_code QVI_RMI_FID_SERVER_SHUTDOWN, s_rpc_shutdown E),
      (fid_code QVI_RMI_FID_HELLO, s_rpc_hello E),
      (fid_code QVI_RMI_FID_GET_CPUBIND, s_rpc_get_cpubind E),
      (fid_code QVI_RMI_FID_SET_CPUBIND, s_rpc_set_cpubind E),
      (fid_code QVI_RMI_FID_OBJ_TYPE_DEPTH, s_rpc_obj_type_depth E),
      (fid_code QVI_RMI_FID_GET_NOBJS_IN_CPUSET, s_rpc_get_nobjs_in_cpuset E),
      (fid_code QVI_RMI_FID_GET_CPUSET_FOR_NOBJS, s_rpc_get_cpuset_for_nobjs E),
      (fid_code QVI_RMI_FID_GET_DEVICE_IN_CPUSET, s_rpc_get_device_in_cpuset E),
      (fid_code QVI_RMI_FID_GET_INTRINSIC_HWPOOL, s_rpc_get_intrinsic_hwpool E)]"

text \<open>
  One message: the code of the dispatch, the reply that was sent, and the bindings afterwards. The
  reply of a shutdown request may be missing when it could not be packed; using it is undefined.
\<close>

definition m_rpc_dispatch ::
  "rmi_env \<Rightarrow> (byte list \<Rightarrow> int) \<Rightarrow> qvi_rmi_server \<Rightarrow> byte list \<Rightarrow> cpubinds \<Rightarrow> (qv_rc \<times> byte list option \<times> cpubinds) res" where
  "m_rpc_dispatch E zsend srv msg w =
     rbind (unpack_msg_header msg) (\<lambda>(fid, trim).
       case map_of (m_rpc_dispatch_table E) fid of
         None \<Rightarrow> Inr (QV_ERR_RPC, None, w)
       | Some fidfunp \<Rightarrow>
           rbind (fidfunp srv fid (data_trim msg trim) w) (\<lambda>(rc, result, w').
             if rc \<noteq> QV_SUCCESS \<and> rc \<noteq> QV_SUCCESS_SHUTDOWN then Inr (rc, None, w')
             else case result of
                    None \<Rightarrow> Inl Undef
                  | Some b \<Rightarrow>
                      (case zsock_send_bbuff zsend b of (rc', reply) \<Rightarrow>
                         Inr (if rc = QV_SUCCESS_SHUTDOWN then QV_SUCCESS_SHUTDOWN else rc', reply, w'))))"

text \<open>
  What the server sees on its socket, poll by poll: an interruption by one of the handled signals (which
  sets the shutdown flag) or another interruption, a timeout, an error, an event other than input, an
  error of the receive, or a message. (\<^verbatim>\<open>zmq_msg_init\<close> is documented to return zero always.)
\<close>

datatype poll_event =
  Ev_signal | Ev_interrupt | Ev_timeout | Ev_poll_error | Ev_other | Ev_recv_error | Ev_message "byte list"

text \<open>Receiving: \<open>None\<close> while the server is still polling at the end of the observed events.\<close>

fun server_recv_msg :: "bool \<Rightarrow> poll_event list \<Rightarrow> (byte list res \<times> bool \<times> poll_event list) option" where
  "server_recv_msg signaled evs =
     (if signaled then Some (Inl (Rc QV_SUCCESS_SHUTDOWN), signaled, evs)
      else case evs of
             [] \<Rightarrow> None
           | Ev_signal # evs' \<Rightarrow> server_recv_msg True evs'
           | Ev_interrupt # evs' \<Rightarrow> server_recv_msg signaled evs'
           | Ev_timeout # evs' \<Rightarrow> server_recv_msg signaled evs'
           | Ev_poll_error # evs' \<Rightarrow> Some (Inl (Rc QV_ERR_RPC), signaled, evs')
           | Ev_other # evs' \<Rightarrow> server_recv_msg signaled evs'
           | Ev_recv_error # evs' \<Rightarrow> Some (Inl (Rc QV_ERR_RPC), signaled, evs')
           | Ev_message msg # evs' \<Rightarrow> Some (Inr msg, signaled, evs'))"

declare server_recv_msg.simps [simp del]

lemma server_recv_msg_events [simp]:
  "server_recv_msg True evs = Some (Inl (Rc QV_SUCCESS_SHUTDOWN), True, evs)"
  "server_recv_msg False [] = None"
  "server_recv_msg False (e # evs) =
    (case e of
       Ev_signal \<Rightarrow> server_recv_msg True evs
     | Ev_message msg \<Rightarrow> Some (Inr msg, False, evs)
     | Ev_poll_error \<Rightarrow> Some (Inl (Rc QV_ERR_RPC), False, evs)
     | Ev_recv_error \<Rightarrow> Some (Inl (Rc QV_ERR_RPC), False, evs)
     | _ \<Rightarrow> server_recv_msg False evs)"
  by (subst server_recv_msg.simps; simp split: poll_event.splits)+

lemma server_recv_msg_shorter:
  "server_recv_msg signaled evs = Some (Inr msg, signaled', evs') \<Longrightarrow> length evs' < length evs"
  by (induction evs; cases signaled) (auto split: poll_event.splits)

text \<open>The result of leaving the loop with a code: a shutdown is a success.\<close>

definition loop_exit :: "qv_rc \<Rightarrow> unit res" where
  "loop_exit rc = (if rc \<noteq> QV_SUCCESS \<and> rc \<noteq> QV_SUCCESS_SHUTDOWN then Inl (Rc rc) else Inr ())"

text \<open>
  The main loop over the observed events: the result (\<open>None\<close>: still running), the replies sent so far
  and the bindings. Their total length is the byte count that the loop logs.
\<close>

function m_enter_main_server_loop ::
  "rmi_env \<Rightarrow> (byte list \<Rightarrow> int) \<Rightarrow> qvi_rmi_server \<Rightarrow> bool \<Rightarrow> poll_event list \<Rightarrow> byte list list \<Rightarrow> cpubinds \<Rightarrow>
   unit res option \<times> byte list list \<times> cpubinds" where
  "m_enter_main_server_loop E zsend srv signaled evs sent w =
     (case server_recv_msg signaled evs of
        None \<Rightarrow> (None, sent, w)
      | Some (Inl (Rc rc), signaled', evs') \<Rightarrow> (Some (loop_exit rc), sent, w)
      | Some (Inl f, signaled', evs') \<Rightarrow> (Some (Inl f), sent, w)
      | Some (Inr mrx, signaled', evs') \<Rightarrow>
          (case m_rpc_dispatch E zsend srv mrx w of
             Inl f \<Rightarrow> (Some (Inl f), sent, w)
           | Inr (rc, reply, w') \<Rightarrow>
               let sent' = sent @ (case reply of None \<Rightarrow> [] | Some r \<Rightarrow> [r])
               in if rc = QV_SUCCESS then m_enter_main_server_loop E zsend srv signaled' evs' sent' w'
                  else (Some (loop_exit rc), sent', w')))"
  by pat_completeness auto

termination
  by (relation "measure (\<lambda>(E, zsend, srv, signaled, evs, sent, w). length evs)")
    (auto dest: server_recv_msg_shorter)

declare m_enter_main_server_loop.simps [simp del]

section \<open>The server\<close>

text \<open>The constructor initialises and loads one hwloc instance per topology type; errors are thrown.\<close>

definition throw_rc :: "'a res \<Rightarrow> 'a res" where
  "throw_rc r = (case r of Inl (Rc c) \<Rightarrow> Inl (Rterror c) | _ \<Rightarrow> r)"

definition qvi_rmi_server_new :: "bool \<Rightarrow> hwloc_lib \<Rightarrow> bool \<Rightarrow> qvi_hwloc \<Rightarrow> qvi_rmi_server res" where
  "qvi_rmi_server_new gpu_support L zctx_works hwloc0 =
     rbind (rfold (\<lambda>topo_type hwlocs.
              rbind (qvi_hwlocs_get hwlocs topo_type) (\<lambda>h.
              rbind (throw_rc (topology_init L topo_type [] h)) (\<lambda>h.
              rbind (throw_rc (topology_load gpu_support L h)) (\<lambda>h.
                Inr (om_put (and topo_type QVI_HWLOC_TOPO_MASK) h hwlocs)))))
            topo_types (qvi_hwlocs_new hwloc0)) (\<lambda>hwlocs.
     if \<not> zctx_works then Inl (Rterror QV_ERR_SYS)
     else Inr \<lparr>srv_config = \<lparr>url = [], portno = QVI_PORT_UNSET\<rparr>, srv_hwlocs = hwlocs\<rparr>)"

definition configure :: "qvi_rmi_config \<Rightarrow> qvi_rmi_server \<Rightarrow> qvi_rmi_server" where
  "configure config srv = srv\<lparr>srv_config := config\<rparr>"

definition server_topology_export :: "int \<Rightarrow> (int \<Rightarrow> export_io) \<Rightarrow> string \<Rightarrow> qvi_rmi_server \<Rightarrow> (qv_rc \<times> qvi_rmi_server) res" where
  "server_topology_export pid io base_path srv =
     rfold (\<lambda>topo_type (rc, srv).
       if rc \<noteq> QV_SUCCESS then Inr (rc, srv)
       else rbind (qvi_hwlocs_get (srv_hwlocs srv) topo_type) (\<lambda>h.
              case topology_export pid (io topo_type) base_path h of (rc', h') \<Rightarrow>
                Inr (rc', srv\<lparr>srv_hwlocs := om_put (and topo_type QVI_HWLOC_TOPO_MASK) h' (srv_hwlocs srv)\<rparr>)))
       topo_types (QV_SUCCESS, srv)"

text \<open>\<open>bind_works\<close> and \<open>linger_works\<close>: whether the socket can be created and bound to the URL, and
  whether its linger period can be set.\<close>

definition server_start ::
  "rmi_env \<Rightarrow> (byte list \<Rightarrow> int) \<Rightarrow> (string \<Rightarrow> bool) \<Rightarrow> bool \<Rightarrow> qvi_rmi_server \<Rightarrow> poll_event list \<Rightarrow> cpubinds \<Rightarrow>
   unit res option \<times> byte list list \<times> cpubinds" where
  "server_start E zsend bind_works linger_works srv evs w =
     (if \<not> bind_works (url (srv_config srv)) then (Some (Inl (Rc QV_ERR_SYS)), [], w)
      else if \<not> linger_works then (Some (Inl (Rc QV_ERR_SYS)), [], w)
      else m_enter_main_server_loop E zsend srv False evs [] w)"

section \<open>The client\<close>

text \<open>
  The client's end of a connection: for a message, what \<^verbatim>\<open>zmq_send\<close> returns, what the next
  receive yields (\<open>None\<close>: it fails, or times out), and the state of the world after the exchange.
\<close>

type_synonym 'w zsock = "byte list \<Rightarrow> 'w \<Rightarrow> int \<times> byte list option \<times> 'w"

definition rpc_req :: "rmi_env \<Rightarrow> 'w zsock \<Rightarrow> qvi_rmi_rpc_fid_t \<Rightarrow> rpc_val list \<Rightarrow> 'w \<Rightarrow> byte list option res \<times> 'w" where
  "rpc_req E zsock fid args w =
     (case rpc_pack E (fid_code fid) args of
        Inl f \<Rightarrow> (Inl f, w)
      | Inr bbuff \<Rightarrow>
          (case zsock (contents bbuff) w of (bsent, reply, w') \<Rightarrow>
             (case zsock_send_bbuff (\<lambda>dat. bsent) bbuff of (rc, sent) \<Rightarrow> (check_rc rc reply, w'))))"

definition rpc_rep :: "rmi_env \<Rightarrow> rpc_ty list \<Rightarrow> byte list option \<Rightarrow> rpc_val list res" where
  "rpc_rep E tys mrx = (case mrx of None \<Rightarrow> Inl (Rc QV_ERR_RPC) | Some msg \<Rightarrow> rpc_unpack E tys msg)"

text \<open>A request and its reply, whose first value is the return code of the remote call.\<close>

definition rpc_call ::
  "rmi_env \<Rightarrow> 'w zsock \<Rightarrow> qvi_rmi_rpc_fid_t \<Rightarrow> rpc_val list \<Rightarrow> rpc_ty list \<Rightarrow> (rpc_val list \<Rightarrow> 'a res) \<Rightarrow> 'w \<Rightarrow> 'a res \<times> 'w" where
  "rpc_call E zsock fid args tys k w =
     (case rpc_req E zsock fid args w of (r, w') \<Rightarrow>
        (rbind r (\<lambda>mrx. rbind (rpc_rep E (Trc # tys) mrx) (\<lambda>vals.
           case vals of Vrc rpcrc # rest \<Rightarrow> rbind (check_rc rpcrc rest) k | _ \<Rightarrow> Inl Undef)), w'))"

record qvi_rmi_client =
  cl_hwloc :: qvi_hwloc
  cl_config :: qvi_rmi_config
  cl_connected :: bool

definition m_hello :: "rmi_env \<Rightarrow> 'w zsock \<Rightarrow> int \<Rightarrow> nat \<Rightarrow> int \<Rightarrow> 'w \<Rightarrow> string res \<times> 'w" where
  "m_hello E zsock mytid client_version flags =
     rpc_call E zsock QVI_RMI_FID_HELLO [Vsize client_version, Vflags flags, Vpid mytid] [Tstr]
       (\<lambda>vals. case vals of [Vstr hwtopo_path] \<Rightarrow> Inr hwtopo_path | _ \<Rightarrow> Inl Undef)"

definition client_get_cpubind :: "rmi_env \<Rightarrow> 'w zsock \<Rightarrow> qvi_rmi_client \<Rightarrow> int \<Rightarrow> 'w \<Rightarrow> bitmap res \<times> 'w" where
  "client_get_cpubind E zsock cl who =
     rpc_call E zsock QVI_RMI_FID_GET_CPUBIND [Vflags (m_flags (cl_hwloc cl)), Vpid who] [Tbitmap]
       (\<lambda>vals. case vals of [Vbitmap cpuset] \<Rightarrow> Inr cpuset | _ \<Rightarrow> Inl Undef)"

definition client_set_cpubind :: "rmi_env \<Rightarrow> 'w zsock \<Rightarrow> qvi_rmi_client \<Rightarrow> int \<Rightarrow> bitmap \<Rightarrow> 'w \<Rightarrow> unit res \<times> 'w" where
  "client_set_cpubind E zsock cl who cpuset =
     rpc_call E zsock QVI_RMI_FID_SET_CPUBIND [Vflags (m_flags (cl_hwloc cl)), Vpid who, Vbitmap cpuset] []
       (\<lambda>vals. case vals of [] \<Rightarrow> Inr () | _ \<Rightarrow> Inl Undef)"

definition client_get_intrinsic_hwpool ::
  "rmi_env \<Rightarrow> 'w zsock \<Rightarrow> qvi_rmi_client \<Rightarrow> int list \<Rightarrow> qv_scope_intrinsic_t \<Rightarrow> int \<Rightarrow> 'w \<Rightarrow> qvi_hwpool res \<times> 'w" where
  "client_get_intrinsic_hwpool E zsock cl who iscope flags =
     rpc_call E zsock QVI_RMI_FID_GET_INTRINSIC_HWPOOL
       [Vflags (m_flags (cl_hwloc cl)), Vpids who, Viscope iscope, Vflags flags] [Tpool]
       (\<lambda>vals. case vals of [Vpool hwpool] \<Rightarrow> Inr hwpool | _ \<Rightarrow> Inl Undef)"

definition client_get_obj_depth :: "rmi_env \<Rightarrow> 'w zsock \<Rightarrow> qvi_rmi_client \<Rightarrow> qv_hw_obj_type_t \<Rightarrow> 'w \<Rightarrow> int res \<times> 'w" where
  "client_get_obj_depth E zsock cl type =
     rpc_call E zsock QVI_RMI_FID_OBJ_TYPE_DEPTH [Vflags (m_flags (cl_hwloc cl)), Vobj type] [Tint]
       (\<lambda>vals. case vals of [Vint depth] \<Rightarrow> Inr depth | _ \<Rightarrow> Inl Undef)"

definition client_get_nobjs_in_cpuset ::
  "rmi_env \<Rightarrow> 'w zsock \<Rightarrow> qvi_rmi_client \<Rightarrow> qv_hw_obj_type_t \<Rightarrow> bitmap \<Rightarrow> 'w \<Rightarrow> nat res \<times> 'w" where
  "client_get_nobjs_in_cpuset E zsock cl target_obj cpuset =
     rpc_call E zsock QVI_RMI_FID_GET_NOBJS_IN_CPUSET
       [Vflags (m_flags (cl_hwloc cl)), Vobj target_obj, Vbitmap cpuset] [Tsize]
       (\<lambda>vals. case vals of [Vsize nobjs] \<Rightarrow> Inr nobjs | _ \<Rightarrow> Inl Undef)"

definition client_get_device_in_cpuset ::
  "rmi_env \<Rightarrow> 'w zsock \<Rightarrow> qvi_rmi_client \<Rightarrow> qv_hw_obj_type_t \<Rightarrow> int \<Rightarrow> bitmap \<Rightarrow> qv_device_id_type_t \<Rightarrow> 'w \<Rightarrow>
   string res \<times> 'w" where
  "client_get_device_in_cpuset E zsock cl dev_obj dev_i cpuset dev_id_type =
     rpc_call E zsock QVI_RMI_FID_GET_DEVICE_IN_CPUSET
       [Vflags (m_flags (cl_hwloc cl)), Vobj dev_obj, Vint dev_i, Vbitmap cpuset, Vdevid dev_id_type] [Tstr]
       (\<lambda>vals. case vals of [Vstr devid] \<Rightarrow> Inr devid | _ \<Rightarrow> Inl Undef)"

definition client_get_cpuset_for_nobjs ::
  "rmi_env \<Rightarrow> 'w zsock \<Rightarrow> qvi_rmi_client \<Rightarrow> bitmap \<Rightarrow> qv_hw_obj_type_t \<Rightarrow> int \<Rightarrow> 'w \<Rightarrow> bitmap res \<times> 'w" where
  "client_get_cpuset_for_nobjs E zsock cl cpuset obj_type nobjs =
     rpc_call E zsock QVI_RMI_FID_GET_CPUSET_FOR_NOBJS
       [Vflags (m_flags (cl_hwloc cl)), Vbitmap cpuset, Vobj obj_type, Vint nobjs] [Tbitmap]
       (\<lambda>vals. case vals of [Vbitmap result] \<Rightarrow> Inr result | _ \<Rightarrow> Inl Undef)"

definition send_shutdown_message :: "rmi_env \<Rightarrow> 'w zsock \<Rightarrow> 'w \<Rightarrow> unit res \<times> 'w" where
  "send_shutdown_message E zsock w =
     (case rpc_req E zsock QVI_RMI_FID_SERVER_SHUTDOWN [] w of (r, w') \<Rightarrow> (rbind r (\<lambda>mrx. Inr ()), w'))"

text \<open>Connecting: which of the ZeroMQ calls succeed, in the order in which they are made.\<close>

record conn_io =
  ctx_works :: bool
  socket_works :: bool
  connect_works :: bool
  setsockopt_works :: bool

definition QV_SCOPE_FLAG_NO_SMT :: int where
  "QV_SCOPE_FLAG_NO_SMT = 1"

definition connect ::
  "rmi_env \<Rightarrow> bool \<Rightarrow> conn_io \<Rightarrow> 'w zsock \<Rightarrow> int \<Rightarrow> int \<Rightarrow> string \<Rightarrow> int \<Rightarrow> qvi_rmi_client \<Rightarrow> 'w \<Rightarrow>
   (qv_rc \<times> qvi_rmi_client) res \<times> 'w" where
  "connect E gpu_support io zsock mytid scope_flags curl cportno cl w =
     (if \<not> ctx_works io \<or> \<not> socket_works io \<or> \<not> connect_works io \<or> \<not> setsockopt_works io
      then (Inr (QV_RES_UNAVAILABLE, cl), w)
      else let hwloc_flags = (if flag_set scope_flags QV_SCOPE_FLAG_NO_SMT then QVI_HWLOC_FLAG_TOPO_NO_SMT
                              else QVI_HWLOC_FLAG_TOPO_FULL)
           in case m_hello E zsock mytid (e_version E) hwloc_flags w of
                (Inl (Rc rc), w') \<Rightarrow> (Inr (rc, cl), w')
              | (Inl f, w') \<Rightarrow> (Inl f, w')
              | (Inr hwtopo_path, w') \<Rightarrow>
                  let cl1 = cl\<lparr>cl_connected := True, cl_config := \<lparr>url = curl, portno = cportno\<rparr>\<rparr>
                  in (case topology_init (e_lib E) hwloc_flags hwtopo_path (cl_hwloc cl1) of
                        Inl (Rc rc) \<Rightarrow> Inr (QV_RES_UNAVAILABLE, cl1)
                      | Inl f \<Rightarrow> Inl f
                      | Inr h \<Rightarrow>
                          (case topology_load gpu_support (e_lib E) h of
                             Inl (Rc rc) \<Rightarrow> Inr (QV_RES_UNAVAILABLE, cl1\<lparr>cl_hwloc := h\<rparr>)
                           | Inl f \<Rightarrow> Inl f
                           | Inr h' \<Rightarrow> Inr (QV_SUCCESS, cl1\<lparr>cl_hwloc := h'\<rparr>)), w'))"

section \<open>Finding the server\<close>

text \<open>\<open>fs1\<close> and \<open>fs2\<close> are the states of \<^verbatim>\<open>/proc\<close> during the two discoveries. A failed discovery
  leaves the port it was asked for.\<close>

definition discover :: "getenv \<Rightarrow> (nat \<Rightarrow> proc_fs) \<Rightarrow> (nat \<Rightarrow> proc_fs) \<Rightarrow> int \<Rightarrow> (qv_rc \<times> int) res" where
  "discover getenv fs1 fs2 port =
     rbind (qvi_port_from_env getenv) (\<lambda>envport.
     rbind (if envport \<noteq> QVI_PORT_UNSET
            then rbind (qvi_session_discover fs1 1024 envport) (\<lambda>(rc, envport', n).
                   Inr (if rc = QV_SUCCESS then Some envport' else None))
            else Inr None) (\<lambda>found.
       case found of
         Some envport' \<Rightarrow> Inr (QV_SUCCESS, envport')
       | None \<Rightarrow> rbind (qvi_session_discover fs2 1024 port) (\<lambda>(rc, port', n). Inr (rc, port'))))"

definition qvi_rmi_get_url :: "getenv \<Rightarrow> int \<Rightarrow> (string \<times> int) res" where
  "qvi_rmi_get_url getenv port =
     rbind (if port = QVI_PORT_UNSET
            then rbind (qvi_port_from_env getenv) (\<lambda>port. if port = QVI_PORT_UNSET then Inl (Rc QV_ERR_ENV) else Inr port)
            else Inr port) (\<lambda>port.
       Inr (''tcp://127.0.0.1'' @ '':'' @ std_to_string port, port))"

section \<open>Messages on the wire\<close>

text \<open>What is assumed of the archives for given values: they are written, read back with the types they
  have, and small enough for ZeroMQ's \<^verbatim>\<open>int\<close> sizes.\<close>

definition sendable :: "rmi_env \<Rightarrow> rpc_val list \<Rightarrow> bool" where
  "sendable E vs \<longleftrightarrow>
     (\<exists>a. ar_save (e_archive E) vs = Some a \<and> ar_load (e_archive E) (map ty_of vs) a = Some vs \<and>
          length a + 12 < 2 ^ 31)"

definition env_ok :: "rmi_env \<Rightarrow> bool" where
  "env_ok E \<longleftrightarrow> (\<forall>n. e_alloc E n)"

definition packed :: "rmi_env \<Rightarrow> rpc_val list \<Rightarrow> byte list" where
  "packed E vs = (let a = the (ar_save (e_archive E) vs) in size_bytes (length a) @ a)"

lemma length_header_bytes [simp]: "length (header_bytes fid) = header_size"
  by (simp add: header_bytes_def)

lemma bytes_value_header: "fid < 2 ^ 32 \<Longrightarrow> bytes_value (header_bytes fid) = fid"
  using bytes_value_map [of fid 0 4] by (simp add: header_bytes_def header_size_def)

lemma fid_code_bound: "fid_code fid < 2 ^ 32"
  by (cases fid) auto

lemma unpack_header [simp]:
  "fid < 2 ^ 32 \<Longrightarrow> unpack_msg_header (header_bytes fid @ body) = Inr (fid, header_size)"
  by (simp add: unpack_msg_header_def bytes_value_header)

lemma data_trim_header [simp]: "data_trim (header_bytes fid @ body) header_size = body"
  by (simp add: data_trim_def)

lemma unpack_packed_args: "sendable E vs \<Longrightarrow> unpack_args E (map ty_of vs) (packed E vs) = Inr vs"
proof -
  assume "sendable E vs"
  then obtain a where a: "ar_save (e_archive E) vs = Some a" "ar_load (e_archive E) (map ty_of vs) a = Some vs"
    "length a + 12 < 2 ^ 31" by (auto simp: sendable_def)
  with unpack_packed [of a "ar_load (e_archive E) (map ty_of vs)" vs "[]"] show ?thesis
    by (simp add: unpack_args_def packed_def SIZE_MAX_def)
qed

lemma rpc_unpack_packed:
  "sendable E vs \<Longrightarrow> fid < 2 ^ 32 \<Longrightarrow> rpc_unpack E (map ty_of vs) (header_bytes fid @ packed E vs) = Inr vs"
  using unpack_packed_args [of E vs] by (simp add: rpc_unpack_def unpack_args_def)

lemma rpc_pack_ok:
  assumes "env_ok E" "sendable E vs"
  shows "\<exists>b. rpc_pack E fid vs = Inr b \<and> bbuff_ok b \<and> contents b = header_bytes fid @ packed E vs \<and> bb_size b < 2 ^ 31"
proof -
  from assms(2) obtain a where a: "ar_save (e_archive E) vs = Some a" "length a + 12 < 2 ^ 31"
    by (auto simp: sendable_def)
  have al: "\<And>n. e_alloc E n" using assms(1) by (simp add: env_ok_def)
  obtain b0 where b0: "bbuff_new (e_alloc E) = Inr b0" "bb_size b0 = 0" using al by (simp add: bbuff_new_def)
  note n = bbuff_new_ok [OF b0(1)]
  obtain b1 where b1: "bbuff_append (e_alloc E) (header_bytes fid) b0 = Inr b1" "bbuff_ok b1"
    "contents b1 = header_bytes fid" "bb_size b1 = 4"
    using bbuff_append_ok [of b0 "header_bytes fid" "e_alloc E"] n b0 al
    by (auto simp: s_min_growth_def SIZE_MAX_def header_size_def)
  have "bb_size b1 + 8 + length a + s_min_growth \<le> SIZE_MAX"
    using a b1 by (simp add: s_min_growth_def SIZE_MAX_def)
  from pack_ok [of b1 "ar_save (e_archive E)" vs a "e_alloc E", OF b1(2) a(1) this al] obtain b where
    b: "pack (e_alloc E) (ar_save (e_archive E)) vs b1 = Inr b" "bbuff_ok b"
    "contents b = contents b1 @ size_bytes (length a) @ a" by blast
  have "bb_size b = 12 + length a"
    using length_contents [OF b(2)] b(3) b1 by (simp add: header_size_def)
  with b b1 a b0 show ?thesis
    by (simp add: rpc_pack_def buffer_append_header_def packed_def)
qed

section \<open>A client connected to a server\<close>

text \<open>
  The world of a connected client: the bindings, and whether the server is still running. The socket of a
  running server hands the message to the dispatch and returns the reply; when the dispatch does not end
  with success, the server's loop has ended, and a request to a server that has ended gets no reply.
\<close>

record rmi_world =
  w_binds :: cpubinds
  w_running :: bool

definition server_socket :: "rmi_env \<Rightarrow> qvi_rmi_server \<Rightarrow> rmi_world zsock" where
  "server_socket E srv msg w =
     (if \<not> w_running w then (int (length msg), None, w)
      else case m_rpc_dispatch E (\<lambda>dat. int (length dat)) srv msg (w_binds w) of
             Inl f \<Rightarrow> (int (length msg), None, w\<lparr>w_running := False\<rparr>)
           | Inr (rc, reply, b) \<Rightarrow>
               (int (length msg), reply, w\<lparr>w_binds := b, w_running := (rc = QV_SUCCESS)\<rparr>))"

lemma send_whole [simp]:
  assumes "bbuff_ok b" "bb_size b < 2 ^ 31"
  shows "zsock_send_bbuff (\<lambda>dat. int (length dat)) b = (QV_SUCCESS, Some (contents b))"
    and "zsock_send_bbuff (\<lambda>dat. int (bb_size b)) b = (QV_SUCCESS, Some (contents b))"
  using assms by (simp_all add: zsock_send_bbuff_def)

lemma rpc_reply_ok:
  assumes "env_ok E" "sendable E vals"
  shows "\<exists>b. rpc_reply E fid w vals = Inr (QV_SUCCESS, Some b, w) \<and> bbuff_ok b \<and> bb_size b < 2 ^ 31 \<and>
    contents b = header_bytes fid @ packed E vals"
  using rpc_pack_ok [OF assms, of fid] by (auto simp: rpc_reply_def)

text \<open>A call whose handler replies gives the values of the reply.\<close>

lemma rpc_call_served:
  assumes env: "env_ok E" and run: "w_running w" and args: "sendable E args"
    and table: "map_of (m_rpc_dispatch_table E) (fid_code fid) = Some handler"
    and handled: "handler srv (fid_code fid) (packed E args) (w_binds w) = rpc_reply E (fid_code fid) b (Vrc rc # vals)"
    and reply: "sendable E (Vrc rc # vals)"
  shows "rpc_call E (server_socket E srv) fid args (map ty_of vals) k w =
    (rbind (check_rc rc vals) k, w\<lparr>w_binds := b\<rparr>)"
proof -
  obtain q where q: "rpc_pack E (fid_code fid) args = Inr q" "bbuff_ok q" "bb_size q < 2 ^ 31"
    "contents q = header_bytes (fid_code fid) @ packed E args"
    using rpc_pack_ok [OF env args] by blast
  obtain r where r: "rpc_reply E (fid_code fid) b (Vrc rc # vals) = Inr (QV_SUCCESS, Some r, b)" "bbuff_ok r"
    "bb_size r < 2 ^ 31" "contents r = header_bytes (fid_code fid) @ packed E (Vrc rc # vals)"
    using rpc_reply_ok [OF env reply] by blast
  have "m_rpc_dispatch E (\<lambda>dat. int (length dat)) srv (contents q) (w_binds w) = Inr (QV_SUCCESS, Some (contents r), b)"
    using q r handled table fid_code_bound [of fid] by (simp add: m_rpc_dispatch_def)
  then have "server_socket E srv (contents q) w = (int (bb_size q), Some (contents r), w\<lparr>w_binds := b\<rparr>)"
    using run q(2) by (simp add: server_socket_def)
  then have "rpc_req E (server_socket E srv) fid args w = (Inr (Some (contents r)), w\<lparr>w_binds := b\<rparr>)"
    using q(1-3) by (simp add: rpc_req_def check_rc_def)
  moreover have "rpc_rep E (Trc # map ty_of vals) (Some (contents r)) = Inr (Vrc rc # vals)"
    using rpc_unpack_packed [OF reply fid_code_bound] r by (simp add: rpc_rep_def)
  ultimately show ?thesis by (simp add: rpc_call_def)
qed

text \<open>A call whose handler throws (or worse) ends the server, and the client gets an error.\<close>

lemma rpc_call_crashed:
  assumes env: "env_ok E" and run: "w_running w" and args: "sendable E args"
    and table: "map_of (m_rpc_dispatch_table E) (fid_code fid) = Some handler"
    and handled: "handler srv (fid_code fid) (packed E args) (w_binds w) = Inl f"
  shows "rpc_call E (server_socket E srv) fid args tys k w = (Inl (Rc QV_ERR_RPC), w\<lparr>w_running := False\<rparr>)"
proof -
  obtain q where q: "rpc_pack E (fid_code fid) args = Inr q" "bbuff_ok q" "bb_size q < 2 ^ 31"
    "contents q = header_bytes (fid_code fid) @ packed E args"
    using rpc_pack_ok [OF env args] by blast
  have "m_rpc_dispatch E (\<lambda>dat. int (length dat)) srv (contents q) (w_binds w) = Inl f"
    using q handled table fid_code_bound [of fid] by (simp add: m_rpc_dispatch_def)
  then have "server_socket E srv (contents q) w = (int (bb_size q), None, w\<lparr>w_running := False\<rparr>)"
    using run q(2) by (simp add: server_socket_def)
  then show ?thesis using q(1-3) by (simp add: rpc_call_def rpc_req_def rpc_rep_def check_rc_def)
qed

lemma rpc_call_no_server:
  assumes env: "env_ok E" and run: "\<not> w_running w" and args: "sendable E args"
  shows "rpc_call E (server_socket E srv) fid args tys k w = (Inl (Rc QV_ERR_RPC), w)"
proof -
  obtain q where "rpc_pack E (fid_code fid) args = Inr q" "bbuff_ok q" "bb_size q < 2 ^ 31"
    using rpc_pack_ok [OF env args] by blast
  moreover from this have "server_socket E srv (contents q) w = (int (bb_size q), None, w)"
    using run by (simp add: server_socket_def)
  ultimately show ?thesis by (simp add: rpc_call_def rpc_req_def rpc_rep_def check_rc_def)
qed

section \<open>Remote calls and local calls\<close>

text \<open>
  What a client sees of a local call that is made on its behalf by the server: results and error codes come
  back as they are, while an exception, an abort or undefined behaviour ends the server.
\<close>

definition remote :: "'a res \<Rightarrow> rmi_world \<Rightarrow> 'a res \<times> rmi_world" where
  "remote r w =
     (case r of
        Inr x \<Rightarrow> (Inr x, w)
      | Inl (Rc c) \<Rightarrow> (Inl (Rc c), w)
      | Inl f \<Rightarrow> (Inl (Rc QV_ERR_RPC), w\<lparr>w_running := False\<rparr>))"

definition reply_sendable :: "rmi_env \<Rightarrow> ('a \<Rightarrow> rpc_val) \<Rightarrow> 'a \<Rightarrow> 'a res \<Rightarrow> bool" where
  "reply_sendable E V out r \<longleftrightarrow>
     (case rpc_status out r of Inr (rc, x) \<Rightarrow> sendable E [Vrc rc, V x] | Inl f \<Rightarrow> True)"

lemma remote_query:
  assumes env: "env_ok E" and run: "w_running w" and args: "sendable E args"
    and table: "map_of (m_rpc_dispatch_table E) (fid_code fid) = Some handler"
    and handled: "handler srv (fid_code fid) (packed E args) (w_binds w) =
      rbind (rpc_status out r) (\<lambda>(rc, x). rpc_reply E (fid_code fid) (w_binds w) [Vrc rc, V x])"
    and r: "r \<noteq> Inl (Rc QV_SUCCESS)" and reply: "reply_sendable E V out r"
    and k: "\<And>x. k [V x] = Inr x" and ty: "\<And>x. ty_of (V x) = t"
  shows "rpc_call E (server_socket E srv) fid args [t] k w = remote r w"
proof (cases "rpc_status out r")
  case (Inl f)
  then have "rpc_call E (server_socket E srv) fid args [t] k w = (Inl (Rc QV_ERR_RPC), w\<lparr>w_running := False\<rparr>)"
    using rpc_call_crashed [OF env run args table] handled by simp
  then show ?thesis using Inl by (auto simp: rpc_status_def remote_def split: sum.splits fail.splits)
next
  case (Inr p)
  obtain rc x where p: "p = (rc, x)" by fastforce
  have "rpc_call E (server_socket E srv) fid args (map ty_of [V x]) k w = (rbind (check_rc rc [V x]) k, w\<lparr>w_binds := w_binds w\<rparr>)"
    using rpc_call_served [OF env run args table, where srv = srv and b = "w_binds w" and rc = rc and vals = "[V x]" and k = k]
      handled reply Inr p
    by (simp add: reply_sendable_def)
  then show ?thesis using Inr p r k ty
    by (auto simp: rpc_status_def remote_def check_rc_def split: sum.splits fail.splits)
qed

text \<open>The local calls never return the success code as an error.\<close>

lemma local_calls_codes:
  "task_get_cpubind b who \<noteq> Inl (Rc QV_SUCCESS)"
  "obj_type_depth h t \<noteq> Inl (Rc QV_SUCCESS)"
  "get_nobjs_in_cpuset L h t c \<noteq> Inl (Rc QV_SUCCESS)"
  "get_device_id_in_cpuset L h t i c d \<noteq> Inl (Rc QV_SUCCESS)"
  "get_cpuset_for_nobjs L h c t n \<noteq> Inl (Rc QV_SUCCESS)"
proof -
  have t: "obj_get_type t \<noteq> Inl (Rc QV_SUCCESS)" for t by (cases t) auto
  then show d: "obj_type_depth h t \<noteq> Inl (Rc QV_SUCCESS)" for h t
    by (auto simp: obj_type_depth_def rbind_Inl_iff)
  show "task_get_cpubind b who \<noteq> Inl (Rc QV_SUCCESS)" by (simp add: task_get_cpubind_def split: option.splits)
  show "get_nobjs_in_cpuset L h t c \<noteq> Inl (Rc QV_SUCCESS)"
    using d by (auto simp: get_nobjs_in_cpuset_def m_get_nobjs_in_cpuset_def rbind_Inl_iff)
  show "get_device_id_in_cpuset L h t i c d \<noteq> Inl (Rc QV_SUCCESS)"
    by (cases d) (auto simp: get_device_id_in_cpuset_def Let_def rbind_Inl_iff dev_at_def vec_at_def split: if_splits)
  have o: "or_obj L h c d i b \<noteq> Inl (Rc QV_SUCCESS)" for c d i b
    by (auto simp: or_obj_def get_obj_in_cpuset_by_depth_def rbind_Inl_iff split: option.splits)
  have "rfold (or_obj L h c d) is b \<noteq> Inl (Rc QV_SUCCESS)" for c d "is" b
    by (induction "is" arbitrary: b) (use o in \<open>auto simp: rbind_Inl_iff\<close>)
  then show "get_cpuset_for_nobjs L h c t n \<noteq> Inl (Rc QV_SUCCESS)"
    using d by (auto simp: get_cpuset_for_nobjs_def rbind_Inl_iff)
qed

lemmas handler_simps =
  m_rpc_dispatch_table_def s_rpc_get_cpubind_def s_rpc_set_cpubind_def s_rpc_obj_type_depth_def
  s_rpc_get_nobjs_in_cpuset_def s_rpc_get_cpuset_for_nobjs_def s_rpc_get_device_in_cpuset_def
  s_rpc_get_intrinsic_hwpool_def

lemma client_set_cpubind_eq:
  assumes "env_ok E" "w_running w" "qvi_hwlocs_get (srv_hwlocs srv) (m_flags (cl_hwloc cl)) = Inr h"
    and "sendable E [Vflags (m_flags (cl_hwloc cl)), Vpid who, Vbitmap cpuset]"
    and "sendable E [Vrc QV_SUCCESS]" "sendable E [Vrc QV_ERR_NOT_SUPPORTED]"
  shows "client_set_cpubind E (server_socket E srv) cl who cpuset w =
    (case e_sched E who cpuset (w_binds w) of
       None \<Rightarrow> (Inl (Rc QV_ERR_NOT_SUPPORTED), w) | Some b \<Rightarrow> (Inr (), w\<lparr>w_binds := b\<rparr>))"
proof -
  let ?args = "[Vflags (m_flags (cl_hwloc cl)), Vpid who, Vbitmap cpuset]"
  let ?s = "e_sched E who cpuset (w_binds w)"
  let ?rc = "case ?s of None \<Rightarrow> QV_ERR_NOT_SUPPORTED | Some b \<Rightarrow> QV_SUCCESS"
  let ?b = "case ?s of None \<Rightarrow> w_binds w | Some b \<Rightarrow> b"
  have "unpack_args E [Tflags, Tpid, Tbitmap] (packed E ?args) = Inr ?args"
    using unpack_packed_args [OF assms(4)] by simp
  then have handled: "s_rpc_set_cpubind E srv (fid_code QVI_RMI_FID_SET_CPUBIND) (packed E ?args) (w_binds w) =
      rpc_reply E (fid_code QVI_RMI_FID_SET_CPUBIND) ?b (Vrc ?rc # [])"
    using assms(3) by (auto simp: s_rpc_set_cpubind_def rpc_status_def task_set_cpubind_from_cpuset_def split: option.splits)
  have "sendable E (Vrc ?rc # [])" using assms(5,6) by (auto split: option.splits)
  from rpc_call_served [where handler = "s_rpc_set_cpubind E" and srv = srv and fid = QVI_RMI_FID_SET_CPUBIND
      and k = "\<lambda>vals. case vals of [] \<Rightarrow> Inr () | _ \<Rightarrow> Inl Undef", OF assms(1,2,4) _ handled this] show ?thesis
    by (auto simp: client_set_cpubind_def m_rpc_dispatch_table_def check_rc_def split: option.splits)
qed

lemma client_get_cpubind_eq:
  assumes "env_ok E" "w_running w" "qvi_hwlocs_get (srv_hwlocs srv) (m_flags (cl_hwloc cl)) = Inr h"
    and args: "sendable E [Vflags (m_flags (cl_hwloc cl)), Vpid who]"
    and reply: "reply_sendable E Vbitmap {} (task_get_cpubind (w_binds w) who)"
  shows "client_get_cpubind E (server_socket E srv) cl who w = remote (task_get_cpubind (w_binds w) who) w"
  unfolding client_get_cpubind_def
  by (rule remote_query [OF assms(1,2) args, where handler = "s_rpc_get_cpubind E" and out = "{}" and V = Vbitmap])
    (use unpack_packed_args [OF args] assms(3) reply in
      \<open>auto simp: m_rpc_dispatch_table_def s_rpc_get_cpubind_def local_calls_codes\<close>)

lemma m_hello_eq:
  assumes "env_ok E" "w_running w" "qvi_hwlocs_get (srv_hwlocs srv) flags = Inr h"
    and args: "sendable E [Vsize (e_version E), Vflags flags, Vpid tid]" and reply: "sendable E [Vrc QV_SUCCESS, Vstr (m_topo_file h)]"
  shows "m_hello E (server_socket E srv) tid (e_version E) flags w = (Inr (m_topo_file h), w)"
proof -
  let ?args = "[Vsize (e_version E), Vflags flags, Vpid tid]"
  have "unpack_args E [Tsize, Tflags, Tpid] (packed E ?args) = Inr ?args"
    using unpack_packed_args [OF args] by simp
  then have handled: "s_rpc_hello E srv (fid_code QVI_RMI_FID_HELLO) (packed E ?args) (w_binds w) =
      rpc_reply E (fid_code QVI_RMI_FID_HELLO) (w_binds w) (Vrc QV_SUCCESS # [Vstr (m_topo_file h)])"
    using assms(3) by (simp add: s_rpc_hello_def)
  from rpc_call_served [where handler = "s_rpc_hello E" and srv = srv and fid = QVI_RMI_FID_HELLO
      and k = "\<lambda>vals. case vals of [Vstr hwtopo_path] \<Rightarrow> Inr hwtopo_path | _ \<Rightarrow> Inl Undef", OF assms(1,2) args _ handled reply]
  show ?thesis by (simp add: m_hello_def m_rpc_dispatch_table_def check_rc_def)
qed

lemma client_get_intrinsic_hwpool_eq:
  assumes "env_ok E" "w_running w"
    and args: "sendable E [Vflags (m_flags (cl_hwloc cl)), Vpids who, Viscope iscope, Vflags flags]"
    and r: "intrinsic_hwpool (e_lib E) srv (m_flags (cl_hwloc cl)) who iscope (w_binds w) = Inr p"
    and reply: "sendable E [Vrc QV_SUCCESS, Vpool p]"
  shows "client_get_intrinsic_hwpool E (server_socket E srv) cl who iscope flags w = (Inr p, w)"
proof -
  have "client_get_intrinsic_hwpool E (server_socket E srv) cl who iscope flags w = remote (Inr p) w"
    unfolding client_get_intrinsic_hwpool_def
    by (rule remote_query [OF assms(1,2) args, where handler = "s_rpc_get_intrinsic_hwpool E" and out = "qvi_hwpool_new {}" and V = Vpool])
      (use unpack_packed_args [OF args] r reply in
        \<open>auto simp: m_rpc_dispatch_table_def s_rpc_get_intrinsic_hwpool_def reply_sendable_def rpc_status_def\<close>)
  then show ?thesis by (simp add: remote_def)
qed

text \<open>The codes with which packing can fail.\<close>

lemma rpc_pack_codes: "rpc_pack E fid vals = Inl (Rc c) \<Longrightarrow> c = QV_ERR_OOR \<or> c = QV_ERR"
proof -
  have a: "bbuff_append alloc dat b = Inl (Rc c) \<Longrightarrow> c = QV_ERR_OOR" for alloc dat b c
    by (auto simp: bbuff_append_def bbuff_write_def Let_def split: if_splits)
  have n: "qvi_catch_and_return (bbuff_new alloc) = Inl (Rc c) \<Longrightarrow> c = QV_ERR_OOR" for alloc c
    by (auto simp: bbuff_new_def split: if_splits)
  have x: "bbuff_append alloc dat b \<noteq> Inl (Rterror c)" for alloc dat b c
    by (auto simp: bbuff_append_def bbuff_write_def Let_def)
  have c: "qvi_catch_and_return r = Inl (Rc c) \<Longrightarrow> r = Inl (Rc c) \<or> r = Inl (Rterror c) \<or> c = QV_ERR" for r :: "qvi_bbuff res" and c
    by (cases r rule: qvi_catch_and_return.cases) auto
  assume "rpc_pack E fid vals = Inl (Rc c)"
  then show ?thesis
    by (auto simp: rpc_pack_def rbind_Inl_iff buffer_append_header_def pack_def a n dest!: c split: option.splits)
      (use a x in \<open>auto simp: rbind_Inl_iff\<close>)
qed

text \<open>Only the shutdown request makes the dispatch report a shutdown.\<close>

lemma rpc_reply_codes: "rpc_reply E fid w vals = Inr (rc, b, w') \<Longrightarrow> rc \<noteq> QV_SUCCESS_SHUTDOWN"
  using rpc_pack_codes [of E fid vals] by (auto simp: rpc_reply_def split: sum.splits fail.splits)

lemma handler_codes:
  "map_of (m_rpc_dispatch_table E) fid = Some handler \<Longrightarrow> fid \<noteq> fid_code QVI_RMI_FID_SERVER_SHUTDOWN \<Longrightarrow>
    handler srv fid body w = Inr (rc, b, w') \<Longrightarrow> rc \<noteq> QV_SUCCESS_SHUTDOWN"
  by (auto simp: handler_simps s_rpc_hello_def s_rpc_invalid_def rbind_Inr_iff dest!: rpc_reply_codes
      split: if_splits sum.splits prod.splits list.splits rpc_val.splits fail.splits)

lemma dispatch_shutdown:
  assumes "m_rpc_dispatch E zsend srv msg w = Inr (QV_SUCCESS_SHUTDOWN, reply, w')"
  shows "unpack_msg_header msg = Inr (fid_code QVI_RMI_FID_SERVER_SHUTDOWN, header_size)"
proof -
  obtain fid trim handler rc b where
    "unpack_msg_header msg = Inr (fid, trim)" "map_of (m_rpc_dispatch_table E) fid = Some handler"
    "handler srv fid (data_trim msg trim) w = Inr (rc, b, w')" "rc = QV_SUCCESS_SHUTDOWN"
    using assms
    by (auto simp: m_rpc_dispatch_def rbind_Inr_iff zsock_send_bbuff_def split: option.splits if_splits)
  then show ?thesis using handler_codes by (fastforce simp: unpack_msg_header_def split: if_splits)
qed

lemma server_recv_msg_source:
  "server_recv_msg signaled evs = Some (r, signaled', evs') \<Longrightarrow>
    set evs' \<subseteq> set evs \<and> (\<forall>m. r = Inr m \<longrightarrow> Ev_message m \<in> set evs \<and> signaled' = signaled \<and> \<not> signaled) \<and>
    (r = Inl (Rc QV_SUCCESS_SHUTDOWN) \<longrightarrow> signaled \<or> Ev_signal \<in> set evs) \<and>
    (\<forall>f. r = Inl f \<longrightarrow> f = Rc QV_SUCCESS_SHUTDOWN \<or> f = Rc QV_ERR_RPC)"
  by (induction evs; cases signaled) (auto split: poll_event.splits)

lemma server_loop_end:
  "m_enter_main_server_loop E zsend srv signaled evs sent w = (Some (Inr ()), sent', w') \<Longrightarrow>
    signaled \<or> Ev_signal \<in> set evs \<or>
    (\<exists>m. Ev_message m \<in> set evs \<and> unpack_msg_header m = Inr (fid_code QVI_RMI_FID_SERVER_SHUTDOWN, header_size))"
proof (induction E zsend srv signaled evs sent w rule: m_enter_main_server_loop.induct)
  case (1 E zsend srv signaled evs sent w)
  from "1.prems" obtain r sig' evs' where recv: "server_recv_msg signaled evs = Some (r, sig', evs')"
    by (subst (asm) m_enter_main_server_loop.simps) (auto split: option.splits)
  note src = server_recv_msg_source [OF recv]
  show ?case
  proof (cases r)
    case (Inl f)
    then have "f = Rc QV_SUCCESS_SHUTDOWN"
      using "1.prems" recv src
      by (subst (asm) m_enter_main_server_loop.simps) (auto simp: loop_exit_def split: if_splits)
    then show ?thesis using src Inl by auto
  next
    case (Inr m)
    obtain rc reply v where d: "m_rpc_dispatch E zsend srv m w = Inr (rc, reply, v)"
      using "1.prems" recv Inr
      by (subst (asm) m_enter_main_server_loop.simps) (auto split: sum.splits)
    show ?thesis
    proof (cases "rc = QV_SUCCESS")
      case True
      have "m_enter_main_server_loop E zsend srv sig' evs' (sent @ (case reply of None \<Rightarrow> [] | Some r \<Rightarrow> [r])) v =
          (Some (Inr ()), sent', w')"
        using "1.prems" recv Inr d True by (subst (asm) m_enter_main_server_loop.simps) simp
      from "1.IH" [OF recv refl Inr refl d refl refl refl True this] src Inr show ?thesis by auto
    next
      case False
      then have "rc = QV_SUCCESS_SHUTDOWN"
        using "1.prems" recv Inr d
        by (subst (asm) m_enter_main_server_loop.simps) (auto simp: loop_exit_def split: if_splits)
      with d have "unpack_msg_header m = Inr (fid_code QVI_RMI_FID_SERVER_SHUTDOWN, header_size)"
        using dispatch_shutdown [of E zsend srv m w reply v] by simp
      moreover have "Ev_message m \<in> set evs" using src Inr by simp
      ultimately show ?thesis by (intro disjI2 exI [of _ m] conjI)
    qed
  qed
qed

section \<open>Intrinsic scopes\<close>

text \<open>A pool with the given CPU set and exactly the machine's devices whose affinity lies inside it.\<close>

definition pool_for :: "qvi_hwloc \<Rightarrow> bitmap \<Rightarrow> qvi_hwpool \<Rightarrow> bool" where
  "pool_for h c p \<longleftrightarrow>
     hwpool_ok p \<and> hwpool_cpuset p = c \<and>
     dev_key ` pool_members p =
       {dev_key (qvi_hwpool_dev_new d) |d t. t \<in> set supported_devices \<and> d \<in> set (cget_dev_list (m_devmap h) t) \<and> affinity d \<subseteq> c}"

lemma op_or_union: "bitmap_laws L \<Longrightarrow> op_or L bs = Inr (\<Union> (set bs))"
proof -
  assume "bitmap_laws L"
  then have "rfold (\<lambda>b result. bitmap_op_or2 L result b) bs r = Inr (r \<union> \<Union> (set bs))" for r
    by (induction bs arbitrary: r) (auto simp: bitmap_op_or2_def bitmap_lawsD Un_assoc)
  then show ?thesis by (simp add: op_or_def)
qed

lemma rmap_cpubinds:
  assumes "qvi_hwlocs_get hs flags = Inr h"
  shows "rmap (\<lambda>p. rbind (qvi_hwlocs_get hs flags) (\<lambda>h. task_get_cpubind w p)) who =
    (if \<forall>p \<in> set who. w p \<noteq> None then Inr (map (\<lambda>p. the (w p)) who) else Inl (Rc QV_ERR_HWLOC))"
  using assms by (induction who) (auto simp: task_get_cpubind_def split: option.splits)

lemma intrinsic_hwpool_of_bitmap:
  assumes "bitmap_laws L" "qvi_hwlocs_get (srv_hwlocs srv) flags = Inr h" "iscope_bitmap L srv flags who iscope w = Inr c"
  shows "\<exists>p. intrinsic_hwpool L srv flags who iscope w = Inr p \<and> pool_for h c p"
  using populate_result [OF assms(1), of h c "{}"] assms(2,3) by (simp add: intrinsic_hwpool_def pool_for_def)

section \<open>A concrete environment\<close>

text \<open>An archive that knows a given table of messages, on a machine with four processing units.\<close>

definition demo_archive :: "rpc_val list list \<Rightarrow> archive" where
  "demo_archive tab =
     \<lparr>ar_save = (\<lambda>vs. if vs \<in> set tab then Some (replicate (length (takeWhile (\<lambda>x. x \<noteq> vs) tab)) (CHR ''m'')) else None),
      ar_load = (\<lambda>tys a. if length a < length tab \<and> map ty_of (tab ! length a) = tys then Some (tab ! length a) else None)\<rparr>"

definition demo_env :: "rpc_val list list \<Rightarrow> rmi_env" where
  "demo_env tab = \<lparr>e_alloc = (\<lambda>n. True), e_archive = demo_archive tab, e_lib = demo_lib,
     e_sched = (\<lambda>who c b. Some (b(who \<mapsto> c))), e_version = 1\<rparr>"

definition demo_server :: qvi_rmi_server where
  "demo_server = \<lparr>srv_config = \<lparr>url = ''tcp://127.0.0.1:7'', portno = 7\<rparr>, srv_hwlocs = [(1, demo_hwloc 4), (2, demo_hwloc 4)]\<rparr>"

definition demo_client :: qvi_rmi_client where
  "demo_client = \<lparr>cl_hwloc = demo_hwloc 4, cl_config = \<lparr>url = ''tcp://127.0.0.1:7'', portno = 7\<rparr>, cl_connected = True\<rparr>"

definition demo_world :: rmi_world where
  "demo_world = \<lparr>w_binds = [42 \<mapsto> {0, 2, 3}], w_running = True\<rparr>"

lemma env_ok_demo [simp]: "env_ok (demo_env tab)"
  by (simp add: env_ok_def demo_env_def)

lemma sendable_demo:
  assumes "vs \<in> set tab" "length tab < 1000"
  shows "sendable (demo_env tab) vs"
proof -
  let ?n = "length (takeWhile (\<lambda>x. x \<noteq> vs) tab)"
  have n: "?n < length tab" using assms(1) by (induction tab) auto
  have "tab ! ?n = vs" using nth_length_takeWhile [OF n] by simp
  then show ?thesis using assms n by (auto simp: sendable_def demo_env_def demo_archive_def)
qed

lemma demo_simps [simp]:
  "e_lib (demo_env tab) = demo_lib"
  "m_flags (cl_hwloc demo_client) = 1"
  "qvi_hwlocs_get (srv_hwlocs demo_server) 1 = Inr (demo_hwloc 4)"
  "w_running demo_world"
  by (simp_all add: demo_env_def qvi_hwlocs_get_def demo_server_def demo_client_def demo_hwloc_def
      QVI_HWLOC_TOPO_MASK_def demo_world_def)

section \<open>Properties\<close>





text \<open>C26: The server's main loop ends with success only when it has been told to: one of the handled signals
  has arrived, or a client has sent the shutdown request. Every other way out is an error.\<close>

theorem server_loop_ends_on_request:
  assumes "m_enter_main_server_loop E zsend srv False evs [] w = (Some (Inr ()), sent, w')"
  shows "Ev_signal \<in> set evs \<or>
    (\<exists>m. Ev_message m \<in> set evs \<and> unpack_msg_header m = Inr (fid_code QVI_RMI_FID_SERVER_SHUTDOWN, header_size))"
  using server_loop_end [OF assms] by simp

theorem server_loop_ends_on_request_witness:
  "m_enter_main_server_loop (demo_env []) (\<lambda>dat. int (length dat)) demo_server False [Ev_timeout, Ev_signal] [] Map.empty =
     (Some (Inr ()), [], Map.empty) \<and> Ev_signal \<in> set [Ev_timeout, Ev_signal]"
proof -
  have run: "m_enter_main_server_loop (demo_env []) (\<lambda>dat. int (length dat)) demo_server False [Ev_timeout, Ev_signal] [] Map.empty =
     (Some (Inr ()), [], Map.empty)"
    by (subst m_enter_main_server_loop.simps) (simp add: loop_exit_def)
  from server_loop_ends_on_request [OF run] run show ?thesis by simp
qed

text \<open>C22: What the intrinsic scopes contain. The user scope is the machine's allowed CPU set, the job scope the
  union of the bindings of the given tasks (an error if one of them cannot be queried), the process scope
  the binding of the one given task (with any other number of tasks the server aborts), each with the
  devices whose affinity lies inside. The system scope is not supported.\<close>

theorem intrinsic_hwpool_contents:
  assumes "bitmap_laws L" "qvi_hwlocs_get (srv_hwlocs srv) flags = Inr h"
  shows "(\<exists>p. intrinsic_hwpool L srv flags who QV_SCOPE_USER w = Inr p \<and> pool_for h (topology_get_cpuset h) p) \<and>
    (if \<forall>t \<in> set who. w t \<noteq> None
     then \<exists>p. intrinsic_hwpool L srv flags who QV_SCOPE_JOB w = Inr p \<and> pool_for h (\<Union>t \<in> set who. the (w t)) p
     else intrinsic_hwpool L srv flags who QV_SCOPE_JOB w = Inl (Rc QV_ERR_HWLOC)) \<and>
    (w t0 = Some b \<longrightarrow> (\<exists>p. intrinsic_hwpool L srv flags [t0] QV_SCOPE_PROCESS w = Inr p \<and> pool_for h b p)) \<and>
    (length who \<noteq> 1 \<longrightarrow> intrinsic_hwpool L srv flags who QV_SCOPE_PROCESS w = Inl Abort) \<and>
    intrinsic_hwpool L srv flags who QV_SCOPE_SYSTEM w = Inl (Rc QV_ERR_NOT_SUPPORTED)"
proof (intro conjI)
  note ib = intrinsic_hwpool_of_bitmap [OF assms]
  note job = rmap_cpubinds [OF assms(2), of w who] op_or_union [OF assms(1)]
  show "\<exists>p. intrinsic_hwpool L srv flags who QV_SCOPE_USER w = Inr p \<and> pool_for h (topology_get_cpuset h) p"
    by (rule ib) (simp add: iscope_bitmap_def m_get_iscope_bitmap_user_def assms(2))
  have j: "iscope_bitmap L srv flags who QV_SCOPE_JOB w =
      (if \<forall>t \<in> set who. w t \<noteq> None then Inr (\<Union>t \<in> set who. the (w t)) else Inl (Rc QV_ERR_HWLOC))"
    by (simp add: iscope_bitmap_def m_get_iscope_bitmap_job_def job)
  show "if \<forall>t \<in> set who. w t \<noteq> None
     then \<exists>p. intrinsic_hwpool L srv flags who QV_SCOPE_JOB w = Inr p \<and> pool_for h (\<Union>t \<in> set who. the (w t)) p
     else intrinsic_hwpool L srv flags who QV_SCOPE_JOB w = Inl (Rc QV_ERR_HWLOC)"
    using ib [of who QV_SCOPE_JOB w, unfolded j] by (auto simp: intrinsic_hwpool_def j)
  show "w t0 = Some b \<longrightarrow> (\<exists>p. intrinsic_hwpool L srv flags [t0] QV_SCOPE_PROCESS w = Inr p \<and> pool_for h b p)"
    by (auto intro!: ib simp: iscope_bitmap_def m_get_iscope_bitmap_proc_def assms(2) task_get_cpubind_def)
  show "length who \<noteq> 1 \<longrightarrow> intrinsic_hwpool L srv flags who QV_SCOPE_PROCESS w = Inl Abort"
    by (simp add: intrinsic_hwpool_def iscope_bitmap_def m_get_iscope_bitmap_proc_def)
  show "intrinsic_hwpool L srv flags who QV_SCOPE_SYSTEM w = Inl (Rc QV_ERR_NOT_SUPPORTED)"
    by (simp add: intrinsic_hwpool_def iscope_bitmap_def)
qed

theorem intrinsic_hwpool_contents_witness:
  "\<exists>p. intrinsic_hwpool demo_lib demo_server 1 [42, 43] QV_SCOPE_JOB [42 \<mapsto> {0}, 43 \<mapsto> {2, 3}] = Inr p \<and>
     pool_for (demo_hwloc 4) {2, 3, 0} p"
  using intrinsic_hwpool_contents [OF demo_bitmap_laws, of demo_server 1 "demo_hwloc 4" "[42, 43]" "[42 \<mapsto> {0}, 43 \<mapsto> {2, 3}]" 42 "{0}"]
  by simp

end
