(* ===== verification/QV_Task.thy ===== *)
theory QV_Task
  imports QV_Rmi
begin

text \<open>
  Tasks and their bind stacks: \<^verbatim>\<open>qvi-task.cc\<close>. A task is an RMI client and a stack of CPU sets
  whose top is meant to be the task's current binding. The stack operations use the client only to change
  the binding of a task; that interface is the locale \<open>affinity_service\<close>, implemented by the client's
  stub over the server's handlers.
\<close>

section \<open>The task\<close>

record qvi_task =
  m_rmi :: qvi_rmi_client
  m_stack :: "bitmap list"

text \<open>Connecting to the daemon; the errors of the discovery and of the URL become \<open>QV_RES_UNAVAILABLE\<close>.\<close>

definition m_connect_to_server ::
  "rmi_env \<Rightarrow> bool \<Rightarrow> conn_io \<Rightarrow> getenv \<Rightarrow> (nat \<Rightarrow> proc_fs) \<Rightarrow> (nat \<Rightarrow> proc_fs) \<Rightarrow> 'w zsock \<Rightarrow> int \<Rightarrow> int \<Rightarrow> qvi_task \<Rightarrow> 'w \<Rightarrow>
   (qv_rc \<times> qvi_task) res \<times> 'w" where
  "m_connect_to_server E gpu_support io getenv fs1 fs2 zsock mytid flags t w =
     (case discover getenv fs1 fs2 QVI_PORT_UNSET of
        Inl f \<Rightarrow> (Inl f, w)
      | Inr (rc, port) \<Rightarrow>
          if rc \<noteq> QV_SUCCESS then (Inr (QV_RES_UNAVAILABLE, t), w)
          else case qvi_rmi_get_url getenv port of
                 Inl (Rc rc) \<Rightarrow> (Inr (QV_RES_UNAVAILABLE, t), w)
               | Inl f \<Rightarrow> (Inl f, w)
               | Inr (curl, port') \<Rightarrow>
                   (case connect E gpu_support io zsock mytid flags curl port' (m_rmi t) w of (r, w') \<Rightarrow>
                      (rbind r (\<lambda>(rc, cl). Inr (rc, t\<lparr>m_rmi := cl\<rparr>)), w')))"

definition m_init_bind_stack :: "(int \<Rightarrow> 'w \<Rightarrow> bitmap res \<times> 'w) \<Rightarrow> int \<Rightarrow> qvi_task \<Rightarrow> 'w \<Rightarrow> qvi_task res \<times> 'w" where
  "m_init_bind_stack getb mytid t w =
     (case getb mytid w of (r, w') \<Rightarrow>
        (rbind r (\<lambda>current_bind. Inr (t\<lparr>m_stack := current_bind # m_stack t\<rparr>)), w'))"

definition connect_to_server ::
  "rmi_env \<Rightarrow> bool \<Rightarrow> conn_io \<Rightarrow> getenv \<Rightarrow> (nat \<Rightarrow> proc_fs) \<Rightarrow> (nat \<Rightarrow> proc_fs) \<Rightarrow> 'w zsock \<Rightarrow> int \<Rightarrow> int \<Rightarrow> qvi_task \<Rightarrow> 'w \<Rightarrow>
   qvi_task res \<times> 'w" where
  "connect_to_server E gpu_support io getenv fs1 fs2 zsock mytid flags t w =
     (case m_connect_to_server E gpu_support io getenv fs1 fs2 zsock mytid flags t w of
        (Inl f, w') \<Rightarrow> (Inl f, w')
      | (Inr (rc, t'), w') \<Rightarrow>
          if rc \<noteq> QV_SUCCESS then (Inl (Rc rc), w')
          else m_init_bind_stack (client_get_cpubind E zsock (m_rmi t')) mytid t' w')"

section \<open>The bind stack\<close>

text \<open>
  \<open>setb\<close> is the client's \<^verbatim>\<open>set_cpubind\<close>. The task is returned in every case, because a failed pop
  has changed it.
\<close>

definition bind_push ::
  "(int \<Rightarrow> bitmap \<Rightarrow> 'w \<Rightarrow> unit res \<times> 'w) \<Rightarrow> int \<Rightarrow> bitmap \<Rightarrow> qvi_task \<Rightarrow> 'w \<Rightarrow> unit res \<times> qvi_task \<times> 'w" where
  "bind_push setb mytid cpuset t w =
     (case setb mytid cpuset w of
        (Inl f, w') \<Rightarrow> (Inl f, t, w')
      | (Inr u, w') \<Rightarrow> (Inr (), t\<lparr>m_stack := cpuset # m_stack t\<rparr>, w'))"

definition bind_pop :: "(int \<Rightarrow> bitmap \<Rightarrow> 'w \<Rightarrow> unit res \<times> 'w) \<Rightarrow> int \<Rightarrow> qvi_task \<Rightarrow> 'w \<Rightarrow> unit res \<times> qvi_task \<times> 'w" where
  "bind_pop setb mytid t w =
     (if m_stack t = [] then (Inl (Rc QV_ERR), t, w)
      else let t' = t\<lparr>m_stack := tl (m_stack t)\<rparr>
           in if m_stack t' = [] then (Inl (Rc QV_ERR), t', w)
              else case setb mytid (hd (m_stack t')) w of (r, w') \<Rightarrow> (r, t', w'))"

definition bind_top :: "qvi_task \<Rightarrow> bitmap res" where
  "bind_top t = (if m_stack t = [] then Inl (Rc QV_ERR) else Inr (hd (m_stack t)))"

text \<open>A sequence of operations, which stops at the first one that fails.\<close>

datatype bind_op = Push bitmap | Pop

fun run_ops ::
  "(int \<Rightarrow> bitmap \<Rightarrow> 'w \<Rightarrow> unit res \<times> 'w) \<Rightarrow> int \<Rightarrow> bind_op list \<Rightarrow> qvi_task \<Rightarrow> 'w \<Rightarrow> unit res \<times> qvi_task \<times> 'w" where
  "run_ops setb tid [] t w = (Inr (), t, w)"
| "run_ops setb tid (op # ops) t w =
     (case (case op of Push b \<Rightarrow> bind_push setb tid b t w | Pop \<Rightarrow> bind_pop setb tid t w) of
        (Inl f, t', w') \<Rightarrow> (Inl f, t', w')
      | (Inr u, t', w') \<Rightarrow> run_ops setb tid ops t' w')"

section \<open>The specification\<close>

text \<open>The stack of CPU sets that a sequence of operations describes; its last element is never removed.\<close>

fun spec_stack :: "bind_op list \<Rightarrow> bitmap list \<Rightarrow> bitmap list option" where
  "spec_stack [] s = Some s"
| "spec_stack (Push b # ops) s = spec_stack ops (b # s)"
| "spec_stack (Pop # ops) s = (case s of _ # b # s' \<Rightarrow> spec_stack ops (b # s') | _ \<Rightarrow> None)"

text \<open>The task's binding is the top of its stack, and the sets of the stack can be sent.\<close>

definition stack_ok :: "('w \<Rightarrow> int \<Rightarrow> bitmap option) \<Rightarrow> (int \<Rightarrow> bitmap \<Rightarrow> bool) \<Rightarrow> int \<Rightarrow> qvi_task \<Rightarrow> 'w \<Rightarrow> bool" where
  "stack_ok bound okset tid t w \<longleftrightarrow>
     m_stack t \<noteq> [] \<and> bound w tid = Some (hd (m_stack t)) \<and> (\<forall>b \<in> set (m_stack t). okset tid b)"

section \<open>The interface to the service that changes bindings\<close>

locale affinity_service =
  fixes ready :: "'w \<Rightarrow> bool"
    and okset :: "int \<Rightarrow> bitmap \<Rightarrow> bool"
    and bound :: "'w \<Rightarrow> int \<Rightarrow> bitmap option"
    and setb :: "int \<Rightarrow> bitmap \<Rightarrow> 'w \<Rightarrow> unit res \<times> 'w"
  assumes set_bound: "ready w \<Longrightarrow> okset who b \<Longrightarrow> setb who b w = (Inr u, w') \<Longrightarrow>
      ready w' \<and> bound w' who = Some b \<and> (\<forall>q. q \<noteq> who \<longrightarrow> bound w' q = bound w q)"
    and set_refused: "ready w \<Longrightarrow> okset who b \<Longrightarrow> setb who b w = (Inl e, w') \<Longrightarrow> w' = w"
begin

lemma push_ok:
  assumes "ready w" "okset tid c" "stack_ok bound okset tid t w" "bind_push setb tid c t w = (r, t', w')"
  shows "ready w' \<and> stack_ok bound okset tid t' w' \<and> (\<forall>q. q \<noteq> tid \<longrightarrow> bound w' q = bound w q) \<and>
    (case r of Inr u \<Rightarrow> m_stack t' = c # m_stack t | Inl f \<Rightarrow> t' = t \<and> w' = w)"
proof (cases "setb tid c w")
  case (Pair r0 w0)
  then show ?thesis
    using assms set_bound [OF assms(1,2), of _ w0] set_refused [OF assms(1,2), of _ w0]
    by (cases r0) (auto simp: bind_push_def stack_ok_def)
qed

lemma pop_ok:
  assumes "ready w" "stack_ok bound okset tid t w" "bind_pop setb tid t w = (Inr u, t', w')"
  shows "ready w' \<and> stack_ok bound okset tid t' w' \<and> (\<forall>q. q \<noteq> tid \<longrightarrow> bound w' q = bound w q) \<and>
    m_stack t' = tl (m_stack t) \<and> tl (m_stack t) \<noteq> []"
proof -
  obtain a b s where st: "m_stack t = a # b # s"
    using assms(3) by (cases "m_stack t" rule: list.exhaust [case_names Nil Cons]; cases "tl (m_stack t)")
      (auto simp: bind_pop_def)
  have "okset tid b" using assms(2) st by (simp add: stack_ok_def)
  moreover have "setb tid b w = (Inr u, w')" "t' = t\<lparr>m_stack := b # s\<rparr>"
    using assms(3) st by (auto simp: bind_pop_def split: prod.splits)
  ultimately show ?thesis using set_bound [OF assms(1), of tid b u w'] assms(2) st by (auto simp: stack_ok_def)
qed

lemma run_ops_ok:
  assumes "ready w" "stack_ok bound okset tid t w" "\<forall>b. Push b \<in> set ops \<longrightarrow> okset tid b"
    "run_ops setb tid ops t w = (Inr (), t', w')"
  shows "ready w' \<and> stack_ok bound okset tid t' w' \<and> (\<forall>q. q \<noteq> tid \<longrightarrow> bound w' q = bound w q) \<and>
    spec_stack ops (m_stack t) = Some (m_stack t')"
  using assms
proof (induction ops arbitrary: t w)
  case (Cons op ops)
  obtain r t1 w1 where step: "(case op of Push b \<Rightarrow> bind_push setb tid b t w | Pop \<Rightarrow> bind_pop setb tid t w) = (r, t1, w1)"
    by (metis prod_cases3)
  then obtain u where r: "r = Inr u" and rest: "run_ops setb tid ops t1 w1 = (Inr (), t', w')"
    using Cons.prems(4) by (cases r) auto
  have "ready w1 \<and> stack_ok bound okset tid t1 w1 \<and> (\<forall>q. q \<noteq> tid \<longrightarrow> bound w1 q = bound w q) \<and>
      spec_stack (op # ops) (m_stack t) = spec_stack ops (m_stack t1)"
  proof (cases op)
    case (Push b)
    then show ?thesis using push_ok [of w tid b t r t1 w1] Cons.prems step r by simp
  next
    case Pop
    then show ?thesis using pop_ok [of w tid t u t1 w1] Cons.prems step r
      by (auto simp: neq_Nil_conv split: list.splits)
  qed
  moreover have "\<forall>b. Push b \<in> set ops \<longrightarrow> okset tid b" using Cons.prems(3) by simp
  ultimately show ?case using Cons.IH [of w1 t1] rest by auto
qed simp

end

section \<open>The client as the service\<close>

text \<open>What the scheduler promises, and what a working connection needs.\<close>

definition sched_laws :: "scheduler \<Rightarrow> bool" where
  "sched_laws sched \<longleftrightarrow>
     (\<forall>who c b b'. sched who c b = Some b' \<longrightarrow> b' who = Some c \<and> (\<forall>q. q \<noteq> who \<longrightarrow> b' q = b q))"

definition link_ok :: "rmi_env \<Rightarrow> qvi_rmi_server \<Rightarrow> qvi_rmi_client \<Rightarrow> bool" where
  "link_ok E srv cl \<longleftrightarrow>
     env_ok E \<and> sched_laws (e_sched E) \<and> (\<exists>h. qvi_hwlocs_get (srv_hwlocs srv) (m_flags (cl_hwloc cl)) = Inr h) \<and>
     sendable E [Vrc QV_SUCCESS] \<and> sendable E [Vrc QV_ERR_NOT_SUPPORTED]"

definition cpuset_sendable :: "rmi_env \<Rightarrow> qvi_rmi_client \<Rightarrow> int \<Rightarrow> bitmap \<Rightarrow> bool" where
  "cpuset_sendable E cl who b \<longleftrightarrow> sendable E [Vflags (m_flags (cl_hwloc cl)), Vpid who, Vbitmap b]"

interpretation rmi: affinity_service "\<lambda>w. w_running w \<and> link_ok E srv cl" "cpuset_sendable E cl" w_binds
  "client_set_cpubind E (server_socket E srv) cl" for E srv cl
proof (unfold_locales, goal_cases)
  case (1 w who b u w')
  then obtain h where "qvi_hwlocs_get (srv_hwlocs srv) (m_flags (cl_hwloc cl)) = Inr h" by (auto simp: link_ok_def)
  with client_set_cpubind_eq [of E w srv cl h who b] 1 show ?case
    by (auto simp: link_ok_def cpuset_sendable_def sched_laws_def split: option.splits)
next
  case (2 w who b e w')
  then obtain h where "qvi_hwlocs_get (srv_hwlocs srv) (m_flags (cl_hwloc cl)) = Inr h" by (auto simp: link_ok_def)
  with client_set_cpubind_eq [of E w srv cl h who b] 2 show ?case
    by (auto simp: link_ok_def cpuset_sendable_def split: option.splits)
qed

lemma init_bind_stack_ok:
  assumes "link_ok E srv (m_rmi t)" "w_running w" "w_binds w tid = Some b" "m_stack t = []"
    "sendable E [Vflags (m_flags (cl_hwloc (m_rmi t))), Vpid tid]" "sendable E [Vrc QV_SUCCESS, Vbitmap b]"
  shows "m_init_bind_stack (client_get_cpubind E (server_socket E srv) (m_rmi t)) tid t w =
    (Inr (t\<lparr>m_stack := [b]\<rparr>), w)"
proof -
  from assms(1) obtain h where "qvi_hwlocs_get (srv_hwlocs srv) (m_flags (cl_hwloc (m_rmi t))) = Inr h" "env_ok E"
    by (auto simp: link_ok_def)
  with client_get_cpubind_eq [of E w srv "m_rmi t" h tid] assms show ?thesis
    by (simp add: m_init_bind_stack_def reply_sendable_def rpc_status_def task_get_cpubind_def remote_def)
qed

text \<open>Connecting to a daemon that is running.\<close>

definition hwloc_flags_of :: "int \<Rightarrow> int" where
  "hwloc_flags_of flags =
     (if flag_set flags QV_SCOPE_FLAG_NO_SMT then QVI_HWLOC_FLAG_TOPO_NO_SMT else QVI_HWLOC_FLAG_TOPO_FULL)"

definition io_works :: "conn_io \<Rightarrow> bool" where
  "io_works io \<longleftrightarrow> ctx_works io \<and> socket_works io \<and> connect_works io \<and> setsockopt_works io"

text \<open>What the client builds from the topology that the server tells it to use.\<close>

definition client_topology :: "rmi_env \<Rightarrow> bool \<Rightarrow> qvi_rmi_server \<Rightarrow> int \<Rightarrow> qvi_hwloc \<Rightarrow> qvi_hwloc res" where
  "client_topology E gpu_support srv flags h0 =
     rbind (qvi_hwlocs_get (srv_hwlocs srv) (hwloc_flags_of flags)) (\<lambda>h.
     rbind (topology_init (e_lib E) (hwloc_flags_of flags) (m_topo_file h) h0) (topology_load gpu_support (e_lib E)))"

definition connection_messages :: "rmi_env \<Rightarrow> qvi_rmi_server \<Rightarrow> int \<Rightarrow> int \<Rightarrow> qvi_hwloc \<Rightarrow> bitmap \<Rightarrow> rpc_val list list" where
  "connection_messages E srv flags tid h b =
     [[Vsize (e_version E), Vflags (hwloc_flags_of flags), Vpid tid],
      [Vrc QV_SUCCESS, Vstr (case qvi_hwlocs_get (srv_hwlocs srv) (hwloc_flags_of flags) of Inr hs \<Rightarrow> m_topo_file hs | Inl f \<Rightarrow> [])],
      [Vflags (m_flags h), Vpid tid], [Vrc QV_SUCCESS, Vbitmap b]]"

lemma hwlocs_get_masked:
  assumes "client_topology E gpu srv flags h0 = Inr h"
  shows "\<exists>hs. qvi_hwlocs_get (srv_hwlocs srv) (hwloc_flags_of flags) = Inr hs"
  using assms by (auto simp: client_topology_def rbind_Inr_iff)

lemma connect_to_server_ok:
  assumes env: "env_ok E" and run: "w_running w" and io: "io_works io"
    and disc: "discover getenv fs1 fs2 QVI_PORT_UNSET = Inr (QV_SUCCESS, p)" "p \<noteq> QVI_PORT_UNSET"
    and topo: "client_topology E gpu srv flags (cl_hwloc (m_rmi t0)) = Inr h"
    and get: "qvi_hwlocs_get (srv_hwlocs srv) (m_flags h) = Inr h'"
    and sent: "\<forall>vs \<in> set (connection_messages E srv flags tid h b). sendable E vs"
    and b: "w_binds w tid = Some b" and st: "m_stack t0 = []"
  shows "connect_to_server E gpu io getenv fs1 fs2 (server_socket E srv) tid flags t0 w =
    (Inr (t0\<lparr>m_rmi := (m_rmi t0)\<lparr>cl_connected := True, cl_config := \<lparr>url = ''tcp://127.0.0.1'' @ '':'' @ std_to_string p, portno = p\<rparr>,
        cl_hwloc := h\<rparr>, m_stack := [b]\<rparr>), w)"
proof -
  obtain hs where hs: "qvi_hwlocs_get (srv_hwlocs srv) (hwloc_flags_of flags) = Inr hs" using hwlocs_get_masked [OF topo] by blast
  then obtain h1 where h1: "topology_init (e_lib E) (hwloc_flags_of flags) (m_topo_file hs) (cl_hwloc (m_rmi t0)) = Inr h1"
    "topology_load gpu (e_lib E) h1 = Inr h" using topo by (auto simp: client_topology_def rbind_Inr_iff)
  have "m_hello E (server_socket E srv) tid (e_version E) (hwloc_flags_of flags) w = (Inr (m_topo_file hs), w)"
    using sent hs by (intro m_hello_eq [OF env run hs]) (simp_all add: connection_messages_def)
  moreover have "client_get_cpubind E (server_socket E srv) ((m_rmi t0)\<lparr>cl_connected := True, cl_config := cfg, cl_hwloc := h\<rparr>) tid w = (Inr b, w)" for cfg
    using client_get_cpubind_eq [OF env run, of srv "(m_rmi t0)\<lparr>cl_connected := True, cl_config := cfg, cl_hwloc := h\<rparr>" h' tid] get sent b
    by (simp add: connection_messages_def reply_sendable_def rpc_status_def task_get_cpubind_def remote_def)
  ultimately show ?thesis
    using disc h1 io st
    by (simp add: connect_to_server_def m_connect_to_server_def connect_def io_works_def Let_def m_init_bind_stack_def
        qvi_rmi_get_url_def flip: hwloc_flags_of_def)
qed

lemma discover_at_once:
  assumes "getenv QVI_ENV_PORT = None" "discover_impl (fs2 0) QVI_PORT_UNSET = Inr (QV_SUCCESS, p)"
  shows "discover getenv fs1 fs2 QVI_PORT_UNSET = Inr (QV_SUCCESS, p)"
  using assms by (simp add: discover_def qvi_port_from_env_def qvi_session_discover_def discover_with_backoff_def
      backoff_loop.simps Let_def)

section \<open>Properties\<close>


text \<open>A machine on which the client loads the topology it was built with.\<close>

definition demo_rmi_env :: "rpc_val list list \<Rightarrow> rmi_env" where
  "demo_rmi_env tab = (demo_env tab)\<lparr>e_lib := demo_lib\<lparr>lib_topology_init := Some (demo_topology 4)\<rparr>\<rparr>"

definition demo_proc :: "nat \<Rightarrow> proc_fs" where
  "demo_proc n = one_daemon_fs [''quo-vadisd'', ''--port'', ''7'']"

definition demo_io :: conn_io where
  "demo_io = \<lparr>ctx_works = True, socket_works = True, connect_works = True, setsockopt_works = True\<rparr>"

lemma demo_rmi_env_simps [simp]:
  "env_ok (demo_rmi_env tab)" "io_works demo_io" "e_version (demo_rmi_env tab) = 1"
  "discover_impl (demo_proc n) QVI_PORT_UNSET = Inr (QV_SUCCESS, 7)"
  "sendable (demo_rmi_env tab) vs = sendable (demo_env tab) vs"
  by (simp_all add: demo_rmi_env_def demo_env_def env_ok_def sendable_def demo_io_def io_works_def demo_proc_def
      discover_impl_def running_one_daemon portno_one_daemon QVI_PORT_UNSET_def)

lemma demo_client_topology: "client_topology (demo_rmi_env tab) False demo_server 0 (cl_hwloc demo_client) = Inr (demo_hwloc 4)"
  by (simp add: client_topology_def hwloc_flags_of_def flag_set_def qvi_hwlocs_get_def demo_server_def demo_hwloc_def
      topology_init_def topology_load_def demo_rmi_env_def demo_env_def demo_lib_def or_hwloc_err_def m_discover_devices_def
      demo_topology_def demo_client_def Let_def QVI_HWLOC_FLAG_TOPO_FULL_def QVI_HWLOC_FLAG_TOPO_NO_SMT_def QVI_HWLOC_TOPO_MASK_def)

lemma demo_connection_messages:
  "connection_messages (demo_rmi_env tab) demo_server 0 tid (demo_hwloc 4) b =
     [[Vsize 1, Vflags 1, Vpid tid], [Vrc QV_SUCCESS, Vstr []], [Vflags 1, Vpid tid], [Vrc QV_SUCCESS, Vbitmap b]]"
  by (simp add: connection_messages_def hwloc_flags_of_def flag_set_def QVI_HWLOC_FLAG_TOPO_FULL_def) (simp add: demo_hwloc_def)

lemma demo_task_facts:
  "(7 :: int) \<noteq> QVI_PORT_UNSET" "w_binds demo_world 42 = Some {0, 2, 3}" "m_flags (demo_hwloc n) = 1"
  by (simp_all add: QVI_PORT_UNSET_def demo_world_def demo_hwloc_def)



text \<open>C6: The bind stack does what it says, through the whole remote machinery: once a task has recorded its
  binding, any sequence of pushes and pops that succeeds leaves the stack that the specification
  describes, the task is bound to the top of that stack (so a balanced sequence restores the binding it
  started from), and no other task's binding has changed.\<close>

theorem bind_stack_follows_operations:
  assumes "link_ok E srv (m_rmi t0)" "w_running w0" "w_binds w0 tid = Some b0" "m_stack t0 = []"
    and "sendable E [Vflags (m_flags (cl_hwloc (m_rmi t0))), Vpid tid]" "sendable E [Vrc QV_SUCCESS, Vbitmap b0]"
    and "cpuset_sendable E (m_rmi t0) tid b0" "\<forall>b. Push b \<in> set ops \<longrightarrow> cpuset_sendable E (m_rmi t0) tid b"
    and "m_init_bind_stack (client_get_cpubind E (server_socket E srv) (m_rmi t0)) tid t0 w0 = (Inr t, w)"
    and "run_ops (client_set_cpubind E (server_socket E srv) (m_rmi t0)) tid ops t w = (Inr (), t', w')"
  shows "\<exists>s. spec_stack ops [b0] = Some s \<and> m_stack t' = s \<and> bind_top t' = Inr (hd s) \<and> w_binds w' tid = Some (hd s) \<and>
    (\<forall>q. q \<noteq> tid \<longrightarrow> w_binds w' q = w_binds w0 q)"
proof -
  have t: "t = t0\<lparr>m_stack := [b0]\<rparr>" "w = w0"
    using init_bind_stack_ok [OF assms(1-6)] assms(9) by auto
  have "stack_ok w_binds (cpuset_sendable E (m_rmi t0)) tid t w"
    using t assms(3,7) by (simp add: stack_ok_def)
  from rmi.run_ops_ok [OF _ this assms(8,10)] assms(1,2) t
  show ?thesis by (auto simp: stack_ok_def bind_top_def)
qed

theorem bind_stack_follows_operations_witness:
  "\<exists>t' w'. run_ops (client_set_cpubind
       (demo_env [[Vflags 1, Vpid 42], [Vrc QV_SUCCESS, Vbitmap {0, 2, 3}], [Vflags 1, Vpid 42, Vbitmap {2}],
         [Vflags 1, Vpid 42, Vbitmap {0, 2, 3}], [Vrc QV_SUCCESS], [Vrc QV_ERR_NOT_SUPPORTED]])
       (server_socket
         (demo_env [[Vflags 1, Vpid 42], [Vrc QV_SUCCESS, Vbitmap {0, 2, 3}], [Vflags 1, Vpid 42, Vbitmap {2}],
           [Vflags 1, Vpid 42, Vbitmap {0, 2, 3}], [Vrc QV_SUCCESS], [Vrc QV_ERR_NOT_SUPPORTED]]) demo_server)
       demo_client) 42 [Push {2}, Pop] \<lparr>m_rmi = demo_client, m_stack = [{0, 2, 3}]\<rparr> demo_world = (Inr (), t', w') \<and>
     w_binds w' 42 = Some {0, 2, 3}"
proof -
  let ?E = "demo_env [[Vflags 1, Vpid 42], [Vrc QV_SUCCESS, Vbitmap {0, 2, 3}], [Vflags 1, Vpid 42, Vbitmap {2}],
         [Vflags 1, Vpid 42, Vbitmap {0, 2, 3}], [Vrc QV_SUCCESS], [Vrc QV_ERR_NOT_SUPPORTED]]"
  let ?set = "client_set_cpubind ?E (server_socket ?E demo_server) demo_client"
  let ?init = "\<lparr>m_rmi = demo_client, m_stack = []\<rparr>" and ?t = "\<lparr>m_rmi = demo_client, m_stack = [{0, 2, 3}]\<rparr>"
  have sched: "e_sched ?E = (\<lambda>who c b. Some (b(who \<mapsto> c)))" by (simp add: demo_env_def)
  have link: "link_ok ?E demo_server demo_client"
    by (simp add: link_ok_def sched_laws_def sched sendable_demo)
  have init: "m_init_bind_stack (client_get_cpubind ?E (server_socket ?E demo_server) demo_client) 42 ?init demo_world =
      (Inr ?t, demo_world)"
    using init_bind_stack_ok [of ?E demo_server ?init demo_world 42 "{0, 2, 3}"] link
    by (simp add: sendable_demo demo_world_def)
  have set: "?set 42 b w = (Inr (), w\<lparr>w_binds := (w_binds w)(42 \<mapsto> b)\<rparr>)"
    if "w_running w" "b = {2} \<or> b = {0, 2, 3}" for b w
    using client_set_cpubind_eq [of ?E w demo_server demo_client "demo_hwloc 4" 42 b] that
    by (auto simp: sched sendable_demo)
  have run: "\<exists>t' w'. run_ops ?set 42 [Push {2}, Pop] ?t demo_world = (Inr (), t', w')"
    using set by (simp add: bind_push_def bind_pop_def)
  then obtain t' w' where tw: "run_ops ?set 42 [Push {2}, Pop] ?t demo_world = (Inr (), t', w')" by blast
  from bind_stack_follows_operations [of ?E demo_server ?init demo_world 42 "{0, 2, 3}" "[Push {2}, Pop]" ?t demo_world t' w']
  have "w_binds w' 42 = Some {0, 2, 3}"
    using link init tw by (simp add: sendable_demo cpuset_sendable_def demo_world_def)
  with tw show ?thesis by blast
qed

text \<open>The error paths of a pop. Popping the recorded initial binding is refused with
  \<^verbatim>\<open>QV_ERR\<close> but has emptied the stack, so that the task's top can no longer be queried; and when the
  new binding is refused, the stack has already been popped, so its top is no longer the task's binding.\<close>

theorem bind_pop_errors:
  "(m_stack t = [b] \<longrightarrow>
      bind_pop setb tid t w = (Inl (Rc QV_ERR), t\<lparr>m_stack := []\<rparr>, w) \<and>
      bind_top (t\<lparr>m_stack := []\<rparr>) = Inl (Rc QV_ERR) \<and>
      bind_pop setb tid (t\<lparr>m_stack := []\<rparr>) w = (Inl (Rc QV_ERR), t\<lparr>m_stack := []\<rparr>, w)) \<and>
   (m_stack t = a # c # s \<and> setb tid c w = (Inl f, w) \<longrightarrow>
      bind_pop setb tid t w = (Inl f, t\<lparr>m_stack := c # s\<rparr>, w))"
  by (auto simp: bind_pop_def bind_top_def)

theorem bind_pop_errors_witness:
  "bind_pop (\<lambda>who c w. (Inl (Rc QV_ERR_NOT_SUPPORTED), w)) 42 \<lparr>m_rmi = demo_client, m_stack = [{0}, {2}]\<rparr> demo_world =
     (Inl (Rc QV_ERR_NOT_SUPPORTED), \<lparr>m_rmi = demo_client, m_stack = [{2}]\<rparr>, demo_world)"
  using bind_pop_errors [of "\<lparr>m_rmi = demo_client, m_stack = [{0}, {2}]\<rparr>" "{}" "\<lambda>who c w. (Inl (Rc QV_ERR_NOT_SUPPORTED), w)"
      42 demo_world "{0}" "{2}" "[]" "Rc QV_ERR_NOT_SUPPORTED"]
  by simp

end
