(* ===== verification/QV_Session.thy ===== *)
theory QV_Session
  imports QV_Task
begin

text \<open>
  Several tasks at one server. Each task is a thread with its own \<^verbatim>\<open>qvi_task\<close> (a client and a bind
  stack, \<^verbatim>\<open>qvi-task.cc\<close>); the tasks connect, change their bindings and leave in any order, each
  call being one exchange with the server (\<^verbatim>\<open>qvi-rmi.cc\<close>), which handles one message at a time. The theory
  composes the operations of \<open>QV_Task\<close> with the server of \<open>QV_Rmi\<close> as a step relation and shows by rule
  induction that the tasks do not disturb each other.
\<close>

section \<open>The session\<close>

record session =
  ses_tasks :: "int \<rightharpoonup> qvi_task"
  ses_world :: rmi_world

text \<open>
  What happened: a task has connected and found a binding, a push or a pop has returned, a task is gone, or the server was sent some other
  message (a query, a greeting, a request to shut down, or bytes that make no sense).
\<close>

datatype session_event =
    Joined int bitmap
  | Pushed int bitmap "unit res"
  | Popped int "unit res"
  | Left int
  | Asked "byte list"

definition put_task :: "int \<Rightarrow> qvi_task \<Rightarrow> rmi_world \<Rightarrow> session \<Rightarrow> session" where
  "put_task tid t w s = s\<lparr>ses_tasks := (ses_tasks s)(tid \<mapsto> t), ses_world := w\<rparr>"

definition session_setb :: "rmi_env \<Rightarrow> qvi_rmi_server \<Rightarrow> qvi_task \<Rightarrow> int \<Rightarrow> bitmap \<Rightarrow> rmi_world \<Rightarrow> unit res \<times> rmi_world" where
  "session_setb E srv t = client_set_cpubind E (server_socket E srv) (m_rmi t)"

definition sets_cpubind :: "byte list \<Rightarrow> bool" where
  "sets_cpubind msg \<longleftrightarrow> unpack_msg_header msg = Inr (fid_code QVI_RMI_FID_SET_CPUBIND, header_size)"

inductive session_step :: "rmi_env \<Rightarrow> qvi_rmi_server \<Rightarrow> session \<Rightarrow> session_event \<Rightarrow> session \<Rightarrow> bool" for E srv where
  join: "ses_tasks s tid = None \<Longrightarrow> w_binds (ses_world s) tid = Some b \<Longrightarrow> m_stack t0 = [] \<Longrightarrow>
    connect_to_server E gpu io getenv fs1 fs2 (server_socket E srv) tid flags t0 (ses_world s) = (Inr t, w') \<Longrightarrow>
    \<forall>vs \<in> set (connection_messages E srv flags tid (cl_hwloc (m_rmi t)) b). sendable E vs \<Longrightarrow>
    cpuset_sendable E (m_rmi t) tid b \<Longrightarrow>
    session_step E srv s (Joined tid b) (put_task tid t w' s)"
| push: "ses_tasks s tid = Some t \<Longrightarrow> cpuset_sendable E (m_rmi t) tid c \<Longrightarrow>
    bind_push (session_setb E srv t) tid c t (ses_world s) = (r, t', w') \<Longrightarrow>
    session_step E srv s (Pushed tid c r) (put_task tid t' w' s)"
| pop: "ses_tasks s tid = Some t \<Longrightarrow>
    bind_pop (session_setb E srv t) tid t (ses_world s) = (r, t', w') \<Longrightarrow>
    session_step E srv s (Popped tid r) (put_task tid t' w' s)"
| leave: "ses_tasks s tid = Some t \<Longrightarrow>
    session_step E srv s (Left tid) (s\<lparr>ses_tasks := (ses_tasks s)(tid := None)\<rparr>)"
| ask: "\<not> sets_cpubind msg \<Longrightarrow> server_socket E srv msg (ses_world s) = (n, reply, w') \<Longrightarrow>
    session_step E srv s (Asked msg) (s\<lparr>ses_world := w'\<rparr>)"

inductive_cases session_step_cases: "session_step E srv s ev s'"

inductive session_run :: "rmi_env \<Rightarrow> qvi_rmi_server \<Rightarrow> session \<Rightarrow> session_event list \<Rightarrow> session \<Rightarrow> bool" for E srv s0 where
  start: "session_run E srv s0 [] s0"
| more: "session_run E srv s0 tr s \<Longrightarrow> session_step E srv s ev s' \<Longrightarrow> session_run E srv s0 (tr @ [ev]) s'"

text \<open>What one task's own events say about its stack. A pop that fails has popped all the same.\<close>

fun own_step :: "int \<Rightarrow> session_event \<Rightarrow> bitmap list \<Rightarrow> bitmap list" where
  "own_step tid (Joined q b) s = (if q = tid then [b] else s)"
| "own_step tid (Pushed q c r) s = (if q = tid \<and> r = Inr () then c # s else s)"
| "own_step tid (Popped q r) s = (if q = tid then tl s else s)"
| "own_step tid (Left q) s = (if q = tid then [] else s)"
| "own_step tid (Asked msg) s = s"

definition own_stack :: "int \<Rightarrow> session_event list \<Rightarrow> bitmap list" where
  "own_stack tid tr = fold (own_step tid) tr []"

definition pops_worked :: "int \<Rightarrow> session_event list \<Rightarrow> bool" where
  "pops_worked tid tr \<longleftrightarrow> (\<forall>r. Popped tid r \<in> set tr \<longrightarrow> r = Inr ())"

text \<open>A server that holds both topologies, on a machine whose scheduler and archives work.\<close>

definition server_ready :: "rmi_env \<Rightarrow> qvi_rmi_server \<Rightarrow> bool" where
  "server_ready E srv \<longleftrightarrow>
     env_ok E \<and> sched_laws (e_sched E) \<and> sendable E [Vrc QV_SUCCESS] \<and> sendable E [Vrc QV_ERR_NOT_SUPPORTED] \<and>
     (\<forall>fl \<in> set topo_types. \<exists>h. qvi_hwlocs_get (srv_hwlocs srv) fl = Inr h)"

section \<open>Messages that are not requests to bind\<close>

lemma rpc_reply_binds: "rpc_reply E fid w vals = Inr (rc, b, w') \<Longrightarrow> w' = w"
  by (auto simp: rpc_reply_def split: sum.splits fail.splits)

lemma handler_keeps_binds:
  "map_of (m_rpc_dispatch_table E) fid = Some handler \<Longrightarrow> fid \<noteq> fid_code QVI_RMI_FID_SET_CPUBIND \<Longrightarrow>
    handler srv fid body w = Inr (rc, b, w') \<Longrightarrow> w' = w"
  by (auto simp: handler_simps s_rpc_hello_def s_rpc_invalid_def s_rpc_shutdown_def rbind_Inr_iff dest!: rpc_reply_binds
      split: if_splits sum.splits prod.splits list.splits rpc_val.splits fail.splits)

lemma dispatch_keeps_binds:
  assumes "m_rpc_dispatch E zsend srv msg w = Inr (rc, reply, w')" "\<not> sets_cpubind msg"
  shows "w' = w"
proof -
  obtain fid trim where hdr: "unpack_msg_header msg = Inr (fid, trim)"
    using assms(1) by (auto simp: m_rpc_dispatch_def rbind_Inr_iff)
  then have fid: "fid \<noteq> fid_code QVI_RMI_FID_SET_CPUBIND"
    using assms(2) by (auto simp: sets_cpubind_def unpack_msg_header_def split: if_splits)
  show ?thesis
  proof (cases "map_of (m_rpc_dispatch_table E) fid")
    case None
    then show ?thesis using assms(1) hdr by (simp add: m_rpc_dispatch_def)
  next
    case (Some handler)
    then obtain rc0 b where "handler srv fid (data_trim msg trim) w = Inr (rc0, b, w')"
      using assms(1) hdr by (auto simp: m_rpc_dispatch_def rbind_Inr_iff zsock_send_bbuff_def split: option.splits if_splits)
    then show ?thesis by (rule handler_keeps_binds [OF Some fid])
  qed
qed

lemma ask_keeps_binds:
  assumes "server_socket E srv msg w = (n, reply, w')" "\<not> sets_cpubind msg"
  shows "w_binds w' = w_binds w"
  using assms dispatch_keeps_binds [of E _ srv msg "w_binds w"]
  by (auto simp: server_socket_def split: if_splits sum.splits)

section \<open>The service with or without a server\<close>

text \<open>Once the server is gone, requests fail and change nothing: the laws of the service hold in every world.\<close>

lemma client_set_cpubind_no_server:
  assumes "link_ok E srv cl" "cpuset_sendable E cl who b" "\<not> w_running w"
  shows "client_set_cpubind E (server_socket E srv) cl who b w = (Inl (Rc QV_ERR_RPC), w)"
  using assms rpc_call_no_server [of E w] by (simp add: client_set_cpubind_def link_ok_def cpuset_sendable_def)

interpretation ses: affinity_service "\<lambda>w. link_ok E srv cl" "cpuset_sendable E cl" w_binds
  "client_set_cpubind E (server_socket E srv) cl" for E srv cl
proof (unfold_locales, goal_cases)
  case (1 w who b u w')
  then show ?case using rmi.set_bound [of w E srv cl who b u w'] client_set_cpubind_no_server [of E srv cl who b w]
    by (cases "w_running w") auto
next
  case (2 w who b e w')
  then show ?case using rmi.set_refused [of w E srv cl who b e w'] client_set_cpubind_no_server [of E srv cl who b w]
    by (cases "w_running w") auto
qed

section \<open>Joining\<close>

lemma hwlocs_get_xml: "qvi_hwlocs_get hs (or fl QVI_HWLOC_FLAG_TOPO_XML) = qvi_hwlocs_get hs fl"
  by (simp add: qvi_hwlocs_get_def QVI_HWLOC_FLAG_TOPO_XML_def QVI_HWLOC_TOPO_MASK_def bit.conj_disj_distrib2)

lemma hwloc_flags_of_types: "hwloc_flags_of flags \<in> set topo_types"
  by (simp add: hwloc_flags_of_def topo_types_def)

text \<open>What a successful connection went through.\<close>

lemma connect_to_server_steps:
  assumes "connect_to_server E gpu io getenv fs1 fs2 zsock tid flags t0 w = (Inr t, w')"
  shows "\<exists>curl p cl w1. connect E gpu io zsock tid flags curl p (m_rmi t0) w = (Inr (QV_SUCCESS, cl), w1) \<and>
    m_init_bind_stack (client_get_cpubind E zsock cl) tid (t0\<lparr>m_rmi := cl\<rparr>) w1 = (Inr t, w')"
  using assms
  by (auto simp: connect_to_server_def m_connect_to_server_def rbind_Inr_iff split: sum.splits prod.splits if_splits fail.splits)
    (intro exI conjI, assumption+)

lemma connect_steps:
  assumes "connect E gpu io zsock tid flags curl p cl0 w = (Inr (QV_SUCCESS, cl), w1)"
    and "\<And>w2. m_hello E zsock tid (e_version E) (hwloc_flags_of flags) w \<noteq> (Inl (Rc QV_SUCCESS), w2)"
  shows "\<exists>path h1. m_hello E zsock tid (e_version E) (hwloc_flags_of flags) w = (Inr path, w1) \<and>
    topology_init (e_lib E) (hwloc_flags_of flags) path (cl_hwloc cl0) = Inr h1 \<and>
    topology_load gpu (e_lib E) h1 = Inr (cl_hwloc cl)"
proof (cases "m_hello E zsock tid (e_version E) (hwloc_flags_of flags) w")
  case (Pair r w2)
  have io: "ctx_works io \<and> socket_works io \<and> connect_works io \<and> setsockopt_works io"
    using assms(1) by (auto simp: connect_def split: if_splits)
  show ?thesis
  proof (cases r)
    case (Inl f)
    then show ?thesis using assms io Pair
      by (cases f) (auto simp: connect_def Let_def simp flip: hwloc_flags_of_def)
  next
    case (Inr path)
    then show ?thesis using assms(1) io Pair
      by (auto simp: connect_def Let_def simp flip: hwloc_flags_of_def split: sum.splits fail.splits)
  qed
qed

text \<open>The greeting of a server that holds the topology asked for.\<close>

lemma hello_ready:
  assumes "env_ok E" "qvi_hwlocs_get (srv_hwlocs srv) fl = Inr hs"
    and "sendable E [Vsize (e_version E), Vflags fl, Vpid tid]" "sendable E [Vrc QV_SUCCESS, Vstr (m_topo_file hs)]"
  shows "m_hello E (server_socket E srv) tid (e_version E) fl w =
    (if w_running w then (Inr (m_topo_file hs), w) else (Inl (Rc QV_ERR_RPC), w))"
proof (cases "w_running w")
  case True
  then show ?thesis using m_hello_eq [OF assms(1) _ assms(2-4)] by simp
next
  case False
  then show ?thesis unfolding m_hello_def using rpc_call_no_server [OF assms(1) False assms(3)] by (simp only: if_False)
qed

text \<open>A task that has connected found a running server, holds its topology and has recorded the binding it has.\<close>

lemma connect_to_server_inv:
  assumes ready: "server_ready E srv" and "m_stack t0 = []" "w_binds w tid = Some b"
    and conn: "connect_to_server E gpu io getenv fs1 fs2 (server_socket E srv) tid flags t0 w = (Inr t, w')"
    and sent: "\<forall>vs \<in> set (connection_messages E srv flags tid (cl_hwloc (m_rmi t)) b). sendable E vs"
  shows "w' = w \<and> m_stack t = [b] \<and> link_ok E srv (m_rmi t)"
proof -
  obtain hs where hs: "qvi_hwlocs_get (srv_hwlocs srv) (hwloc_flags_of flags) = Inr hs"
    using ready hwloc_flags_of_types by (auto simp: server_ready_def)
  obtain curl p cl w1 where c: "connect E gpu io (server_socket E srv) tid flags curl p (m_rmi t0) w = (Inr (QV_SUCCESS, cl), w1)"
    and i: "m_init_bind_stack (client_get_cpubind E (server_socket E srv) cl) tid (t0\<lparr>m_rmi := cl\<rparr>) w1 = (Inr t, w')"
    using connect_to_server_steps [OF conn] by blast
  have cl: "m_rmi t = cl" using i by (auto simp: m_init_bind_stack_def rbind_Inr_iff split: prod.splits)
  have hello: "m_hello E (server_socket E srv) tid (e_version E) (hwloc_flags_of flags) w =
      (if w_running w then (Inr (m_topo_file hs), w) else (Inl (Rc QV_ERR_RPC), w))"
    using hello_ready [OF _ hs] ready sent hs by (simp add: server_ready_def connection_messages_def)
  then have "m_hello E (server_socket E srv) tid (e_version E) (hwloc_flags_of flags) w \<noteq> (Inl (Rc QV_SUCCESS), w2)" for w2
    by simp
  then obtain path h1 where path: "m_hello E (server_socket E srv) tid (e_version E) (hwloc_flags_of flags) w = (Inr path, w1)"
    and h: "topology_init (e_lib E) (hwloc_flags_of flags) path (cl_hwloc (m_rmi t0)) = Inr h1"
      "topology_load gpu (e_lib E) h1 = Inr (cl_hwloc cl)" using connect_steps [OF c] by meson
  have w1: "w_running w" "w1 = w" using path hello by (auto split: if_splits)
  have link: "link_ok E srv cl"
    using ready hs topology_load_flags [OF h(2)] topology_init_flags [OF h(1)] hwlocs_get_xml
    by (auto simp: link_ok_def server_ready_def)
  have "t = t0\<lparr>m_rmi := cl, m_stack := [b]\<rparr> \<and> w' = w"
    using init_bind_stack_ok [of E srv "t0\<lparr>m_rmi := cl\<rparr>" w tid b] link w1 assms(2,3) sent cl i
    by (auto simp: connection_messages_def)
  then show ?thesis using link by simp
qed

section \<open>The invariant\<close>

definition task_inv :: "rmi_env \<Rightarrow> qvi_rmi_server \<Rightarrow> session_event list \<Rightarrow> rmi_world \<Rightarrow> int \<Rightarrow> qvi_task \<Rightarrow> bool" where
  "task_inv E srv tr w tid t \<longleftrightarrow>
     link_ok E srv (m_rmi t) \<and> m_stack t = own_stack tid tr \<and> (\<forall>b \<in> set (m_stack t). cpuset_sendable E (m_rmi t) tid b) \<and>
     (pops_worked tid tr \<longrightarrow> stack_ok w_binds (cpuset_sendable E (m_rmi t)) tid t w)"

definition session_inv :: "rmi_env \<Rightarrow> qvi_rmi_server \<Rightarrow> session_event list \<Rightarrow> session \<Rightarrow> bool" where
  "session_inv E srv tr s \<longleftrightarrow> (\<forall>tid t. ses_tasks s tid = Some t \<longrightarrow> task_inv E srv tr (ses_world s) tid t)"

lemma own_stack_snoc [simp]: "own_stack tid (tr @ [ev]) = own_step tid ev (own_stack tid tr)"
  by (simp add: own_stack_def)

lemma pops_worked_snoc [simp]:
  "pops_worked tid (tr @ [ev]) \<longleftrightarrow> pops_worked tid tr \<and> (\<forall>r. ev = Popped tid r \<longrightarrow> r = Inr ())"
  by (auto simp: pops_worked_def)

lemma stack_ok_cong: "w_binds w' tid = w_binds w tid \<Longrightarrow> stack_ok w_binds P tid t w' = stack_ok w_binds P tid t w"
  by (simp add: stack_ok_def)

text \<open>An event of another task, or of none, that leaves a task's binding alone keeps what holds of the task.\<close>

lemma task_inv_other:
  assumes "task_inv E srv tr w q t" "w_binds w' q = w_binds w q"
    and "own_step q ev (own_stack q tr) = own_stack q tr"
  shows "task_inv E srv (tr @ [ev]) w' q t"
  using assms stack_ok_cong [OF assms(2)] by (simp add: task_inv_def)

lemma session_inv_put:
  assumes "session_inv E srv tr s" "\<And>q. q \<noteq> tid \<Longrightarrow> w_binds w' q = w_binds (ses_world s) q"
    and "\<And>q st. q \<noteq> tid \<Longrightarrow> own_step q ev st = st" "task_inv E srv (tr @ [ev]) w' tid t'"
  shows "session_inv E srv (tr @ [ev]) (put_task tid t' w' s)"
  using assms task_inv_other [of E srv tr "ses_world s" _ _ w' ev] by (auto simp: session_inv_def put_task_def)

lemma session_setb_cases:
  assumes "link_ok E srv (m_rmi t)" "cpuset_sendable E (m_rmi t) tid c" "session_setb E srv t tid c w = (r, w')"
  obtains "r = Inr ()" "w_binds w' tid = Some c" "\<And>q. q \<noteq> tid \<Longrightarrow> w_binds w' q = w_binds w q"
    | f where "r = Inl f" "w' = w"
proof (cases r)
  case (Inl f)
  then show ?thesis using that(2) ses.set_refused [OF assms(1,2)] assms(3) by (simp add: session_setb_def)
next
  case (Inr u)
  then show ?thesis using that(1) ses.set_bound [OF assms(1,2), of w u w'] assms(3) by (simp add: session_setb_def)
qed

lemma task_inv_push:
  assumes inv: "task_inv E srv tr w tid t" and c: "cpuset_sendable E (m_rmi t) tid c"
    and push: "bind_push (session_setb E srv t) tid c t w = (r, t', w')"
  shows "task_inv E srv (tr @ [Pushed tid c r]) w' tid t' \<and> (\<forall>q. q \<noteq> tid \<longrightarrow> w_binds w' q = w_binds w q)"
proof -
  obtain r1 w1 where set: "session_setb E srv t tid c w = (r1, w1)" by (cases "session_setb E srv t tid c w")
  have link: "link_ok E srv (m_rmi t)" using inv by (simp add: task_inv_def)
  from link c set show ?thesis
    by (rule session_setb_cases) (use push set inv c in \<open>auto simp: bind_push_def task_inv_def stack_ok_def\<close>)
qed

lemma task_inv_pop:
  assumes inv: "task_inv E srv tr w tid t" and pop: "bind_pop (session_setb E srv t) tid t w = (r, t', w')"
  shows "task_inv E srv (tr @ [Popped tid r]) w' tid t' \<and> (\<forall>q. q \<noteq> tid \<longrightarrow> w_binds w' q = w_binds w q)"
proof (cases "\<exists>a b s. m_stack t = a # b # s")
  case True
  then obtain a b s where st: "m_stack t = a # b # s" by blast
  have "link_ok E srv (m_rmi t)" "cpuset_sendable E (m_rmi t) tid b"
    using inv st by (simp_all add: task_inv_def)
  moreover have set: "session_setb E srv t tid b w = (r, w')" "t' = t\<lparr>m_stack := b # s\<rparr>"
    using pop st by (auto simp: bind_pop_def split: prod.splits)
  moreover have "own_stack tid tr = a # b # s" using inv st by (simp add: task_inv_def)
  ultimately show ?thesis
    by (elim session_setb_cases) (use inv st in \<open>auto simp: task_inv_def stack_ok_def\<close>)
next
  case False
  then have "m_stack t' = tl (m_stack t) \<and> m_rmi t' = m_rmi t \<and> w' = w \<and> r = Inl (Rc QV_ERR) \<and> tl (m_stack t) = []"
    using pop by (cases "m_stack t" rule: remdups_adj.cases) (auto simp: bind_pop_def)
  then show ?thesis using inv by (auto simp: task_inv_def)
qed

lemma session_step_inv:
  assumes "server_ready E srv" "session_inv E srv tr s" "session_step E srv s ev s'"
  shows "session_inv E srv (tr @ [ev]) s'"
  using assms(3)
proof cases
  case (join tid b t0 gpu io getenv fs1 fs2 flags t w')
  have "w' = ses_world s \<and> m_stack t = [b] \<and> link_ok E srv (m_rmi t)"
    using connect_to_server_inv [OF assms(1) join(5,4,6,7)] .
  then show ?thesis using join assms(2)
    by (auto simp: task_inv_def stack_ok_def intro!: session_inv_put)
next
  case (push tid t c r t' w')
  then show ?thesis using task_inv_push [of E srv tr "ses_world s" tid t c r t' w'] assms(2)
    by (auto simp: session_inv_def [of E srv tr s] intro!: session_inv_put)
next
  case (pop tid t r t' w')
  then show ?thesis using task_inv_pop [of E srv tr "ses_world s" tid t r t' w'] assms(2)
    by (auto simp: session_inv_def [of E srv tr s] intro!: session_inv_put)
next
  case (leave tid t)
  then show ?thesis using assms(2) task_inv_other [of E srv tr "ses_world s" _ _ "ses_world s" ev]
    by (auto simp: session_inv_def)
next
  case (ask msg n reply w')
  then show ?thesis using assms(2) ask_keeps_binds [OF ask(4,3)] task_inv_other [of E srv tr "ses_world s" _ _ w' ev]
    by (auto simp: session_inv_def)
qed

lemma session_run_inv:
  assumes "server_ready E srv" "session_run E srv \<lparr>ses_tasks = Map.empty, ses_world = w0\<rparr> tr s"
  shows "session_inv E srv tr s"
  using assms(2)
proof (induction rule: session_run.induct)
  case start
  show ?case by (simp add: session_inv_def)
next
  case (more tr s ev s')
  then show ?case using session_step_inv [OF assms(1)] by blast
qed

section \<open>A concrete session\<close>

text \<open>Two threads of one process on a node with four processing units.\<close>

definition demo_session_tab :: "rpc_val list list" where
  "demo_session_tab =
     [[Vrc QV_SUCCESS], [Vrc QV_ERR_NOT_SUPPORTED], [Vrc QV_SUCCESS, Vstr []],
      [Vsize 1, Vflags 1, Vpid 42], [Vflags 1, Vpid 42], [Vrc QV_SUCCESS, Vbitmap {0, 2, 3}],
      [Vflags 1, Vpid 42, Vbitmap {0, 2, 3}], [Vflags 1, Vpid 42, Vbitmap {2}],
      [Vsize 1, Vflags 1, Vpid 43], [Vflags 1, Vpid 43], [Vrc QV_SUCCESS, Vbitmap {1}],
      [Vflags 1, Vpid 43, Vbitmap {1}], [Vflags 1, Vpid 43, Vbitmap {3}]]"

definition demo_session_env :: rmi_env where
  "demo_session_env = demo_rmi_env demo_session_tab"

definition demo_task :: "bitmap list \<Rightarrow> qvi_task" where
  "demo_task st = \<lparr>m_rmi = demo_client, m_stack = st\<rparr>"

definition demo_session_start :: session where
  "demo_session_start = \<lparr>ses_tasks = Map.empty, ses_world = \<lparr>w_binds = [42 \<mapsto> {0, 2, 3}, 43 \<mapsto> {1}], w_running = True\<rparr>\<rparr>"

lemma demo_session_sendable: "vs \<in> set demo_session_tab \<Longrightarrow> sendable demo_session_env vs"
  using sendable_demo [of vs demo_session_tab] by (simp add: demo_session_env_def) (simp add: demo_session_tab_def)

lemma demo_session_sched [simp]: "e_sched demo_session_env who c b = Some (b(who \<mapsto> c))"
  by (simp add: demo_session_env_def demo_rmi_env_def demo_env_def)

lemma demo_session_ready: "server_ready demo_session_env demo_server"
  by (simp add: server_ready_def demo_session_sendable demo_session_tab_def topo_types_def)
    (simp add: demo_session_env_def sched_laws_def demo_rmi_env_def demo_env_def qvi_hwlocs_get_def demo_server_def
      QVI_HWLOC_FLAG_TOPO_FULL_def QVI_HWLOC_FLAG_TOPO_NO_SMT_def QVI_HWLOC_TOPO_MASK_def env_ok_def)

lemma demo_link: "link_ok demo_session_env demo_server demo_client"
  using demo_session_ready by (auto simp: link_ok_def server_ready_def)

lemma std_to_string_7: "std_to_string 7 = ''7''"
  by code_simp

lemma demo_join:
  assumes "ses_tasks s tid = None" "w_binds (ses_world s) tid = Some b" "w_running (ses_world s)"
    and "{[Vsize 1, Vflags 1, Vpid tid], [Vflags 1, Vpid tid], [Vrc QV_SUCCESS, Vbitmap b], [Vflags 1, Vpid tid, Vbitmap b]}
      \<subseteq> set demo_session_tab"
  shows "session_step demo_session_env demo_server s (Joined tid b) (put_task tid (demo_task [b]) (ses_world s) s)"
proof -
  have tab: "[Vrc QV_SUCCESS, Vstr []] \<in> set demo_session_tab" by (simp add: demo_session_tab_def)
  have sent: "\<forall>vs \<in> set (connection_messages demo_session_env demo_server 0 tid (demo_hwloc 4) b). sendable demo_session_env vs"
    using assms(4) tab demo_session_sendable unfolding demo_session_env_def demo_connection_messages by auto
  have "connect_to_server demo_session_env False demo_io (\<lambda>v. None) demo_proc demo_proc (server_socket demo_session_env demo_server) tid 0
      (demo_task []) (ses_world s) = (Inr (demo_task [b]), ses_world s)"
    using connect_to_server_ok [OF _ assms(3) _ _ _ _ _ sent assms(2), of demo_io "\<lambda>v. None" demo_proc demo_proc 7 False "demo_task []" "demo_hwloc 4"]
      discover_at_once [of "\<lambda>v. None" demo_proc 7 demo_proc] demo_client_topology [of demo_session_tab] demo_session_ready demo_task_facts
    by (simp add: demo_task_def server_ready_def flip: demo_session_env_def)
      (simp add: demo_client_def demo_session_env_def std_to_string_7)
  then show ?thesis
    by (rule session_step.join [OF assms(1,2), rotated])
      (use assms(4) sent demo_session_sendable in \<open>auto simp: demo_task_def demo_client_def cpuset_sendable_def demo_hwloc_def\<close>)
qed

lemma demo_setb:
  assumes "w_running w" "[Vflags 1, Vpid tid, Vbitmap c] \<in> set demo_session_tab"
  shows "session_setb demo_session_env demo_server (demo_task st) tid c w = (Inr (), w\<lparr>w_binds := (w_binds w)(tid \<mapsto> c)\<rparr>)"
  using client_set_cpubind_eq [of demo_session_env w demo_server demo_client "demo_hwloc 4" tid c] assms demo_session_ready
  by (simp add: session_setb_def demo_task_def demo_session_sendable server_ready_def)

lemma demo_push:
  assumes "ses_tasks s tid = Some (demo_task st)" "w_running (ses_world s)" "[Vflags 1, Vpid tid, Vbitmap c] \<in> set demo_session_tab"
  shows "session_step demo_session_env demo_server s (Pushed tid c (Inr ()))
    (put_task tid (demo_task (c # st)) ((ses_world s)\<lparr>w_binds := (w_binds (ses_world s))(tid \<mapsto> c)\<rparr>) s)"
  using assms by (intro session_step.push [OF assms(1)])
    (simp_all add: bind_push_def demo_setb cpuset_sendable_def demo_session_sendable, simp_all add: demo_task_def demo_session_sendable)

lemma demo_pop:
  assumes "ses_tasks s tid = Some (demo_task (a # c # st))" "w_running (ses_world s)" "[Vflags 1, Vpid tid, Vbitmap c] \<in> set demo_session_tab"
  shows "session_step demo_session_env demo_server s (Popped tid (Inr ()))
    (put_task tid (demo_task (c # st)) ((ses_world s)\<lparr>w_binds := (w_binds (ses_world s))(tid \<mapsto> c)\<rparr>) s)"
  using demo_setb [OF assms(2,3), of "a # c # st"] by (intro session_step.pop [OF assms(1)]) (simp add: bind_pop_def, simp add: demo_task_def)

definition demo_trace :: "session_event list" where
  "demo_trace = [Joined 42 {0, 2, 3}, Joined 43 {1}, Pushed 42 {2} (Inr ()), Pushed 43 {3} (Inr ()), Popped 42 (Inr ())]"

lemma demo_run: "\<exists>s. session_run demo_session_env demo_server demo_session_start demo_trace s \<and>
  ses_tasks s 42 = Some (demo_task [{0, 2, 3}]) \<and> ses_tasks s 43 = Some (demo_task [{3}, {1}])"
proof -
  define s0 where "s0 = demo_session_start"
  define s1 where "s1 = put_task 42 (demo_task [{0, 2, 3}]) (ses_world s0) s0"
  define s2 where "s2 = put_task 43 (demo_task [{1}]) (ses_world s1) s1"
  define s3 where "s3 = put_task 42 (demo_task [{2}, {0, 2, 3}]) ((ses_world s2)\<lparr>w_binds := (w_binds (ses_world s2))(42 \<mapsto> {2})\<rparr>) s2"
  define s4 where "s4 = put_task 43 (demo_task [{3}, {1}]) ((ses_world s3)\<lparr>w_binds := (w_binds (ses_world s3))(43 \<mapsto> {3})\<rparr>) s3"
  define s5 where "s5 = put_task 42 (demo_task [{0, 2, 3}]) ((ses_world s4)\<lparr>w_binds := (w_binds (ses_world s4))(42 \<mapsto> {0, 2, 3})\<rparr>) s4"
  note defs = s0_def s1_def s2_def s3_def s4_def s5_def demo_session_start_def put_task_def demo_session_tab_def
  let ?step = "session_step demo_session_env demo_server"
  have "?step s0 (Joined 42 {0, 2, 3}) s1" unfolding s1_def by (rule demo_join) (simp_all add: defs)
  moreover have "?step s1 (Joined 43 {1}) s2" unfolding s2_def by (rule demo_join) (simp_all add: defs)
  moreover have "?step s2 (Pushed 42 {2} (Inr ())) s3" unfolding s3_def by (rule demo_push) (simp_all add: defs)
  moreover have "?step s3 (Pushed 43 {3} (Inr ())) s4" unfolding s4_def by (rule demo_push) (simp_all add: defs)
  moreover have "?step s4 (Popped 42 (Inr ())) s5" unfolding s5_def by (rule demo_pop) (simp_all add: defs)
  ultimately have "session_run demo_session_env demo_server s0 ((((([] @ [Joined 42 {0, 2, 3}]) @ [Joined 43 {1}]) @
      [Pushed 42 {2} (Inr ())]) @ [Pushed 43 {3} (Inr ())]) @ [Popped 42 (Inr ())]) s5"
    using session_run.start session_run.more by meson
  then show ?thesis unfolding s0_def demo_trace_def by (intro exI [of _ s5]) (simp add: defs)
qed

section \<open>Properties\<close>



end
