(* ===== verification/QV_Split.thy ===== *)
theory QV_Split
  imports QV_Hwsplit QV_Group QV_Rmi
begin

text \<open>
  The collective split of a scope's hardware pool (\<^verbatim>\<open>qvi_hwsplit::split\<close> in
  \<^verbatim>\<open>qvi-hwsplit.cc\<close>): the members send their task ids, affinities, colours and pools to the
  root, the root computes the split, its return code is broadcast, and the results are scattered.

  As in \<open>QV_Group\<close>, a collective is seen for the whole group at once: lists are indexed by rank and the
  root is rank 0.
\<close>

section \<open>Sending single values\<close>

text \<open>The collectives are templates over the type of the value they send; the type of a received value is
  checked when it is read, so the projections below are applied to values of their own constructor only.\<close>

fun un_int :: "rpc_val \<Rightarrow> int" where
  "un_int (Vint x) = x" | "un_int _ = 0"

fun un_pid :: "rpc_val \<Rightarrow> int" where
  "un_pid (Vpid x) = x" | "un_pid _ = 0"

fun un_bitmap :: "rpc_val \<Rightarrow> bitmap" where
  "un_bitmap (Vbitmap x) = x" | "un_bitmap _ = {}"

fun un_pool :: "rpc_val \<Rightarrow> qvi_hwpool" where
  "un_pool (Vpool x) = x" | "un_pool _ = qvi_hwpool_new {}"

fun un_rc :: "rpc_val \<Rightarrow> qv_rc" where
  "un_rc (Vrc x) = x" | "un_rc _ = QV_ERR_INTERNAL"

definition put_val :: "rmi_env \<Rightarrow> rpc_val \<Rightarrow> byte list option" where
  "put_val E x = ar_save (e_archive E) [x]"

definition get_val :: "rmi_env \<Rightarrow> rpc_ty \<Rightarrow> byte list \<Rightarrow> rpc_val option" where
  "get_val E T a = (case ar_load (e_archive E) [T] a of Some [v] \<Rightarrow> if ty_of v = T then Some v else None | _ \<Rightarrow> None)"

section \<open>The collective split\<close>

text \<open>The collectives of the parent's group, and what each member brings to the call.\<close>

record split_group =
  c_gather :: "nat \<Rightarrow> qvi_bbuff list \<Rightarrow> qvi_bbuff list res"
  c_scatter :: "nat \<Rightarrow> qvi_bbuff list \<Rightarrow> qvi_bbuff list res"
  c_barrier :: "unit res"

record split_member =
  sm_tid :: int
  sm_hwpool :: qvi_hwpool
  sm_bind_top :: "bitmap res"
  sm_color :: int
  sm_npieces :: nat
  sm_type :: qv_hw_obj_type_t

definition s_root :: nat where
  "s_root = 0"

definition gather_vals :: "rmi_env \<Rightarrow> split_group \<Rightarrow> nat \<Rightarrow> rpc_ty \<Rightarrow> rpc_val list \<Rightarrow> rpc_val list res" where
  "gather_vals E G n T xs = coll_gather (e_alloc E) (put_val E) (get_val E T) (c_gather G) n s_root xs"

definition scatter_vals :: "rmi_env \<Rightarrow> split_group \<Rightarrow> nat \<Rightarrow> rpc_ty \<Rightarrow> rpc_val list \<Rightarrow> rpc_val list res" where
  "scatter_vals E G n T xs = coll_scatter (e_alloc E) (put_val E) (get_val E T) (c_scatter G) n s_root xs"

text \<open>\<open>hss\<close> are the members' split objects; the result is the root's after the gathering.\<close>

definition m_gather_split_data ::
  "rmi_env \<Rightarrow> split_group \<Rightarrow> nat \<Rightarrow> int list \<Rightarrow> int list \<Rightarrow> qvi_hwsplit list \<Rightarrow> qvi_hwsplit res" where
  "m_gather_split_data E G n tids colors hss =
     rbind (gather_vals E G n Tpid (map Vpid tids)) (\<lambda>group_tids.
     rbind (gather_vals E G n Tbitmap (map (\<lambda>hs. Vbitmap (m_my_cpu_affinity hs)) hss)) (\<lambda>task_affinities.
     rbind (gather_vals E G n Tint (map Vint colors)) (\<lambda>gcolors.
     rbind (gather_vals E G n Tpool (map (\<lambda>hs. Vpool (m_my_hwpool hs)) hss)) (\<lambda>hwpools.
     rbind (vec_ix hss s_root) (\<lambda>hwsplit.
     rbind (set_union (e_lib E) (map un_pool hwpools)) (\<lambda>base.
       Inr (hwsplit\<lparr>m_group_tids := map un_pid group_tids, m_task_affinities := map un_bitmap task_affinities,
              m_colors := map un_int gcolors, m_base_hwpool := base,
              m_hwpools := replicate n (qvi_hwpool_new {})\<rparr>)))))))"

definition m_scatter_split_results ::
  "rmi_env \<Rightarrow> split_group \<Rightarrow> nat \<Rightarrow> qvi_hwsplit \<Rightarrow> (int list \<times> qvi_hwpool list) res" where
  "m_scatter_split_results E G n hwsplit =
     rbind (scatter_vals E G n Tint (map Vint (m_colors hwsplit))) (\<lambda>colorps.
     rbind (scatter_vals E G n Tpool (map Vpool (m_hwpools hwsplit))) (\<lambda>results.
       Inr (map un_int colorps, map un_pool results)))"

text \<open>
  The outcome for the group: every member returns success with its colour and pool, every member returns
  the same error code, or a member has left the call (by an exception, an error of a collective or worse)
  while the others still take part in it.
\<close>

datatype split_outcome =
    Split_ok "(int \<times> qvi_hwpool) list"
  | Split_error qv_rc
  | Split_broken fail

text \<open>What follows the root's computation: the barrier, the broadcast of the code, and the scatter. Every
  member acts on the code it has received; members with different codes would part ways.\<close>

definition share_split_result ::
  "rmi_env \<Rightarrow> split_group \<Rightarrow> nat \<Rightarrow> qv_rc \<Rightarrow> qvi_hwsplit \<Rightarrow> split_outcome" where
  "share_split_result E G n rc2 hwsplit =
     (case rbind (c_barrier G) (\<lambda>u. coll_bcast (e_alloc E) (put_val E) (get_val E Trc) (c_scatter G) n s_root (Vrc rc2)) of
        Inl f \<Rightarrow> Split_broken f
      | Inr rc2s \<Rightarrow>
          let codes = map un_rc rc2s in
          if \<exists>c \<in> set codes. c \<noteq> QV_SUCCESS
          then (if \<forall>c \<in> set codes. c = hd codes then Split_error (hd codes) else Split_broken Undef)
          else case m_scatter_split_results E G n hwsplit of
                 Inl f \<Rightarrow> Split_broken f
               | Inr (colorps, results) \<Rightarrow> Split_ok (zip colorps results))"

definition hwsplit_split :: "rmi_env \<Rightarrow> qvi_hwloc \<Rightarrow> split_group \<Rightarrow> split_member list \<Rightarrow> split_outcome" where
  "hwsplit_split E h G members =
     (let n = length members in
      case rbind (rmap (\<lambda>m. qvi_hwsplit_new (sm_hwpool m) (sm_bind_top m) n (sm_npieces m) (sm_type m)) members)
             (m_gather_split_data E G n (map sm_tid members) (map sm_color members)) of
        Inl f \<Rightarrow> Split_broken f
      | Inr hwsplit \<Rightarrow>
          (case m_split (e_lib E) h hwsplit of
             Inl (Rc c) \<Rightarrow> share_split_result E G n c hwsplit
           | Inl f \<Rightarrow> Split_broken f
           | Inr hwsplit' \<Rightarrow> share_split_result E G n QV_SUCCESS hwsplit'))"

section \<open>Lemmas\<close>

text \<open>Values that a group can exchange: each archive is read back, and the messages together are smaller
  than what MPI's \<^verbatim>\<open>int\<close> counts can express.\<close>

definition transferable :: "rmi_env \<Rightarrow> rpc_val list \<Rightarrow> bool" where
  "transferable E xs \<longleftrightarrow>
     (\<forall>x \<in> set xs. sendable E [x]) \<and> sum_list (map (\<lambda>x. length (the (put_val E x)) + 8) xs) < 2 ^ 31"

lemma transferable_archives:
  assumes "transferable E xs" "\<forall>x \<in> set xs. ty_of x = T"
  shows "archives_ok (put_val E) (get_val E T) xs"
proof -
  have "\<exists>a. put_val E x = Some a \<and> get_val E T a = Some x \<and> length a + 8 + s_min_growth \<le> SIZE_MAX"
    if "x \<in> set xs" for x
  proof -
    from assms that have "sendable E [x]" "ty_of x = T" by (auto simp: transferable_def)
    then obtain a where "ar_save (e_archive E) [x] = Some a" "ar_load (e_archive E) [T] a = Some [x]" "length a + 12 < 2 ^ 31"
      by (auto simp: sendable_def)
    then show ?thesis using \<open>ty_of x = T\<close> by (simp add: put_val_def get_val_def s_min_growth_def SIZE_MAX_def)
  qed
  then show ?thesis by (simp add: archives_ok_def)
qed

text \<open>What the split needs of a group of \<open>n\<close> members that is \<open>up\<close>: it delivers the values that fit.\<close>

locale value_transport =
  fixes up :: bool
    and E :: rmi_env
    and G :: split_group
    and n :: nat
    and fits :: "rpc_val list \<Rightarrow> bool"
  assumes gather_values: "up \<Longrightarrow> length xs = n \<Longrightarrow> fits xs \<Longrightarrow> \<forall>x \<in> set xs. ty_of x = T \<Longrightarrow> gather_vals E G n T xs = Inr xs"
    and scatter_values: "up \<Longrightarrow> length xs = n \<Longrightarrow> fits xs \<Longrightarrow> \<forall>x \<in> set xs. ty_of x = T \<Longrightarrow> scatter_vals E G n T xs = Inr xs"
    and barrier_passes: "up \<Longrightarrow> c_barrier G = Inr ()"
begin

text \<open>The root's split object after the gathering.\<close>

lemma gathered:
  assumes "up" "length tids = n" "length colors = n" "length hss = n" "0 < n"
    "fits (map Vpid tids)" "fits (map (\<lambda>hs. Vbitmap (m_my_cpu_affinity hs)) hss)"
    "fits (map Vint colors)" "fits (map (\<lambda>hs. Vpool (m_my_hwpool hs)) hss)"
    "set_union (e_lib E) (map m_my_hwpool hss) = Inr u"
  shows "m_gather_split_data E G n tids colors hss =
    Inr ((hss ! 0)\<lparr>m_group_tids := tids, m_task_affinities := map m_my_cpu_affinity hss, m_colors := colors,
           m_base_hwpool := u, m_hwpools := replicate n (qvi_hwpool_new {})\<rparr>)"
proof -
  have "gather_vals E G n Tpid (map Vpid tids) = Inr (map Vpid tids)"
    "gather_vals E G n Tbitmap (map (\<lambda>hs. Vbitmap (m_my_cpu_affinity hs)) hss) = Inr (map (\<lambda>hs. Vbitmap (m_my_cpu_affinity hs)) hss)"
    "gather_vals E G n Tint (map Vint colors) = Inr (map Vint colors)"
    "gather_vals E G n Tpool (map (\<lambda>hs. Vpool (m_my_hwpool hs)) hss) = Inr (map (\<lambda>hs. Vpool (m_my_hwpool hs)) hss)"
    by (rule gather_values; use assms in simp)+
  then show ?thesis using assms by (simp add: m_gather_split_data_def vec_ix_def s_root_def comp_def)
qed

text \<open>The code of the root reaches everybody; on success so do the results.\<close>

lemma shared:
  assumes "up" "fits (replicate n (Vrc rc))" "0 < n"
    and res: "rc = QV_SUCCESS \<Longrightarrow> length (m_colors hs) = n \<and> length (m_hwpools hs) = n \<and>
       fits (map Vint (m_colors hs)) \<and> fits (map Vpool (m_hwpools hs))"
  shows "share_split_result E G n rc hs =
    (if rc = QV_SUCCESS then Split_ok (zip (m_colors hs) (m_hwpools hs)) else Split_error rc)"
proof -
  have "scatter_vals E G n Trc (replicate n (Vrc rc)) = Inr (replicate n (Vrc rc))"
    using assms(1,2) by (intro scatter_values) auto
  then have b: "coll_bcast (e_alloc E) (put_val E) (get_val E Trc) (c_scatter G) n s_root (Vrc rc) = Inr (replicate n (Vrc rc))"
    by (simp add: coll_bcast_def scatter_vals_def)
  show ?thesis
  proof (cases "rc = QV_SUCCESS")
    case True
    have "scatter_vals E G n Tint (map Vint (m_colors hs)) = Inr (map Vint (m_colors hs))"
      "scatter_vals E G n Tpool (map Vpool (m_hwpools hs)) = Inr (map Vpool (m_hwpools hs))"
      by (rule scatter_values; use assms(1) res [OF True] in simp)+
    then show ?thesis using True b barrier_passes [OF assms(1)]
      by (simp add: share_split_result_def m_scatter_split_results_def comp_def)
  qed (use b barrier_passes [OF assms(1)] assms(3) in \<open>simp add: share_split_result_def Let_def\<close>)
qed

end

text \<open>The split object that the root works on, for members whose current bindings are known.\<close>

definition root_hwsplit :: "split_member list \<Rightarrow> bitmap list \<Rightarrow> qvi_hwpool \<Rightarrow> qvi_hwsplit" where
  "root_hwsplit ms affs u =
     \<lparr>m_my_hwpool = sm_hwpool (hd ms), m_group_size = length ms, m_split_size = sm_npieces (hd ms),
      m_split_at_type = sm_type (hd ms), m_base_hwpool = u, m_my_cpu_affinity = hd affs, m_group_tids = map sm_tid ms,
      m_hwpools = replicate (length ms) (qvi_hwpool_new {}), m_colors = map sm_color ms, m_split_cpusets = [],
      m_task_affinities = affs\<rparr>"

text \<open>Everything that is sent during the call, one list for each collective.\<close>

definition split_messages :: "hwloc_lib \<Rightarrow> qvi_hwloc \<Rightarrow> split_member list \<Rightarrow> bitmap list \<Rightarrow> rpc_val list list" where
  "split_messages L h ms affs =
     [map (\<lambda>m. Vpid (sm_tid m)) ms, map Vbitmap affs, map (\<lambda>m. Vint (sm_color m)) ms, map (\<lambda>m. Vpool (sm_hwpool m)) ms] @
     (case set_union L (map sm_hwpool ms) of
        Inr u \<Rightarrow>
          (case m_split L h (root_hwsplit ms affs u) of
             Inr hs' \<Rightarrow> [replicate (length ms) (Vrc QV_SUCCESS), map Vint (m_colors hs'), map Vpool (m_hwpools hs')]
           | Inl (Rc c) \<Rightarrow> [replicate (length ms) (Vrc c)]
           | Inl _ \<Rightarrow> [])
      | Inl _ \<Rightarrow> [])"

context value_transport
begin

text \<open>What the members see of the root's computation.\<close>

lemma split_outcome:
  assumes up: "up" and n: "length ms = n" "0 < n" and affs: "map sm_bind_top ms = map Inr affs"
    and sent: "\<forall>xs \<in> set (split_messages (e_lib E) h ms affs). fits xs"
    and u: "set_union (e_lib E) (map sm_hwpool ms) = Inr u"
    and res: "\<And>hs'. m_split (e_lib E) h (root_hwsplit ms affs u) = Inr hs' \<Longrightarrow>
      length (m_colors hs') = n \<and> length (m_hwpools hs') = n"
    and no0: "m_split (e_lib E) h (root_hwsplit ms affs u) \<noteq> Inl (Rc QV_SUCCESS)"
  shows "hwsplit_split E h G ms =
    (case m_split (e_lib E) h (root_hwsplit ms affs u) of
       Inr hs' \<Rightarrow> Split_ok (zip (m_colors hs') (m_hwpools hs'))
     | Inl (Rc c) \<Rightarrow> Split_error c
     | Inl f \<Rightarrow> Split_broken f)"
proof -
  let ?new = "\<lambda>m aff. \<lparr>m_my_hwpool = sm_hwpool m, m_group_size = n, m_split_size = sm_npieces m, m_split_at_type = sm_type m,
      m_base_hwpool = qvi_hwpool_new {}, m_my_cpu_affinity = aff, m_group_tids = [], m_hwpools = [], m_colors = [],
      m_split_cpusets = [], m_task_affinities = []\<rparr>"
  let ?hss = "map (\<lambda>i. ?new (ms ! i) (affs ! i)) [0..<n]"
  have sent0: "fits (map (\<lambda>m. Vpid (sm_tid m)) ms)" "fits (map Vbitmap affs)" "fits (map (\<lambda>m. Vint (sm_color m)) ms)"
      "fits (map (\<lambda>m. Vpool (sm_hwpool m)) ms)" using sent by (simp_all add: split_messages_def)
  have la: "length affs = n" using affs n by (metis length_map)
  have ne: "ms \<noteq> []" "affs \<noteq> []" using n la by auto
  have ai: "sm_bind_top (ms ! i) = Inr (affs ! i)" if "i < n" for i
    using affs that n la by (metis nth_map)
  have "rmap (\<lambda>m. qvi_hwsplit_new (sm_hwpool m) (sm_bind_top m) n (sm_npieces m) (sm_type m)) ms = Inr ?hss"
    using ai n by (auto simp: rmap_Inr_iff qvi_hwsplit_new_def)
  moreover have "map m_my_hwpool ?hss = map sm_hwpool ms" "map m_my_cpu_affinity ?hss = affs"
    "map (\<lambda>hs. Vbitmap (m_my_cpu_affinity hs)) ?hss = map Vbitmap affs"
    "map (\<lambda>hs. Vpool (m_my_hwpool hs)) ?hss = map (\<lambda>m. Vpool (sm_hwpool m)) ms"
    using n la by (auto intro!: nth_equalityI)
  ultimately have g: "rbind (rmap (\<lambda>m. qvi_hwsplit_new (sm_hwpool m) (sm_bind_top m) n (sm_npieces m) (sm_type m)) ms)
      (m_gather_split_data E G n (map sm_tid ms) (map sm_color ms)) = Inr (root_hwsplit ms affs u)"
    using gathered [OF up, of "map sm_tid ms" "map sm_color ms" ?hss u] sent0 u n la ne
    by (simp add: root_hwsplit_def comp_def hd_conv_nth)
  show ?thesis
  proof (cases "m_split (e_lib E) h (root_hwsplit ms affs u)")
    case (Inl f)
    have "share_split_result E G n c (root_hwsplit ms affs u) = Split_error c" if "f = Rc c" for c
      using shared [OF up _ n(2), of c "root_hwsplit ms affs u"] sent u Inl that no0 n(1)
      by (auto simp: split_messages_def)
    with Inl show ?thesis
      unfolding hwsplit_split_def Let_def n(1) g by (cases f) auto
  next
    case (Inr hs')
    have "share_split_result E G n QV_SUCCESS hs' = Split_ok (zip (m_colors hs') (m_hwpools hs'))"
      using shared [OF up _ n(2), of QV_SUCCESS hs'] sent u Inr res n(1)
      by (auto simp: split_messages_def)
    with Inr show ?thesis
      unfolding hwsplit_split_def Let_def n(1) g by simp
  qed
qed

end

section \<open>The groups provide the transport\<close>

definition mpi_split_group :: "mpi_lib \<Rightarrow> unit res \<Rightarrow> rmi_env \<Rightarrow> split_group" where
  "mpi_split_group M bar E =
     \<lparr>c_gather = gather_bbuffs M (e_alloc E), c_scatter = scatter_bbuffs M (e_alloc E), c_barrier = bar\<rparr>"

definition process_split_group :: "rmi_env \<Rightarrow> split_group" where
  "process_split_group E =
     \<lparr>c_gather = process_gather (e_alloc E), c_scatter = process_scatter (e_alloc E), c_barrier = Inr ()\<rparr>"

interpretation mpi_split: value_transport "mpi_laws M \<and> env_ok E \<and> bar = Inr ()" E "mpi_split_group M bar E" n "transferable E"
  for M bar E n
proof unfold_locales
  fix xs T assume up: "mpi_laws M \<and> env_ok E \<and> bar = Inr ()"
    and xs: "length xs = n" "transferable E xs" "\<forall>x \<in> set xs. ty_of x = T"
  show "gather_vals E (mpi_split_group M bar E) n T xs = Inr xs" "scatter_vals E (mpi_split_group M bar E) n T xs = Inr xs"
    using mpi_typed_transfer [of M "e_alloc E" "put_val E" "get_val E T" xs s_root] transferable_archives [OF xs(2,3)] up xs
    by (auto simp: gather_vals_def scatter_vals_def mpi_split_group_def env_ok_def transferable_def)
qed (simp add: mpi_split_group_def)

interpretation process_split: value_transport "env_ok E" E "process_split_group E" process_size "transferable E"
  for E
proof unfold_locales
  fix xs T assume up: "env_ok E"
    and xs: "length xs = process_size" "transferable E xs" "\<forall>x \<in> set xs. ty_of x = T"
  show "gather_vals E (process_split_group E) process_size T xs = Inr xs"
    "scatter_vals E (process_split_group E) process_size T xs = Inr xs"
    using process_typed_transfer [of "e_alloc E" "put_val E" "get_val E T" xs] transferable_archives [OF xs(2,3)] up xs
    by (auto simp: gather_vals_def scatter_vals_def process_split_group_def env_ok_def s_root_def)
qed (simp add: process_split_group_def)

text \<open>A transport for the witnesses that knows exactly the given messages.\<close>

definition demo_split_env :: "qvi_hwloc \<Rightarrow> split_member list \<Rightarrow> bitmap list \<Rightarrow> rmi_env" where
  "demo_split_env h ms affs = demo_env (map (\<lambda>x. [x]) (concat (split_messages demo_lib h ms affs)))"

lemma demo_split_env_simps [simp]:
  "e_lib (demo_split_env h ms affs) = demo_lib" "env_ok (demo_split_env h ms affs)"
  by (simp_all add: demo_split_env_def)

lemma table_transferable:
  assumes "\<forall>x \<in> set xs. [x] \<in> set tab" "length tab < 1000" "length xs < 1000"
  shows "transferable (demo_env tab) xs"
proof -
  have "length (the (put_val (demo_env tab) x)) + 8 \<le> 1008" if "x \<in> set xs" for x
    using that assms(1,2) length_takeWhile_le [of "\<lambda>y. y \<noteq> [x]" tab]
    by (simp add: put_val_def demo_env_def demo_archive_def)
  then have "sum_list (map (\<lambda>x. length (the (put_val (demo_env tab) x)) + 8) xs) \<le> sum_list (map (\<lambda>x. 1008) xs)"
    by (intro sum_list_mono)
  also have "\<dots> < 2 ^ 31" using assms(3) by (simp add: sum_list_triv)
  finally show ?thesis using assms(1,2) sendable_demo [of _ tab] by (auto simp: transferable_def)
qed

lemma message_bounds:
  assumes "xs \<in> set (split_messages L h ms affs)" "length (concat (split_messages L h ms affs)) < n"
  shows "length xs < n"
  using assms member_le_sum_list [of "length xs" "map length (split_messages L h ms affs)"] by (simp add: length_concat)

lemma demo_split_transferable:
  assumes "length (concat (split_messages demo_lib h ms affs)) < 1000"
  shows "\<forall>xs \<in> set (split_messages demo_lib h ms affs). transferable (demo_split_env h ms affs) xs"
  unfolding demo_split_env_def using assms message_bounds [OF _ assms] by (intro ballI table_transferable) auto

lemma collective_split_result:
  assumes "mpi_laws M" "env_ok E" "bitmap_laws (e_lib E)" "topology_laws (m_topo h)"
    and "length ms = n" "map sm_bind_top ms = map Inr affs" "\<forall>m \<in> set ms. hwpool_ok (sm_hwpool m)"
    and "\<forall>xs \<in> set (split_messages (e_lib E) h ms affs). transferable E xs"
    and "set_union (e_lib E) (map sm_hwpool ms) = Inr u" "\<And>t. length (hwpool_devices u t) < 2 ^ 31"
    and "m_primary_cpuset_for_split (e_lib E) (root_hwsplit ms affs u) (sm_type (hd ms)) = Inr (t', b)"
    and "k = min (sm_npieces (hd ms)) n" "0 < k" "k \<le> length (pus_inside h b)" "length (pus_inside h b) < 2 ^ 31" "n < 2 ^ 31"
    and "valid_coloring k (map sm_color ms)"
  shows "\<exists>colors pools. hwsplit_split E h (mpi_split_group M (Inr ()) E) ms = Split_ok (zip colors pools) \<and>
    split_result_ok n u (map (split_piece h b k) [0..<k]) colors pools"
proof -
  let ?hs = "root_hwsplit ms affs u"
  have la: "length affs = n" using assms(5,6) by (metis length_map)
  have uok: "hwpool_ok u" using set_union_result [OF assms(3), of "map sm_hwpool ms"] assms(7,9) by auto
  have "\<exists>hs'. m_split (e_lib E) h ?hs = Inr hs' \<and>
      split_result_ok n (m_base_hwpool ?hs) (map (split_piece h b k) [0..<k]) (m_colors hs') (m_hwpools hs')"
    by (rule m_split_correct [OF assms(3,4), of _ t']) (use assms la uok in \<open>simp_all add: root_hwsplit_def\<close>)
  then obtain hs' where hs': "m_split (e_lib E) h ?hs = Inr hs'"
      "split_result_ok n u (map (split_piece h b k) [0..<k]) (m_colors hs') (m_hwpools hs')"
    by (auto simp: root_hwsplit_def)
  have "hwsplit_split E h (mpi_split_group M (Inr ()) E) ms = Split_ok (zip (m_colors hs') (m_hwpools hs'))"
    using mpi_split.split_outcome [of M E "Inr ()" ms n affs h u] assms hs' by (auto simp: split_result_ok_def)
  with hs'(2) show ?thesis by blast
qed

section \<open>Properties\<close>

text \<open>C1: The collective split, for every member. When the members of an MPI group ask for a positive number
  of pieces that does not exceed the processing units, with a valid colouring, the call returns success to
  all of them; each receives the piece of its new colour as its pool, and every device of the union of the
  members' pools ends up in exactly one member's pool. Gathering, computing at the root and scattering over
  MPI together behave like the split of the union.\<close>

theorem collective_split_assigns_all:
  assumes "mpi_laws M" "env_ok E" "bitmap_laws (e_lib E)" "topology_laws (m_topo h)"
    and "length ms = n" "map sm_bind_top ms = map Inr affs" "\<forall>m \<in> set ms. hwpool_ok (sm_hwpool m)"
    and "\<forall>xs \<in> set (split_messages (e_lib E) h ms affs). transferable E xs"
    and "set_union (e_lib E) (map sm_hwpool ms) = Inr u" "\<And>t. length (hwpool_devices u t) < 2 ^ 31"
    and "m_primary_cpuset_for_split (e_lib E) (root_hwsplit ms affs u) (sm_type (hd ms)) = Inr (t', b)"
    and "k = min (sm_npieces (hd ms)) n" "0 < k" "k \<le> length (pus_inside h b)" "length (pus_inside h b) < 2 ^ 31" "n < 2 ^ 31"
    and "valid_coloring k (map sm_color ms)"
  shows "\<exists>colors pools. hwsplit_split E h (mpi_split_group M (Inr ()) E) ms = Split_ok (zip colors pools) \<and>
    split_result_ok n u (map (split_piece h b k) [0..<k]) colors pools"
  by (rule collective_split_result [OF assms(1-9) _ assms(11-17)]) (rule assms(10))

text \<open>C34: A colouring that the root rejects is reported to every member of the group with the same code:
  more distinct colours than pieces are a split error, and automatic modes that differ between the members
  are an invalid argument. Nobody is left waiting.\<close>

theorem collective_split_shares_errors:
  assumes "mpi_laws M" "env_ok E" "bitmap_laws (e_lib E)" "topology_laws (m_topo h)"
    and "length ms = n" "map sm_bind_top ms = map Inr affs"
    and "\<forall>xs \<in> set (split_messages (e_lib E) h ms affs). transferable E xs"
    and "set_union (e_lib E) (map sm_hwpool ms) = Inr u"
    and "m_primary_cpuset_for_split (e_lib E) (root_hwsplit ms affs u) (sm_type (hd ms)) = Inr (t', b)"
    and "k = min (sm_npieces (hd ms)) n" "0 < k" "k \<le> length (pus_inside h b)" "length (pus_inside h b) < 2 ^ 32"
  shows "((\<forall>m \<in> set ms. 0 \<le> sm_color m) \<and> k < card (sm_color ` set ms) \<longrightarrow>
      hwsplit_split E h (mpi_split_group M (Inr ()) E) ms = Split_error QV_ERR_SPLIT) \<and>
    ((\<forall>m \<in> set ms. sm_color m < 0) \<and> 1 < card (sm_color ` set ms) \<longrightarrow>
      hwsplit_split E h (mpi_split_group M (Inr ()) E) ms = Split_error QV_ERR_INVLD_ARG)"
proof -
  let ?hs = "root_hwsplit ms affs u"
  have c: "m_colors ?hs = map sm_color ms" "m_colors ?hs \<noteq> []" using assms(5,10,11) by (auto simp: root_hwsplit_def)
  have rej: "m_split (e_lib E) h ?hs = Inl (Rc QV_ERR_SPLIT)" if "\<forall>m \<in> set ms. 0 \<le> sm_color m" "k < card (sm_color ` set ms)"
    by (rule m_split_rejects(1) [OF assms(3,4), of _ t' b k]) (use assms c that in \<open>simp_all add: root_hwsplit_def\<close>)
  have rej2: "m_split (e_lib E) h ?hs = Inl (Rc QV_ERR_INVLD_ARG)" if "\<forall>m \<in> set ms. sm_color m < 0" "1 < card (sm_color ` set ms)"
    by (rule m_split_rejects(2) [OF assms(3,4), of _ t' b k]) (use assms c that in \<open>simp_all add: root_hwsplit_def\<close>)
  note out = mpi_split.split_outcome [of M E "Inr ()" ms n affs h u]
  show ?thesis using rej rej2 out assms by auto
qed


definition demo_member :: "nat \<Rightarrow> nat \<Rightarrow> int \<Rightarrow> split_member" where
  "demo_member npus npieces color =
     \<lparr>sm_tid = 42, sm_hwpool = qvi_hwpool_new {0..<npus}, sm_bind_top = Inr {}, sm_color = color, sm_npieces = npieces,
      sm_type = QV_HW_OBJ_LAST\<rparr>"

lemma no_devices_new [simp]: "concat (map (hwpool_devices (qvi_hwpool_new b)) ts) = []"
  by (induction ts) auto

lemma concat_map_Nil [simp]: "concat (map (\<lambda>x. []) xs) = []"
  by (induction xs) auto

lemma member_union:
  assumes "bitmap_laws L" "ms = map (demo_member npus npieces) (c # cs)"
  shows "set_union L (map sm_hwpool ms) = Inr (qvi_hwpool_new {0..<npus})"
    "m_primary_cpuset_for_split L (root_hwsplit ms affs (qvi_hwpool_new {0..<npus})) (sm_type (hd ms)) =
       Inr (QV_HW_OBJ_PU, {0..<npus})"
  using assms
  by (simp_all add: set_union_eq [OF assms(1)] demo_member_def comp_def m_primary_cpuset_for_split_def root_hwsplit_def)

lemmas demo_union = member_union [OF demo_bitmap_laws]

lemma split_messages_length:
  assumes "set_union L (map sm_hwpool ms) = Inr u" "length ms < 100" "length affs = length ms"
    and "\<And>hs'. m_split L h (root_hwsplit ms affs u) = Inr hs' \<Longrightarrow>
      length (m_colors hs') = length ms \<and> length (m_hwpools hs') = length ms"
  shows "length (concat (split_messages L h ms affs)) < 1000"
  using assms by (auto simp: split_messages_def split: sum.splits fail.splits)

theorem collective_split_assigns_all_witness:
  "\<exists>ms E colors pools. ms = map (demo_member 4 2) [7, 3, 7] \<and> E = demo_split_env (demo_hwloc 4) ms [{}, {}, {}] \<and>
    hwsplit_split E (demo_hwloc 4) (mpi_split_group demo_mpi (Inr ()) E) ms = Split_ok (zip colors pools) \<and>
    split_result_ok 3 (qvi_hwpool_new {0..<4}) (map (split_piece (demo_hwloc 4) {0..<4} 2) [0..<2]) colors pools"
proof -
  let ?ms = "map (demo_member 4 2) [7, 3, 7]" and ?affs = "[{}, {}, {}] :: bitmap list"
  let ?E = "demo_split_env (demo_hwloc 4) ?ms ?affs"
  let ?u = "qvi_hwpool_new {0..<4}"
  have p: "length (pus_inside (demo_hwloc 4) {0..<4}) = 4" using demo_pus [of 4 4] by simp
  have v: "valid_coloring 2 (map sm_color ?ms)"
    by (auto simp: valid_coloring_def demo_member_def card_insert_if)
  note un = demo_union [of ?ms 4 2 7 "[3, 7]", simplified]
  have "\<exists>hs'. m_split demo_lib (demo_hwloc 4) (root_hwsplit ?ms ?affs ?u) = Inr hs' \<and>
      split_result_ok 3 (m_base_hwpool (root_hwsplit ?ms ?affs ?u)) (map (split_piece (demo_hwloc 4) {0..<4} 2) [0..<2])
        (m_colors hs') (m_hwpools hs')"
    by (rule m_split_correct [OF demo_bitmap_laws demo_topology_laws [of 4], of _ QV_HW_OBJ_PU])
       (use un p v in \<open>simp_all add: root_hwsplit_def demo_member_def m_primary_cpuset_for_split_def\<close>)
  then have "length (concat (split_messages demo_lib (demo_hwloc 4) ?ms ?affs)) < 1000"
    using un by (intro split_messages_length [of _ _ ?u]) (auto simp: split_result_ok_def)
  note t = demo_split_transferable [OF this]
  show ?thesis
    using collective_split_assigns_all [OF demo_mpi_laws, of ?E "demo_hwloc 4" ?ms 3 ?affs ?u QV_HW_OBJ_PU "{0..<4}" 2]
      un p v t demo_bitmap_laws demo_topology_laws [of 4]
    by (simp add: demo_member_def)
qed

theorem collective_split_shares_errors_witness:
  "\<exists>ms E. ms = map (demo_member 4 2) [7, 3, 5] \<and> E = demo_split_env (demo_hwloc 4) ms [{}, {}, {}] \<and>
    hwsplit_split E (demo_hwloc 4) (mpi_split_group demo_mpi (Inr ()) E) ms = Split_error QV_ERR_SPLIT"
proof -
  let ?ms = "map (demo_member 4 2) [7, 3, 5]" and ?affs = "[{}, {}, {}] :: bitmap list"
  let ?E = "demo_split_env (demo_hwloc 4) ?ms ?affs"
  let ?u = "qvi_hwpool_new {0..<4}"
  have p: "length (pus_inside (demo_hwloc 4) {0..<4}) = 4" using demo_pus [of 4 4] by simp
  note un = demo_union [of ?ms 4 2 7 "[3, 5]", simplified]
  have "m_split demo_lib (demo_hwloc 4) (root_hwsplit ?ms ?affs ?u) = Inl (Rc QV_ERR_SPLIT)"
    by (rule m_split_rejects(1) [OF demo_bitmap_laws demo_topology_laws [of 4], of _ QV_HW_OBJ_PU "{0..<4}" 2])
       (use un p in \<open>simp_all add: root_hwsplit_def demo_member_def m_primary_cpuset_for_split_def\<close>)
  then have "length (concat (split_messages demo_lib (demo_hwloc 4) ?ms ?affs)) < 1000"
    using un by (intro split_messages_length [of _ _ ?u]) auto
  note t = demo_split_transferable [OF this]
  show ?thesis
    using collective_split_shares_errors [OF demo_mpi_laws, of ?E "demo_hwloc 4" ?ms 3 ?affs ?u QV_HW_OBJ_PU "{0..<4}" 2]
      un p t demo_bitmap_laws demo_topology_laws [of 4]
    by (simp add: demo_member_def)
qed


end
