(* ===== verification/QV_Scope.thy ===== *)
theory QV_Scope
  imports QV_Task QV_Split
begin

text \<open>
  Scopes and the public interface of a process: \<^verbatim>\<open>qvi-scope.cc\<close>, \<^verbatim>\<open>quo-vadis.cc\<close>,
  \<^verbatim>\<open>quo-vadis-thread.cc\<close>, and the group classes for processes and threads. A scope pairs a
  reference-counted group with a hardware pool; scopes and groups are objects of a store, indexed by their
  addresses, so that sharing, deletion and dangling pointers are visible.
\<close>

section \<open>State\<close>

datatype group_kind = Gprocess | Gthread qvi_group_thread

record qvi_group =
  g_refc :: int
  g_flags :: int
  g_kind :: group_kind
  g_tasks :: "qvi_task list"

record qv_scope =
  s_group :: nat
  s_hwpool :: qvi_hwpool

record 'w qv_lib =
  l_groups :: "nat \<Rightarrow> qvi_group option"
  l_scopes :: "nat \<Rightarrow> qv_scope option"
  l_next :: nat
  l_next_index :: nat
  l_world :: 'w

text \<open>
  What a call finds outside of the library: the RMI environment and the connection, the results of the
  system calls made while connecting, a client object as its constructor leaves it, the caller's process and
  thread ids, and whether the allocation of the \<open>i\<close>-th scope object of the call succeeds.
\<close>

record 'w scope_env =
  x_rmi :: rmi_env
  x_gpu :: bool
  x_io :: conn_io
  x_getenv :: getenv
  x_fs1 :: "nat \<Rightarrow> proc_fs"
  x_fs2 :: "nat \<Rightarrow> proc_fs"
  x_sock :: "'w zsock"
  x_client0 :: qvi_rmi_client
  x_pid :: int
  x_tid :: int
  x_mem :: "nat \<Rightarrow> bool"

text \<open>Operations on the state that can fail.\<close>

type_synonym ('w, 'a) qv_op = "'w qv_lib \<Rightarrow> 'a res \<times> 'w qv_lib"

definition on_world :: "('w \<Rightarrow> 'a res \<times> 'w) \<Rightarrow> ('w, 'a) qv_op" where
  "on_world m S = (case m (l_world S) of (r, w) \<Rightarrow> (r, S\<lparr>l_world := w\<rparr>))"

section \<open>Groups\<close>

definition group_at :: "nat \<Rightarrow> ('w, qvi_group) qv_op" where
  "group_at gid S = (case l_groups S gid of None \<Rightarrow> (Inl Undef, S) | Some g \<Rightarrow> (Inr g, S))"

definition put_group :: "nat \<Rightarrow> qvi_group \<Rightarrow> 'w qv_lib \<Rightarrow> 'w qv_lib" where
  "put_group gid g S = S\<lparr>l_groups := (l_groups S)(gid := Some g)\<rparr>"

definition delete_group :: "nat \<Rightarrow> 'w qv_lib \<Rightarrow> 'w qv_lib" where
  "delete_group gid S = S\<lparr>l_groups := (l_groups S)(gid := None)\<rparr>"

definition alloc_group :: "qvi_group \<Rightarrow> ('w, nat) qv_op" where
  "alloc_group g S = (Inr (l_next S), put_group (l_next S) g (S\<lparr>l_next := Suc (l_next S)\<rparr>))"

text \<open>A task of a new group: an error of the connection is thrown by the constructors.\<close>

definition connect_task :: "'w scope_env \<Rightarrow> int \<Rightarrow> ('w, qvi_task) qv_op" where
  "connect_task X flags =
     on_world (\<lambda>w. case connect_to_server (x_rmi X) (x_gpu X) (x_io X) (x_getenv X) (x_fs1 X) (x_fs2 X) (x_sock X) (x_tid X)
         flags \<lparr>m_rmi = x_client0 X, m_stack = []\<rparr> w of (r, w') \<Rightarrow> (throw_rc r, w'))"

fun connect_tasks :: "'w scope_env \<Rightarrow> int \<Rightarrow> nat \<Rightarrow> ('w, qvi_task list) qv_op" where
  "connect_tasks X flags 0 = sret []"
| "connect_tasks X flags (Suc n) =
     sbind (connect_task X flags) (\<lambda>t. sbind (connect_tasks X flags n) (\<lambda>ts. sret (t # ts)))"

definition qvi_group_process_new :: "'w scope_env \<Rightarrow> int \<Rightarrow> ('w, nat) qv_op" where
  "qvi_group_process_new X flags =
     scatch (sbind (connect_task X flags) (\<lambda>t.
       alloc_group \<lparr>g_refc = refc_new, g_flags = flags, g_kind = Gprocess, g_tasks = [t]\<rparr>))"

definition thread_group_new :: "'w scope_env \<Rightarrow> int \<Rightarrow> nat \<Rightarrow> ('w, nat) qv_op" where
  "thread_group_new X flags nthreads =
     scatch (sbind (connect_tasks X flags nthreads) (\<lambda>ts.
       alloc_group \<lparr>g_refc = refc_new, g_flags = flags, g_kind = Gthread (qvi_group_thread_new nthreads), g_tasks = ts\<rparr>))"

definition group_retain :: "nat \<Rightarrow> ('w, unit) qv_op" where
  "group_retain gid = sbind (group_at gid) (\<lambda>g S. (Inr (), put_group gid (g\<lparr>g_refc := retain (g_refc g)\<rparr>) S))"

definition group_release :: "nat \<Rightarrow> ('w, unit) qv_op" where
  "group_release gid = sbind (group_at gid) (\<lambda>g S.
     case release (g_refc g) of
       Inl f \<Rightarrow> (Inl f, S)
     | Inr None \<Rightarrow> (Inr (), delete_group gid S)
     | Inr (Some c) \<Rightarrow> (Inr (), put_group gid (g\<lparr>g_refc := c\<rparr>) S))"

text \<open>\<^verbatim>\<open>task()\<close>: the only task of a process group, or the task of the calling thread.\<close>

definition group_task_index :: "'w scope_env \<Rightarrow> nat \<Rightarrow> ('w, nat) qv_op" where
  "group_task_index X gid = sbind (group_at gid) (\<lambda>g.
     case g_kind g of
       Gprocess \<Rightarrow> sret 0
     | Gthread th \<Rightarrow> (\<lambda>S.
         case thread_task (x_tid X) (l_next_index S) th of
           Inl f \<Rightarrow> (Inl f, S)
         | Inr (i, nx, th') \<Rightarrow> (Inr i, put_group gid (g\<lparr>g_kind := Gthread th'\<rparr>) (S\<lparr>l_next_index := nx\<rparr>))))"

definition group_task :: "'w scope_env \<Rightarrow> nat \<Rightarrow> ('w, nat \<times> qvi_task) qv_op" where
  "group_task X gid =
     sbind (group_task_index X gid) (\<lambda>i.
     sbind (group_at gid) (\<lambda>g.
     sbind (sres (vec_at (g_tasks g) i)) (\<lambda>t. sret (i, t))))"

definition group_hwloc :: "'w scope_env \<Rightarrow> nat \<Rightarrow> ('w, qvi_hwloc) qv_op" where
  "group_hwloc X gid = sbind (group_task X gid) (\<lambda>(i, t). sret (cl_hwloc (m_rmi t)))"

text \<open>An operation on the caller's task, which changes the task in place.\<close>

definition on_task :: "'w scope_env \<Rightarrow> nat \<Rightarrow> (qvi_task \<Rightarrow> 'w \<Rightarrow> 'a res \<times> qvi_task \<times> 'w) \<Rightarrow> ('w, 'a) qv_op" where
  "on_task X gid f = sbind (group_task X gid) (\<lambda>(i, t). sbind (group_at gid) (\<lambda>g S.
     case f t (l_world S) of (r, t', w) \<Rightarrow>
       (r, put_group gid (g\<lparr>g_tasks := (g_tasks g)[i := t']\<rparr>) (S\<lparr>l_world := w\<rparr>))))"

text \<open>The virtual operations, by the class of the group.\<close>

definition group_size :: "nat \<Rightarrow> ('w, int) qv_op" where
  "group_size gid = sbind (group_at gid) (\<lambda>g. sret
     (case g_kind g of Gprocess \<Rightarrow> int process_size | Gthread th \<Rightarrow> int (rc_code QV_ERR_NOT_SUPPORTED)))"

definition group_rank :: "nat \<Rightarrow> ('w, int) qv_op" where
  "group_rank gid = sbind (group_at gid) (\<lambda>g. sret
     (case g_kind g of Gprocess \<Rightarrow> int process_rank | Gthread th \<Rightarrow> int (rc_code QV_ERR_NOT_SUPPORTED)))"

definition group_barrier :: "nat \<Rightarrow> ('w, unit) qv_op" where
  "group_barrier gid = sbind (group_at gid) (\<lambda>g.
     case g_kind g of Gprocess \<Rightarrow> sret () | Gthread th \<Rightarrow> sres (Inl (Rc QV_ERR_NOT_SUPPORTED)))"

definition group_make_intrinsic :: "nat \<Rightarrow> ('w, unit) qv_op" where
  "group_make_intrinsic gid = sbind (group_at gid) (\<lambda>g.
     case g_kind g of Gprocess \<Rightarrow> sret () | Gthread th \<Rightarrow> sres (Inl (Rc QV_ERR_NOT_SUPPORTED)))"

definition group_self :: "'w scope_env \<Rightarrow> nat \<Rightarrow> ('w, nat) qv_op" where
  "group_self X gid = sbind (group_at gid) (\<lambda>g.
     case g_kind g of
       Gprocess \<Rightarrow> qvi_group_process_new X (g_flags g)
     | Gthread th \<Rightarrow> sres (Inl (Rc QV_ERR_NOT_SUPPORTED)))"

definition group_split :: "'w scope_env \<Rightarrow> nat \<Rightarrow> ('w, nat) qv_op" where
  "group_split X gid = sbind (group_at gid) (\<lambda>g.
     case g_kind g of
       Gprocess \<Rightarrow> group_self X gid
     | Gthread th \<Rightarrow> sres (Inl (Rc QV_ERR_NOT_SUPPORTED)))"

definition group_thread_split :: "'w scope_env \<Rightarrow> nat \<Rightarrow> nat \<Rightarrow> ('w, nat) qv_op" where
  "group_thread_split X gid nthreads = sbind (group_at gid) (\<lambda>g.
     case g_kind g of
       Gprocess \<Rightarrow> thread_group_new X (g_flags g) nthreads
     | Gthread th \<Rightarrow> sres (Inl (Rc QV_ERR_NOT_SUPPORTED)))"

definition thread_split_group :: split_group where
  "thread_split_group =
     \<lparr>c_gather = (\<lambda>root bs. Inl (Rc QV_ERR_NOT_SUPPORTED)), c_scatter = (\<lambda>root bs. Inl (Rc QV_ERR_NOT_SUPPORTED)),
      c_barrier = Inl (Rc QV_ERR_NOT_SUPPORTED)\<rparr>"

definition group_collectives :: "rmi_env \<Rightarrow> group_kind \<Rightarrow> split_group" where
  "group_collectives E kind = (case kind of Gprocess \<Rightarrow> process_split_group E | Gthread th \<Rightarrow> thread_split_group)"

section \<open>Scopes\<close>

definition scope_at :: "nat \<Rightarrow> ('w, qv_scope) qv_op" where
  "scope_at sid S = (case l_scopes S sid of None \<Rightarrow> (Inl Undef, S) | Some s \<Rightarrow> (Inr s, S))"

text \<open>Creating the \<open>i\<close>-th scope object of a call; a failed allocation is caught and becomes \<open>QV_ERR\<close>.\<close>

definition qv_scope_new :: "'w scope_env \<Rightarrow> nat \<Rightarrow> nat \<Rightarrow> qvi_hwpool \<Rightarrow> ('w, nat) qv_op" where
  "qv_scope_new X i gid hwpool S =
     (if x_mem X i
      then (Inr (l_next S), S\<lparr>l_scopes := (l_scopes S)(l_next S := Some \<lparr>s_group = gid, s_hwpool = hwpool\<rparr>), l_next := Suc (l_next S)\<rparr>)
      else (Inl (Rc QV_ERR), S))"

definition qv_scope_delete :: "nat \<Rightarrow> ('w, unit) qv_op" where
  "qv_scope_delete sid =
     sbind (scope_at sid) (\<lambda>s S. group_release (s_group s) (S\<lparr>l_scopes := (l_scopes S)(sid := None)\<rparr>))"

fun thread_destroy :: "nat list \<Rightarrow> ('w, unit) qv_op" where
  "thread_destroy [] = sret ()"
| "thread_destroy (sid # sids) = sbind (qv_scope_delete sid) (\<lambda>u. thread_destroy sids)"

definition make_intrinsic :: "'w scope_env \<Rightarrow> nat \<Rightarrow> qv_scope_intrinsic_t \<Rightarrow> int \<Rightarrow> ('w, nat) qv_op" where
  "make_intrinsic X gid iscope flags =
     sbind (group_make_intrinsic gid) (\<lambda>u.
     sbind (group_task X gid) (\<lambda>(i, t).
     sbind (on_world (client_get_intrinsic_hwpool (x_rmi X) (x_sock X) (m_rmi t) [x_pid X] iscope flags)) (\<lambda>hwpool.
       qv_scope_new X 0 gid hwpool)))"

definition scope_create :: "'w scope_env \<Rightarrow> nat \<Rightarrow> qv_hw_obj_type_t \<Rightarrow> int \<Rightarrow> ('w, nat) qv_op" where
  "scope_create X sid type nobjs =
     sbind (scope_at sid) (\<lambda>s.
     sbind (group_self X (s_group s)) (\<lambda>group.
     sbind (on_rc (sbind (group_task X (s_group s)) (\<lambda>(i, t).
              on_world (client_get_cpuset_for_nobjs (x_rmi X) (x_sock X) (m_rmi t) (hwpool_cpuset (s_hwpool s)) type nobjs)))
            (delete_group group)) (\<lambda>cpuset.
     sbind (group_hwloc X (s_group s)) (\<lambda>h.
       qv_scope_new X 0 group (populate (e_lib (x_rmi X)) h cpuset (qvi_hwpool_new {}))))))"

definition scope_nobjects :: "'w scope_env \<Rightarrow> nat \<Rightarrow> qv_hw_obj_type_t \<Rightarrow> ('w, nat) qv_op" where
  "scope_nobjects X sid obj =
     sbind (scope_at sid) (\<lambda>s.
     sbind (group_hwloc X (s_group s)) (\<lambda>h. sres (nobjects (e_lib (x_rmi X)) (s_hwpool s) h obj)))"

definition scope_device_id :: "nat \<Rightarrow> qv_hw_obj_type_t \<Rightarrow> int \<Rightarrow> qv_device_id_type_t \<Rightarrow> ('w, string) qv_op" where
  "scope_device_id sid devt dev_index format =
     sbind (scope_at sid) (\<lambda>s. sres
       (let devs = hwpool_devices (s_hwpool s) devt in
        if dev_index < 0 then Inl (Rc QV_ERR_INVLD_ARG)
        else if nat dev_index \<ge> length devs then Inl (Rc QV_ERR_NOT_FOUND)
        else rbind (vec_at devs (nat dev_index)) (\<lambda>dev. hwpool_dev_id dev format)))"

definition task_setb :: "'w scope_env \<Rightarrow> qvi_task \<Rightarrow> int \<Rightarrow> bitmap \<Rightarrow> 'w \<Rightarrow> unit res \<times> 'w" where
  "task_setb X t = client_set_cpubind (x_rmi X) (x_sock X) (m_rmi t)"

definition scope_bind_push :: "'w scope_env \<Rightarrow> nat \<Rightarrow> ('w, unit) qv_op" where
  "scope_bind_push X sid =
     sbind (scope_at sid) (\<lambda>s.
       on_task X (s_group s) (\<lambda>t. bind_push (task_setb X t) (x_tid X) (hwpool_cpuset (s_hwpool s)) t))"

definition scope_bind_pop :: "'w scope_env \<Rightarrow> nat \<Rightarrow> ('w, unit) qv_op" where
  "scope_bind_pop X sid =
     sbind (scope_at sid) (\<lambda>s. on_task X (s_group s) (\<lambda>t. bind_pop (task_setb X t) (x_tid X) t))"

definition scope_bind_string :: "'w scope_env \<Rightarrow> nat \<Rightarrow> int \<Rightarrow> ('w, string) qv_op" where
  "scope_bind_string X sid flags =
     sbind (scope_at sid) (\<lambda>s.
     sbind (group_task X (s_group s)) (\<lambda>(i, t).
     sbind (sres (bind_top t)) (\<lambda>bitmap.
     sbind (group_hwloc X (s_group s)) (\<lambda>h. sres (bind_string (e_lib (x_rmi X)) h bitmap flags)))))"

text \<open>What the only member of a group gets from a collective split.\<close>

fun outcome_res :: "split_outcome \<Rightarrow> (int \<times> qvi_hwpool) res" where
  "outcome_res (Split_ok [cp]) = Inr cp"
| "outcome_res (Split_ok cps) = Inl Undef"
| "outcome_res (Split_error c) = Inl (Rc c)"
| "outcome_res (Split_broken f) = Inl f"

definition scope_split :: "'w scope_env \<Rightarrow> nat \<Rightarrow> int \<Rightarrow> int \<Rightarrow> qv_hw_obj_type_t \<Rightarrow> ('w, nat) qv_op" where
  "scope_split X sid npieces color maybe_obj_type =
     sbind (scope_at sid) (\<lambda>s.
     sbind (group_task X (s_group s)) (\<lambda>(i, t).
     sbind (group_at (s_group s)) (\<lambda>g.
     sbind (sres (outcome_res (hwsplit_split (x_rmi X) (cl_hwloc (m_rmi t)) (group_collectives (x_rmi X) (g_kind g))
              [\<lparr>sm_tid = x_tid X, sm_hwpool = s_hwpool s, sm_bind_top = bind_top t, sm_color = color,
                sm_npieces = nat (npieces mod 2 ^ 64), sm_type = maybe_obj_type\<rparr>]))) (\<lambda>(colorp, hwpool).
     sbind (group_split X (s_group s)) (\<lambda>group.
       on_rc (qv_scope_new X 0 group hwpool) (delete_group group))))))"

definition scope_split_at :: "'w scope_env \<Rightarrow> nat \<Rightarrow> qv_hw_obj_type_t \<Rightarrow> int \<Rightarrow> ('w, nat) qv_op" where
  "scope_split_at X sid type color =
     sbind (scope_nobjects X sid type) (\<lambda>n. scope_split X sid (to_int32 n) color type)"

text \<open>
  The children of a thread split. When an allocation fails, all \<open>k\<close> pointers are deleted although the
  remaining ones have never been assigned.
\<close>

fun thread_children :: "'w scope_env \<Rightarrow> nat \<Rightarrow> qvi_hwpool list \<Rightarrow> nat list \<Rightarrow> nat list \<Rightarrow> ('w, nat list) qv_op" where
  "thread_children X thgroup hwpools [] children = sret children"
| "thread_children X thgroup hwpools (i # is) children =
     sbind (sres (vec_ix hwpools i)) (\<lambda>hwpool. \<lambda>S.
       case qv_scope_new X i thgroup hwpool S of
         (Inl f, S') \<Rightarrow> (Inl Undef, S')
       | (Inr child, S') \<Rightarrow>
           sbind (group_retain thgroup) (\<lambda>u. thread_children X thgroup hwpools is (children @ [child])) S')"

definition scope_thread_split ::
  "'w scope_env \<Rightarrow> nat \<Rightarrow> nat \<Rightarrow> int list \<Rightarrow> nat \<Rightarrow> qv_hw_obj_type_t \<Rightarrow> ('w, nat list) qv_op" where
  "scope_thread_split X sid npieces kcolors k maybe_obj_type =
     sbind (scope_at sid) (\<lambda>s.
     sbind (group_task X (s_group s)) (\<lambda>(i, t).
     sbind (sres (thread_split (e_lib (x_rmi X)) (cl_hwloc (m_rmi t)) (s_hwpool s) (bind_top t) (x_tid X) npieces kcolors k
              maybe_obj_type)) (\<lambda>(colorps, hwpools).
     sbind (group_thread_split X (s_group s) k) (\<lambda>thgroup.
     sbind (thread_children X thgroup hwpools [0..<k] []) (\<lambda>children.
     sbind (group_release thgroup) (\<lambda>u. sret children))))))"

definition scope_thread_split_at ::
  "'w scope_env \<Rightarrow> nat \<Rightarrow> qv_hw_obj_type_t \<Rightarrow> int list \<Rightarrow> nat \<Rightarrow> ('w, nat list) qv_op" where
  "scope_thread_split_at X sid type kcolors k =
     sbind (scope_nobjects X sid type) (\<lambda>n. scope_thread_split X sid (wrap32 n) kcolors k type)"

section \<open>The public interface\<close>

text \<open>
  A call checks its arguments (\<open>None\<close> is a null scope; \<open>out\<close> says whether the pointers for the results are not
  null) and turns the exceptions of its body into codes.
\<close>

definition qv_api :: "bool \<Rightarrow> ('w, 'a) qv_op \<Rightarrow> ('w, 'a) qv_op" where
  "qv_api valid body = (if \<not> valid then sres (Inl (Rc QV_ERR_INVLD_ARG)) else scatch body)"

definition qv_version :: "nat \<times> nat \<times> nat \<Rightarrow> bool \<Rightarrow> (nat \<times> nat \<times> nat) res" where
  "qv_version package out = (if \<not> out then Inl (Rc QV_ERR_INVLD_ARG) else Inr package)"

definition qvi_process_scope_get :: "'w scope_env \<Rightarrow> qv_scope_intrinsic_t \<Rightarrow> int \<Rightarrow> ('w, nat) qv_op" where
  "qvi_process_scope_get X iscope flags =
     sbind (qvi_group_process_new X flags) (\<lambda>zgroup. make_intrinsic X zgroup iscope flags)"

definition qv_process_scope :: "'w scope_env \<Rightarrow> qv_scope_intrinsic_t \<Rightarrow> int \<Rightarrow> bool \<Rightarrow> ('w, nat) qv_op" where
  "qv_process_scope X iscope flags out =
     qv_api out (qvi_process_scope_get X iscope flags)"

definition qv_bind_push :: "'w scope_env \<Rightarrow> nat option \<Rightarrow> ('w, unit) qv_op" where
  "qv_bind_push X scope = qv_api (scope \<noteq> None) (scope_bind_push X (the scope))"

definition qv_bind_pop :: "'w scope_env \<Rightarrow> nat option \<Rightarrow> ('w, unit) qv_op" where
  "qv_bind_pop X scope = qv_api (scope \<noteq> None) (scope_bind_pop X (the scope))"

definition qv_bind_string :: "'w scope_env \<Rightarrow> nat option \<Rightarrow> int \<Rightarrow> bool \<Rightarrow> ('w, string) qv_op" where
  "qv_bind_string X scope flags out = qv_api (scope \<noteq> None \<and> out) (scope_bind_string X (the scope) flags)"

definition qv_free :: "nat option \<Rightarrow> ('w, unit) qv_op" where
  "qv_free scope = (case scope of None \<Rightarrow> sret () | Some sid \<Rightarrow> scatch (qv_scope_delete sid))"

definition qv_hw_obj_count :: "'w scope_env \<Rightarrow> nat option \<Rightarrow> qv_hw_obj_type_t \<Rightarrow> bool \<Rightarrow> ('w, int) qv_op" where
  "qv_hw_obj_count X scope obj out =
     qv_api (scope \<noteq> None \<and> out) (sbind (scope_nobjects X (the scope) obj) (\<lambda>n. sret (to_int32 n)))"

definition qv_group_rank :: "nat option \<Rightarrow> bool \<Rightarrow> ('w, int) qv_op" where
  "qv_group_rank scope out =
     qv_api (scope \<noteq> None \<and> out) (sbind (scope_at (the scope)) (\<lambda>s. group_rank (s_group s)))"

definition qv_group_size :: "nat option \<Rightarrow> bool \<Rightarrow> ('w, int) qv_op" where
  "qv_group_size scope out =
     qv_api (scope \<noteq> None \<and> out) (sbind (scope_at (the scope)) (\<lambda>s. group_size (s_group s)))"

definition qv_barrier :: "nat option \<Rightarrow> ('w, unit) qv_op" where
  "qv_barrier scope = qv_api (scope \<noteq> None) (sbind (scope_at (the scope)) (\<lambda>s. group_barrier (s_group s)))"

definition qv_create_scope :: "'w scope_env \<Rightarrow> nat option \<Rightarrow> qv_hw_obj_type_t \<Rightarrow> int \<Rightarrow> bool \<Rightarrow> ('w, nat) qv_op" where
  "qv_create_scope X scope type nobjs out =
     qv_api (scope \<noteq> None \<and> \<not> nobjs < 0 \<and> out) (scope_create X (the scope) type nobjs)"

definition qv_split :: "'w scope_env \<Rightarrow> nat option \<Rightarrow> int \<Rightarrow> int \<Rightarrow> bool \<Rightarrow> ('w, nat) qv_op" where
  "qv_split X scope npieces group_id out =
     qv_api (scope \<noteq> None \<and> \<not> npieces \<le> 0 \<and> out) (scope_split X (the scope) npieces group_id QV_HW_OBJ_LAST)"

definition qv_split_at :: "'w scope_env \<Rightarrow> nat option \<Rightarrow> qv_hw_obj_type_t \<Rightarrow> int \<Rightarrow> bool \<Rightarrow> ('w, nat) qv_op" where
  "qv_split_at X scope type group_id out =
     qv_api (scope \<noteq> None \<and> out) (scope_split_at X (the scope) type group_id)"

definition qv_device_id ::
  "nat option \<Rightarrow> qv_hw_obj_type_t \<Rightarrow> int \<Rightarrow> qv_device_id_type_t \<Rightarrow> bool \<Rightarrow> ('w, string) qv_op" where
  "qv_device_id scope dev_obj dev_index id_type out =
     qv_api (scope \<noteq> None \<and> \<not> dev_index < 0 \<and> out) (scope_device_id (the scope) dev_obj dev_index id_type)"

text \<open>The colours of a thread split: a null pointer, one of the sentinel pointers, or an array.\<close>

datatype kcolors_arg = Kc_null | Kc_packed | Kc_spread | Kc_close | Kc_array "int list"

definition split_color_fixup :: "kcolors_arg \<Rightarrow> nat \<Rightarrow> int list" where
  "split_color_fixup kcolors k =
     (let real_color = (case kcolors of
            Kc_null \<Rightarrow> QV_SCOPE_SPLIT_PACKED
          | Kc_packed \<Rightarrow> QV_SCOPE_SPLIT_PACKED
          | Kc_spread \<Rightarrow> QV_SCOPE_SPLIT_SPREAD
          | Kc_close \<Rightarrow> QV_SCOPE_SPLIT_CLOSE
          | Kc_array cs \<Rightarrow> QV_SCOPE_SPLIT_UNDEFINED)
      in if real_color = QV_SCOPE_SPLIT_UNDEFINED then [] else replicate k real_color)"

text \<open>The array that is passed on; a pointer that is not an array cannot be read.\<close>

definition thread_colors :: "kcolors_arg \<Rightarrow> nat \<Rightarrow> int list" where
  "thread_colors kcolors k =
     (let color_fixup = split_color_fixup kcolors k
      in if color_fixup = [] then (case kcolors of Kc_array cs \<Rightarrow> cs | _ \<Rightarrow> []) else color_fixup)"

definition qv_thread_split ::
  "'w scope_env \<Rightarrow> nat option \<Rightarrow> int \<Rightarrow> kcolors_arg \<Rightarrow> int \<Rightarrow> bool \<Rightarrow> ('w, nat list) qv_op" where
  "qv_thread_split X scope npieces kcolors k out =
     qv_api (scope \<noteq> None \<and> \<not> npieces < 0 \<and> \<not> k < 0 \<and> out)
       (scope_thread_split X (the scope) (nat npieces) (thread_colors kcolors (nat k)) (nat k) QV_HW_OBJ_LAST)"

definition qv_thread_split_at ::
  "'w scope_env \<Rightarrow> nat option \<Rightarrow> qv_hw_obj_type_t \<Rightarrow> kcolors_arg \<Rightarrow> int \<Rightarrow> bool \<Rightarrow> ('w, nat list) qv_op" where
  "qv_thread_split_at X scope type kcolors k out =
     qv_api (scope \<noteq> None \<and> \<not> k < 0 \<and> out)
       (scope_thread_split_at X (the scope) type (thread_colors kcolors (nat k)) (nat k))"

text \<open>Freeing an array of scopes, whose length the caller states; deleting a null pointer does nothing.\<close>

definition qv_thread_free :: "int \<Rightarrow> nat list option \<Rightarrow> ('w, unit) qv_op" where
  "qv_thread_free nscopes scopes =
     (if nscopes < 0 then sres (Inl (Rc QV_ERR_INVLD_ARG))
      else case scopes of
             None \<Rightarrow> sret ()
           | Some sids \<Rightarrow>
               if nat nscopes \<le> length sids then scatch (thread_destroy (take (nat nscopes) sids)) else sres (Inl Undef))"

text \<open>What a thread of \<^verbatim>\<open>qv_pthread_create\<close> runs around the caller's routine: an error of the first
  binding ends the thread, one of the second is only logged.\<close>

definition qvi_pthread_start_routine :: "'w scope_env \<Rightarrow> nat \<Rightarrow> ('w, 'a) qv_op \<Rightarrow> ('w, 'a option) qv_op" where
  "qvi_pthread_start_routine X sid th_routine S =
     (case scope_bind_push X sid S of
        (Inl (Rc c), S') \<Rightarrow> (Inr None, S')
      | (Inl f, S') \<Rightarrow> (Inl f, S')
      | (Inr u, S') \<Rightarrow>
          sbind th_routine (\<lambda>ret. \<lambda>S.
            case scope_bind_pop X sid S of
              (Inl (Rc c), S') \<Rightarrow> (Inr (Some ret), S')
            | (Inl f, S') \<Rightarrow> (Inl f, S')
            | (Inr u, S') \<Rightarrow> (Inr (Some ret), S')) S')"

section \<open>Well-formed states\<close>

text \<open>The scopes that refer to a group.\<close>

definition refs :: "'w qv_lib \<Rightarrow> nat \<Rightarrow> nat set" where
  "refs S gid = {sid. \<exists>s. l_scopes S sid = Some s \<and> s_group s = gid}"

definition group_shape :: "qvi_group \<Rightarrow> bool" where
  "group_shape g =
     (case g_kind g of
        Gprocess \<Rightarrow> length (g_tasks g) = 1
      | Gthread th \<Rightarrow> thread_group_ok th \<and> length (g_tasks g) = m_ntasks th)"

lemma group_shape_refc [simp]: "group_shape (g\<lparr>g_refc := c\<rparr>) = group_shape g"
  by (simp add: group_shape_def split: group_kind.split)

text \<open>
  Every scope refers to a live group; a group counts its scopes, or is kept alive by one reference of its
  own as long as it has none. \<open>extra\<close> is a group that an operation in progress still holds.
\<close>

definition lib_inv :: "nat option \<Rightarrow> 'w qv_lib \<Rightarrow> bool" where
  "lib_inv extra S \<longleftrightarrow>
     (\<forall>sid s. l_scopes S sid = Some s \<longrightarrow> sid < l_next S \<and> l_groups S (s_group s) \<noteq> None) \<and>
     (\<forall>gid g. l_groups S gid = Some g \<longrightarrow>
        gid < l_next S \<and> group_shape g \<and>
        g_refc g = (if extra = Some gid then int (card (refs S gid)) + 1 else max 1 (int (card (refs S gid)))))"

abbreviation lib_ok :: "'w qv_lib \<Rightarrow> bool" where
  "lib_ok \<equiv> lib_inv None"

definition fresh_group :: "nat \<Rightarrow> 'w qv_lib \<Rightarrow> bool" where
  "fresh_group gid S \<longleftrightarrow> l_groups S gid \<noteq> None \<and> refs S gid = {}"

lemma lib_inv_scope:
  "lib_inv e S \<Longrightarrow> l_scopes S sid = Some s \<Longrightarrow> sid < l_next S \<and> (\<exists>g. l_groups S (s_group s) = Some g)"
  by (auto simp: lib_inv_def)

lemma lib_inv_world [simp]: "lib_inv e (S\<lparr>l_world := w\<rparr>) = lib_inv e S"
  by (simp add: lib_inv_def refs_def)

lemma lib_inv_group:
  "lib_inv e S \<Longrightarrow> l_groups S gid = Some g \<Longrightarrow> gid < l_next S \<and> group_shape g \<and>
     g_refc g = (if e = Some gid then int (card (refs S gid)) + 1 else max 1 (int (card (refs S gid))))"
  by (simp add: lib_inv_def)

lemma lib_invI:
  assumes "\<And>sid s. l_scopes S sid = Some s \<Longrightarrow> sid < l_next S \<and> l_groups S (s_group s) \<noteq> None"
    "\<And>gid g. l_groups S gid = Some g \<Longrightarrow> gid < l_next S \<and> group_shape g \<and>
       g_refc g = (if e = Some gid then int (card (refs S gid)) + 1 else max 1 (int (card (refs S gid))))"
  shows "lib_inv e S"
  using assms by (simp add: lib_inv_def)

lemma no_next_ref:
  assumes "lib_inv e S"
  shows "l_scopes S (l_next S) = None" "l_groups S (l_next S) = None" "refs S (l_next S) = {}" "l_next S \<notin> refs S gid"
proof -
  show a: "l_scopes S (l_next S) = None" using lib_inv_scope [OF assms, of "l_next S"] by (cases "l_scopes S (l_next S)") auto
  show b: "l_groups S (l_next S) = None" using lib_inv_group [OF assms, of "l_next S"] by (cases "l_groups S (l_next S)") auto
  show "refs S (l_next S) = {}" using b lib_inv_scope [OF assms] by (fastforce simp: refs_def)
  show "l_next S \<notin> refs S gid" using a by (simp add: refs_def)
qed

lemma finite_refs [simp]: "lib_inv e S \<Longrightarrow> finite (refs S gid)"
  by (rule finite_subset [of _ "{..<l_next S}"]) (auto simp: refs_def lib_inv_def)

lemma refs_simps [simp]:
  "refs (S\<lparr>l_groups := gs\<rparr>) gid = refs S gid" "refs (S\<lparr>l_world := w\<rparr>) gid = refs S gid"
  "refs (S\<lparr>l_next_index := n\<rparr>) gid = refs S gid" "refs (S\<lparr>l_next := n\<rparr>) gid = refs S gid"
  by (simp_all add: refs_def)

section \<open>Operations that do not create or destroy anything\<close>

definition same_group :: "qvi_group \<Rightarrow> qvi_group \<Rightarrow> bool" where
  "same_group g g' \<longleftrightarrow> g_refc g' = g_refc g \<and> g_flags g' = g_flags g \<and> (g_kind g' = Gprocess \<longleftrightarrow> g_kind g = Gprocess) \<and>
     (group_shape g \<longrightarrow> group_shape g')"

definition touched :: "'w qv_lib \<Rightarrow> 'w qv_lib \<Rightarrow> bool" where
  "touched S S' \<longleftrightarrow>
     l_scopes S' = l_scopes S \<and> l_next S' = l_next S \<and> (\<forall>gid. rel_option same_group (l_groups S gid) (l_groups S' gid))"

lemma same_group_refl [simp]: "same_group g g"
  by (simp add: same_group_def)

lemma same_group_trans: "same_group g g' \<Longrightarrow> same_group g' g'' \<Longrightarrow> same_group g g''"
  by (simp add: same_group_def)

lemma touched_refl [simp]: "touched S S"
  by (simp add: touched_def option.rel_refl)

lemma touched_trans:
  assumes "touched S S'" "touched S' S''"
  shows "touched S S''"
proof -
  have "rel_option same_group (l_groups S gid) (l_groups S'' gid)" for gid
    using assms by (cases "l_groups S gid"; cases "l_groups S' gid"; cases "l_groups S'' gid")
      (auto simp: touched_def dest!: spec [of _ gid] intro: same_group_trans)
  with assms show ?thesis by (simp add: touched_def)
qed

lemma touched_put:
  assumes "l_scopes S' = l_scopes S" "l_next S' = l_next S" "l_groups S' = (l_groups S)(gid := Some g')"
    "l_groups S gid = Some g" "same_group g g'"
  shows "touched S S'"
  using assms by (simp add: touched_def option.rel_refl)

lemma touched_same: "l_scopes S' = l_scopes S \<Longrightarrow> l_next S' = l_next S \<Longrightarrow> l_groups S' = l_groups S \<Longrightarrow> touched S S'"
  by (simp add: touched_def option.rel_refl)

lemma touched_group:
  assumes "touched S S'" "l_groups S gid = Some g"
  shows "\<exists>g'. l_groups S' gid = Some g' \<and> same_group g g'"
  using assms by (auto simp: touched_def option_rel_Some1 dest!: spec [of _ gid])

lemma touched_group':
  assumes "touched S S'" "l_groups S' gid = Some g'"
  shows "\<exists>g. l_groups S gid = Some g \<and> same_group g g'"
  using assms by (auto simp: touched_def option_rel_Some2 dest!: spec [of _ gid])

lemma touched_refs: "touched S S' \<Longrightarrow> refs S' gid = refs S gid"
  by (simp add: touched_def refs_def)

lemma touched_inv:
  assumes t: "touched S S'" and inv: "lib_inv e S"
  shows "lib_inv e S'"
  unfolding lib_inv_def
proof (intro conjI allI impI)
  fix sid s assume "l_scopes S' sid = Some s"
  then have "l_scopes S sid = Some s" "l_next S' = l_next S" using t by (simp_all add: touched_def)
  then show "sid < l_next S'" "l_groups S' (s_group s) \<noteq> None"
    using lib_inv_scope [OF inv, of sid s] touched_group [OF t, of "s_group s"] by auto
next
  fix gid g' assume "l_groups S' gid = Some g'"
  then obtain g where g: "l_groups S gid = Some g" "same_group g g'" using touched_group' [OF t] by blast
  moreover have "l_next S' = l_next S" using t by (simp add: touched_def)
  ultimately show "gid < l_next S'" "group_shape g'"
    "g_refc g' = (if e = Some gid then int (card (refs S' gid)) + 1 else max 1 (int (card (refs S' gid))))"
    using inv unfolding touched_refs [OF t] lib_inv_def same_group_def by (metis (no_types))+
qed

lemma touched_fresh: "touched S S' \<Longrightarrow> fresh_group gid S \<Longrightarrow> fresh_group gid S'"
  using touched_group [of S S' gid] by (auto simp: fresh_group_def touched_refs)

definition touches :: "('w, 'a) qv_op \<Rightarrow> bool" where
  "touches m \<longleftrightarrow> (\<forall>S r S'. m S = (r, S') \<longrightarrow> touched S S')"

named_theorems touches_intros

lemma touches_pure [touches_intros]: "touches (sret x)" "touches (sres r)" "touches (group_at gid)" "touches (scope_at sid)"
  by (auto simp: touches_def sret_def sres_def group_at_def scope_at_def split: option.splits)

lemma touches_bind [touches_intros]: "touches m \<Longrightarrow> (\<And>x. touches (k x)) \<Longrightarrow> touches (sbind m k)"
  unfolding touches_def
proof (intro allI impI)
  fix S r S' assume m: "\<forall>S r S'. m S = (r, S') \<longrightarrow> touched S S'" and k: "\<And>x. \<forall>S r S'. k x S = (r, S') \<longrightarrow> touched S S'"
    and step: "sbind m k S = (r, S')"
  obtain r0 S0 where m0: "m S = (r0, S0)" by (cases "m S")
  with m have "touched S S0" by blast
  with step m0 k show "touched S S'" by (cases r0) (auto simp: sbind_def intro: touched_trans)
qed

lemma touches_world [touches_intros]: "touches (on_world m)"
  by (auto simp: touches_def on_world_def split: prod.splits intro!: touched_same)

lemma touches_catch [touches_intros]: "touches m \<Longrightarrow> touches (scatch m)"
  by (auto simp: touches_def scatch_def split: prod.splits)

lemma touches_connect [touches_intros]: "touches (connect_task X flags)" "touches (connect_tasks X flags n)"
  by (auto simp: connect_task_def touches_world, induction n) (auto intro!: touches_intros simp: connect_task_def)

lemma touches_task_index [touches_intros]: "touches (group_task_index X gid)"
proof (unfold touches_def, intro allI impI)
  fix S :: "'a qv_lib" and r S' assume step: "group_task_index X gid S = (r, S')"
  show "touched S S'"
  proof (cases "l_groups S gid")
    case None
    then show ?thesis using step by (auto simp: group_task_index_def sbind_def group_at_def)
  next
    case (Some g)
    show ?thesis
    proof (cases "g_kind g")
      case Gprocess
      then show ?thesis using step Some by (auto simp: group_task_index_def sbind_def group_at_def sret_def)
    next
      case (Gthread th)
      show ?thesis
      proof (cases "thread_task (x_tid X) (l_next_index S) th")
        case (Inl f)
        then show ?thesis using step Some Gthread by (auto simp: group_task_index_def sbind_def group_at_def)
      next
        case (Inr res)
        obtain i nx th' where res: "res = (i, nx, th')" by (cases res)
        have "same_group g (g\<lparr>g_kind := Gthread th'\<rparr>)"
          using thread_task_ok [of th "x_tid X" "l_next_index S"] Inr res Gthread
          by (auto simp: same_group_def group_shape_def)
        then show ?thesis using step Some Gthread Inr res
          by (intro touched_put [of S' S gid "g\<lparr>g_kind := Gthread th'\<rparr>" g])
            (auto simp: group_task_index_def sbind_def group_at_def put_group_def)
      qed
    qed
  qed
qed

lemma touches_task [touches_intros]: "touches (group_task X gid)" "touches (group_hwloc X gid)"
  by (auto simp: group_task_def group_hwloc_def split: prod.splits intro!: touches_intros)

lemma touches_on_task [touches_intros]: "touches (on_task X gid f)"
proof -
  have "touches (sbind (group_at gid) (\<lambda>g S.
     case f t (l_world S) of (r, t', w) \<Rightarrow>
       (r, put_group gid (g\<lparr>g_tasks := (g_tasks g)[i := t']\<rparr>) (S\<lparr>l_world := w\<rparr>))))" for i t
  proof (unfold touches_def, intro allI impI)
    fix S r S' assume step: "sbind (group_at gid) (\<lambda>g S.
     case f t (l_world S) of (r, t', w) \<Rightarrow>
       (r, put_group gid (g\<lparr>g_tasks := (g_tasks g)[i := t']\<rparr>) (S\<lparr>l_world := w\<rparr>))) S = (r, S')"
    show "touched S S'"
    proof (cases "l_groups S gid")
      case None
      then show ?thesis using step by (auto simp: sbind_def group_at_def)
    next
      case (Some g)
      obtain r0 t' w where f: "f t (l_world S) = (r0, t', w)" by (metis prod_cases3)
      show ?thesis
        using step Some f
        by (intro touched_put [of S' S gid "g\<lparr>g_tasks := (g_tasks g)[i := t']\<rparr>" g])
          (auto simp: sbind_def group_at_def put_group_def same_group_def group_shape_def split: group_kind.splits)
    qed
  qed
  then show ?thesis unfolding on_task_def by (intro touches_bind [OF touches_task(1)]) (simp split: prod.splits)
qed

section \<open>Operations keep the state well-formed\<close>

text \<open>
  From a state with \<open>P\<close> the operation returns a result with \<open>Q\<close>, or fails and leaves a well-formed state,
  unless the process dies.
\<close>

definition triple :: "('w qv_lib \<Rightarrow> bool) \<Rightarrow> ('w, 'a) qv_op \<Rightarrow> ('a \<Rightarrow> 'w qv_lib \<Rightarrow> bool) \<Rightarrow> bool" where
  "triple P m Q \<longleftrightarrow> (\<forall>S. P S \<longrightarrow>
     (case m S of (Inr x, S') \<Rightarrow> Q x S' | (Inl f, S') \<Rightarrow> f = Abort \<or> f = Undef \<or> lib_ok S'))"

lemma tripleD:
  "triple P m Q \<Longrightarrow> P S \<Longrightarrow>
     (case m S of (Inr x, S') \<Rightarrow> Q x S' | (Inl f, S') \<Rightarrow> f = Abort \<or> f = Undef \<or> lib_ok S')"
  by (simp add: triple_def)

lemma triple_bind:
  assumes "triple P m Q" "\<And>x. triple (Q x) (k x) R"
  shows "triple P (sbind m k) R"
proof (unfold triple_def, intro allI impI)
  fix S assume "P S"
  obtain r S0 where m: "m S = (r, S0)" by (cases "m S")
  show "case sbind m k S of (Inr x, S') \<Rightarrow> R x S' | (Inl f, S') \<Rightarrow> f = Abort \<or> f = Undef \<or> lib_ok S'"
  proof (cases r)
    case (Inl f)
    then show ?thesis using assms(1) \<open>P S\<close> m by (auto simp: triple_def sbind_def dest!: spec [of _ S])
  next
    case (Inr x)
    then have "Q x S0" using assms(1) \<open>P S\<close> m by (auto simp: triple_def dest!: spec [of _ S])
    with assms(2) [of x] Inr m show ?thesis by (auto simp: triple_def sbind_def dest!: spec [of _ S0])
  qed
qed

lemma triple_catch: "triple P m Q \<Longrightarrow> triple P (scatch m) Q"
  unfolding triple_def scatch_def
proof (intro allI impI)
  fix S assume t: "\<forall>S. P S \<longrightarrow> (case m S of (Inr x, S') \<Rightarrow> Q x S' | (Inl f, S') \<Rightarrow> f = Abort \<or> f = Undef \<or> lib_ok S')" and "P S"
  obtain r S0 where m: "m S = (r, S0)" by (cases "m S")
  with t \<open>P S\<close> have "case r of Inr x \<Rightarrow> Q x S0 | Inl f \<Rightarrow> f = Abort \<or> f = Undef \<or> lib_ok S0"
    by (auto dest!: spec [of _ S] split: sum.splits)
  then show "case case m S of (r, S') \<Rightarrow> (qvi_catch_and_return r, S') of
       (Inr x, S') \<Rightarrow> Q x S' | (Inl f, S') \<Rightarrow> f = Abort \<or> f = Undef \<or> lib_ok S'"
    using m by (cases r rule: qvi_catch_and_return.cases) auto
qed

lemma triple_touch:
  assumes "touches m" "\<And>S S'. P S \<Longrightarrow> touched S S' \<Longrightarrow> P S'" "\<And>S. P S \<Longrightarrow> lib_ok S"
  shows "triple P m (\<lambda>x. P)"
proof (unfold triple_def, intro allI impI)
  fix S assume "P S"
  obtain r S0 where m: "m S = (r, S0)" by (cases "m S")
  then have "P S0" using assms(1,2) \<open>P S\<close> by (auto simp: touches_def)
  with assms(3) m show "case m S of (Inr x, S') \<Rightarrow> P S' | (Inl f, S') \<Rightarrow> f = Abort \<or> f = Undef \<or> lib_ok S'"
    by (cases r) auto
qed

lemma triple_post: "triple P m Q \<Longrightarrow> (\<And>x S. Q x S \<Longrightarrow> Q' x S) \<Longrightarrow> triple P m Q'"
  by (fastforce simp: triple_def split: prod.splits sum.splits)

lemma triple_pre: "triple P m Q \<Longrightarrow> (\<And>S. P' S \<Longrightarrow> P S) \<Longrightarrow> triple P' m Q"
  by (auto simp: triple_def)

lemma triple_fail [simp]: "triple lib_ok (sres (Inl f)) Q"
  by (simp add: triple_def sres_def)

abbreviation holding :: "nat \<Rightarrow> 'w qv_lib \<Rightarrow> bool" where
  "holding gid S \<equiv> lib_ok S \<and> fresh_group gid S"

lemma triple_ok: "touches m \<Longrightarrow> triple lib_ok m (\<lambda>x. lib_ok)"
  by (rule triple_touch) (auto intro: touched_inv)

lemma triple_holding: "touches m \<Longrightarrow> triple (holding gid) m (\<lambda>x. holding gid)"
  by (rule triple_touch) (auto intro: touched_inv touched_fresh)

lemma alloc_group_holding:
  assumes "g_refc g = 1" "group_shape g"
  shows "triple lib_ok (alloc_group g) holding"
proof (unfold triple_def, intro allI impI)
  fix S :: "'a qv_lib" assume ok: "lib_ok S"
  let ?S = "put_group (l_next S) g (S\<lparr>l_next := Suc (l_next S)\<rparr>)"
  note r = no_next_ref [OF ok]
  have "lib_ok ?S"
  proof (rule lib_invI)
    fix sid s assume "l_scopes ?S sid = Some s"
    then show "sid < l_next ?S \<and> l_groups ?S (s_group s) \<noteq> None"
      using lib_inv_scope [OF ok, of sid s] by (auto simp: put_group_def)
  next
    fix gid g' assume g': "l_groups ?S gid = Some g'"
    show "gid < l_next ?S \<and> group_shape g' \<and>
      g_refc g' = (if None = Some gid then int (card (refs ?S gid)) + 1 else max 1 (int (card (refs ?S gid))))"
    proof (cases "gid = l_next S")
      case True
      with g' assms r(3) show ?thesis by (simp add: put_group_def)
    next
      case False
      with g' lib_inv_group [OF ok, of gid g'] show ?thesis by (simp add: put_group_def)
    qed
  qed
  then show "case alloc_group g S of (Inr x, S') \<Rightarrow> holding x S' | (Inl f, S') \<Rightarrow> f = Abort \<or> f = Undef \<or> lib_ok S'"
    using r(3) by (simp add: alloc_group_def fresh_group_def put_group_def)
qed

lemma delete_group_ok:
  assumes "holding gid S"
  shows "lib_ok (delete_group gid S)"
proof (rule lib_invI)
  fix sid s assume s: "l_scopes (delete_group gid S) sid = Some s"
  then have "s_group s \<noteq> gid" using assms by (auto simp: delete_group_def fresh_group_def refs_def)
  then show "sid < l_next (delete_group gid S) \<and> l_groups (delete_group gid S) (s_group s) \<noteq> None"
    using lib_inv_scope [of None S sid s] assms s by (auto simp: delete_group_def)
next
  fix gid' g assume "l_groups (delete_group gid S) gid' = Some g"
  then show "gid' < l_next (delete_group gid S) \<and> group_shape g \<and>
      g_refc g = (if None = Some gid' then int (card (refs (delete_group gid S) gid')) + 1
                  else max 1 (int (card (refs (delete_group gid S) gid'))))"
    using lib_inv_group [of None S gid' g] assms by (simp add: delete_group_def split: if_splits)
qed

lemma on_rc_delete:
  fixes m :: "('w, 'a) qv_op"
  assumes "triple (holding gid) m Q"  "\<And>S c S'. holding gid S \<Longrightarrow> m S = (Inl (Rc c), S') \<Longrightarrow> holding gid S'"
  shows "triple (holding gid) (on_rc m (delete_group gid)) Q"
proof (unfold triple_def, intro allI impI)
  fix S :: "'w qv_lib" assume h: "holding gid S"
  obtain r S0 where m: "m S = (r, S0)" by (cases "m S")
  show "case on_rc m (delete_group gid) S of (Inr x, S') \<Rightarrow> Q x S' | (Inl f, S') \<Rightarrow> f = Abort \<or> f = Undef \<or> lib_ok S'"
    using assms(1) assms(2) [OF h] h m delete_group_ok [where gid = gid and S = S0]
    by (cases r rule: qvi_catch_and_return.cases) (auto simp: triple_def on_rc_def dest!: spec [of _ S])
qed

text \<open>A new scope on a group changes the references of that group only.\<close>

lemma scope_new_refs:
  assumes "lib_inv e S" "qv_scope_new X i gid p S = (Inr c, S')"
  shows "c = l_next S" "l_groups S' = l_groups S" "l_next S' = Suc (l_next S)"
    "l_scopes S' = (l_scopes S)(l_next S := Some \<lparr>s_group = gid, s_hwpool = p\<rparr>)"
    "refs S' gid' = (if gid' = gid then insert (l_next S) (refs S gid) else refs S gid')"
    "card (refs S' gid) = Suc (card (refs S gid))"
proof -
  show S': "c = l_next S" "l_groups S' = l_groups S" "l_next S' = Suc (l_next S)"
    "l_scopes S' = (l_scopes S)(l_next S := Some \<lparr>s_group = gid, s_hwpool = p\<rparr>)"
    using assms(2) by (auto simp: qv_scope_new_def split: if_splits)
  show "refs S' gid' = (if gid' = gid then insert (l_next S) (refs S gid) else refs S gid')" for gid'
    using no_next_ref(1) [OF assms(1)] by (auto simp: refs_def S')
  from this [of gid] show "card (refs S' gid) = Suc (card (refs S gid))"
    using no_next_ref(4) [OF assms(1), of gid] finite_refs [OF assms(1), of gid] by simp
qed

lemma scope_new_inv:
  assumes inv: "lib_inv e S" and gid: "l_groups S gid = Some g0" and new: "qv_scope_new X i gid p S = (Inr c, S')"
    and e': "\<And>gid'. gid' \<noteq> gid \<Longrightarrow> e = Some gid' \<longleftrightarrow> e' = Some gid'"
    and count: "g_refc g0 = (if e' = Some gid then int (card (refs S gid)) + 2 else max 1 (int (card (refs S gid)) + 1))"
  shows "lib_inv e' S'"
proof (rule lib_invI)
  note S' = scope_new_refs [OF inv new]
  fix sid s assume "l_scopes S' sid = Some s"
  then show "sid < l_next S' \<and> l_groups S' (s_group s) \<noteq> None"
    using lib_inv_scope [OF inv, of sid s] gid by (auto simp: S'(2-4) split: if_splits)
next
  note S' = scope_new_refs [OF inv new]
  fix gid' g' assume g': "l_groups S' gid' = Some g'"
  note old = lib_inv_group [OF inv g' [unfolded S'(2)]]
  show "gid' < l_next S' \<and> group_shape g' \<and>
      g_refc g' = (if e' = Some gid' then int (card (refs S' gid')) + 1 else max 1 (int (card (refs S' gid'))))"
  proof (cases "gid' = gid")
    case True
    then have "g' = g0" using g' gid by (simp add: S'(2))
    moreover have "gid' < l_next S" "group_shape g'" using old by blast+
    ultimately show ?thesis using True count S'(6) by (simp add: S'(3) algebra_simps)
  next
    case False
    with old e' [of gid'] S'(5) [of gid'] show ?thesis by (simp add: S'(3))
  qed
qed

lemma scope_new_ok: "triple (holding gid) (qv_scope_new X i gid p) (\<lambda>x. lib_ok)"
proof (unfold triple_def, intro allI impI)
  fix S :: "'a qv_lib" assume h: "holding gid S"
  then obtain g where g: "l_groups S gid = Some g" by (auto simp: fresh_group_def)
  have "g_refc g = 1" using lib_inv_group [of None S gid g] g h by (simp add: fresh_group_def)
  then have "lib_ok S'" if "qv_scope_new X i gid p S = (Inr c, S')" for c S'
    using scope_new_inv [of None S gid g X i p c S' None] h g that by (simp add: fresh_group_def)
  then show "case qv_scope_new X i gid p S of (Inr x, S') \<Rightarrow> lib_ok S' | (Inl f, S') \<Rightarrow> f = Abort \<or> f = Undef \<or> lib_ok S'"
    using h by (cases "x_mem X i") (auto simp: qv_scope_new_def)
qed

lemma refs_unscope: "refs (S\<lparr>l_scopes := (l_scopes S)(sid := None)\<rparr>) gid = refs S gid - {sid}"
  by (auto simp: refs_def)

lemma release_result:
  "0 < c \<Longrightarrow> release c = Inr (if c = 1 then None else Some (c - 1))"
  by (simp add: release_def)

text \<open>Deleting a scope: the group goes with its last scope.\<close>

lemma scope_delete_effect:
  assumes ok: "lib_ok S" and s: "l_scopes S sid = Some s" and g: "l_groups S (s_group s) = Some g"
  shows "qv_scope_delete sid S =
    (Inr (), if refs S (s_group s) = {sid} then delete_group (s_group s) (S\<lparr>l_scopes := (l_scopes S)(sid := None)\<rparr>)
       else put_group (s_group s) (g\<lparr>g_refc := g_refc g - 1\<rparr>) (S\<lparr>l_scopes := (l_scopes S)(sid := None)\<rparr>))"
    and "g_refc g = int (card (refs S (s_group s)))"
proof -
  have mem: "sid \<in> refs S (s_group s)" using s by (auto simp: refs_def)
  then have pos: "0 < card (refs S (s_group s))" using finite_refs [OF ok] by (auto simp: card_gt_0_iff)
  then show c: "g_refc g = int (card (refs S (s_group s)))" using lib_inv_group [OF ok g] by simp
  have "card (refs S (s_group s)) = 1 \<longleftrightarrow> refs S (s_group s) = {sid}"
    using mem by (auto simp: card_1_singleton_iff)
  then have "release (g_refc g) = Inr (if refs S (s_group s) = {sid} then None else Some (g_refc g - 1))"
    using c pos by (subst release_result) (auto simp: nat_eq_iff2)
  then show "qv_scope_delete sid S =
    (Inr (), if refs S (s_group s) = {sid} then delete_group (s_group s) (S\<lparr>l_scopes := (l_scopes S)(sid := None)\<rparr>)
       else put_group (s_group s) (g\<lparr>g_refc := g_refc g - 1\<rparr>) (S\<lparr>l_scopes := (l_scopes S)(sid := None)\<rparr>))"
    using s g by (simp add: qv_scope_delete_def sbind_def scope_at_def group_release_def group_at_def)
qed

lemma unscope_inv:
  assumes ok: "lib_ok S" and s: "l_scopes S sid = Some s" and g: "l_groups S (s_group s) = Some g"
    and S': "l_scopes S' = (l_scopes S)(sid := None)" "l_next S' = l_next S"
      "l_groups S' = (l_groups S)(s_group s := (if refs S (s_group s) = {sid} then None else Some (g\<lparr>g_refc := g_refc g - 1\<rparr>)))"
  shows "lib_ok S'"
proof (rule lib_invI)
  fix sid' s' assume s': "l_scopes S' sid' = Some s'"
  then have ne: "sid' \<noteq> sid" "l_scopes S sid' = Some s'" by (auto simp: S' split: if_splits)
  then have "s_group s' = s_group s \<Longrightarrow> refs S (s_group s) \<noteq> {sid}" by (auto simp: refs_def)
  with lib_inv_scope [OF ok ne(2)] show "sid' < l_next S' \<and> l_groups S' (s_group s') \<noteq> None" by (auto simp: S')
next
  fix gid g' assume g': "l_groups S' gid = Some g'"
  have r: "refs S' gid' = refs S gid' - {sid}" for gid' by (auto simp: refs_def S')
  have mem: "sid \<in> refs S gid \<longleftrightarrow> gid = s_group s" using s by (auto simp: refs_def)
  show "gid < l_next S' \<and> group_shape g' \<and>
      g_refc g' = (if None = Some gid then int (card (refs S' gid)) + 1 else max 1 (int (card (refs S' gid))))"
  proof (cases "gid = s_group s")
    case True
    then have more: "refs S (s_group s) \<noteq> {sid}" "g' = g\<lparr>g_refc := g_refc g - 1\<rparr>" using g' by (auto simp: S' split: if_splits)
    have fin: "finite (refs S (s_group s))" using ok by simp
    have "refs S (s_group s) - {sid} \<noteq> {}" using more(1) mem True by auto
    then have "0 < card (refs S (s_group s) - {sid})" using fin by (simp add: card_gt_0_iff)
    moreover have "card (refs S (s_group s)) = Suc (card (refs S (s_group s) - {sid}))"
      using card.remove [OF fin] mem True by simp
    ultimately show ?thesis
      using lib_inv_group [OF ok g] scope_delete_effect(2) [OF ok s g] True more(2)
      by (simp add: r S')
  next
    case False
    then have "l_groups S gid = Some g'" using g' by (simp add: S')
    with lib_inv_group [OF ok this] False mem show ?thesis by (simp add: r S')
  qed
qed

lemma scope_delete_ok: "triple lib_ok (qv_scope_delete sid) (\<lambda>x. lib_ok)"
proof (unfold triple_def, intro allI impI)
  fix S :: "'a qv_lib" assume ok: "lib_ok S"
  show "case qv_scope_delete sid S of (Inr x, S') \<Rightarrow> lib_ok S' | (Inl f, S') \<Rightarrow> f = Abort \<or> f = Undef \<or> lib_ok S'"
  proof (cases "l_scopes S sid")
    case None
    then show ?thesis by (simp add: qv_scope_delete_def sbind_def scope_at_def)
  next
    case (Some s)
    then obtain g where g: "l_groups S (s_group s) = Some g" using lib_inv_scope [OF ok] by blast
    show ?thesis
      unfolding scope_delete_effect(1) [OF ok Some g]
      by (auto simp: delete_group_def put_group_def intro!: unscope_inv [OF ok Some g])
  qed
qed

lemma put_refc_inv:
  assumes inv: "lib_inv e S" and g: "l_groups S gid = Some g"
    and e': "\<And>gid'. gid' \<noteq> gid \<Longrightarrow> e = Some gid' \<longleftrightarrow> e' = Some gid'"
    and c: "c = (if e' = Some gid then int (card (refs S gid)) + 1 else max 1 (int (card (refs S gid))))"
  shows "lib_inv e' (put_group gid (g\<lparr>g_refc := c\<rparr>) S)"
proof (rule lib_invI)
  fix sid s assume "l_scopes (put_group gid (g\<lparr>g_refc := c\<rparr>) S) sid = Some s"
  then show "sid < l_next (put_group gid (g\<lparr>g_refc := c\<rparr>) S) \<and> l_groups (put_group gid (g\<lparr>g_refc := c\<rparr>) S) (s_group s) \<noteq> None"
    using lib_inv_scope [OF inv, of sid s] by (auto simp: put_group_def)
next
  fix gid' g' assume g': "l_groups (put_group gid (g\<lparr>g_refc := c\<rparr>) S) gid' = Some g'"
  show "gid' < l_next (put_group gid (g\<lparr>g_refc := c\<rparr>) S) \<and> group_shape g' \<and>
      g_refc g' = (if e' = Some gid' then int (card (refs (put_group gid (g\<lparr>g_refc := c\<rparr>) S) gid')) + 1
                   else max 1 (int (card (refs (put_group gid (g\<lparr>g_refc := c\<rparr>) S) gid'))))"
  proof (cases "gid' = gid")
    case True
    then show ?thesis using lib_inv_group [OF inv g] g' c by (auto simp: put_group_def)
  next
    case False
    then show ?thesis using lib_inv_group [OF inv, of gid' g'] g' e' [OF False] by (simp add: put_group_def)
  qed
qed

text \<open>One iteration of the loop that creates the children of a thread split, and its end.\<close>

lemma child_step:
  assumes inv: "lib_inv (Some gid) S" and g: "l_groups S gid = Some g" and new: "qv_scope_new X i gid p S = (Inr c, S1)"
  shows "lib_inv (Some gid) (put_group gid (g\<lparr>g_refc := retain (g_refc g)\<rparr>) S1)" "l_groups S1 gid = Some g" "refs S1 gid \<noteq> {}"
proof -
  note S1 = scope_new_refs [OF inv new]
  have c: "g_refc g = int (card (refs S gid)) + 1" using lib_inv_group [OF inv g] by simp
  have ok1: "lib_ok S1" by (rule scope_new_inv [OF inv g new]) (use c in auto)
  show "l_groups S1 gid = Some g" "refs S1 gid \<noteq> {}" using g S1(2,5) by auto
  then show "lib_inv (Some gid) (put_group gid (g\<lparr>g_refc := retain (g_refc g)\<rparr>) S1)"
    using ok1 c S1(6) by (intro put_refc_inv) (auto simp: retain_def)
qed

abbreviation building :: "nat \<Rightarrow> nat list \<Rightarrow> 'w qv_lib \<Rightarrow> bool" where
  "building gid children S \<equiv> lib_inv (Some gid) S \<and> l_groups S gid \<noteq> None \<and> (children \<noteq> [] \<longrightarrow> refs S gid \<noteq> {})"

lemma thread_children_ok:
  "triple (building gid children) (thread_children X gid pools is children)
     (\<lambda>children' S. building gid children' S \<and> (is @ children \<noteq> [] \<longrightarrow> children' \<noteq> []))"
proof (induction "is" arbitrary: children)
  case Nil
  then show ?case by (simp add: triple_def sret_def)
next
  case (Cons i js)
  show ?case
  proof (unfold triple_def, intro allI impI)
    fix S :: "'a qv_lib" assume b: "building gid children S"
    then obtain g where g: "l_groups S gid = Some g" by blast
    show "case thread_children X gid pools (i # js) children S of
         (Inr x, S') \<Rightarrow> building gid x S' \<and> ((i # js) @ children \<noteq> [] \<longrightarrow> x \<noteq> [])
       | (Inl f, S') \<Rightarrow> f = Abort \<or> f = Undef \<or> lib_ok S'"
    proof (cases "i < length pools \<and> x_mem X i")
      case False
      then show ?thesis by (auto simp: sbind_def sres_def vec_ix_def qv_scope_new_def)
    next
      case True
      then obtain c S1 where new: "qv_scope_new X i gid (pools ! i) S = (Inr c, S1)" by (simp add: qv_scope_new_def)
      note st = child_step [OF _ g new]
      let ?S2 = "put_group gid (g\<lparr>g_refc := retain (g_refc g)\<rparr>) S1"
      have run: "thread_children X gid pools (i # js) children S = thread_children X gid pools js (children @ [c]) ?S2"
        using True new st(2) b by (simp add: sbind_def sres_def vec_ix_def group_retain_def group_at_def)
      have b2: "building gid (children @ [c]) ?S2" using st b by (simp add: put_group_def)
      have "triple (building gid (children @ [c])) (thread_children X gid pools js (children @ [c]))
         (\<lambda>x S'. building gid x S' \<and> ((i # js) @ children \<noteq> [] \<longrightarrow> x \<noteq> []))"
        by (rule triple_post [OF Cons.IH]) auto
      from tripleD [OF this b2] show ?thesis unfolding run .
    qed
  qed
qed

lemma release_built: "triple (\<lambda>S. building gid children S \<and> children \<noteq> []) (group_release gid) (\<lambda>x. lib_ok)"
proof (unfold triple_def, intro allI impI)
  fix S :: "'a qv_lib" assume b: "building gid children S \<and> children \<noteq> []"
  then obtain g where g: "l_groups S gid = Some g" by blast
  have c: "g_refc g = int (card (refs S gid)) + 1" using lib_inv_group [of "Some gid" S gid g] b g by simp
  have "0 < card (refs S gid)" using b finite_refs [of "Some gid" S gid] by (auto simp: card_gt_0_iff)
  then have "group_release gid S = (Inr (), put_group gid (g\<lparr>g_refc := int (card (refs S gid))\<rparr>) S)"
    using g c by (simp add: group_release_def sbind_def group_at_def release_result)
  moreover have "lib_ok (put_group gid (g\<lparr>g_refc := int (card (refs S gid))\<rparr>) S)"
    using b g \<open>0 < card (refs S gid)\<close> by (intro put_refc_inv [of "Some gid"]) auto
  ultimately show "case group_release gid S of (Inr x, S') \<Rightarrow> lib_ok S' | (Inl f, S') \<Rightarrow> f = Abort \<or> f = Undef \<or> lib_ok S'"
    by simp
qed

section \<open>Every call keeps the state well-formed\<close>

lemma process_group_holding: "triple lib_ok (qvi_group_process_new X flags) holding"
  unfolding qvi_group_process_new_def
  by (intro triple_catch triple_bind [OF triple_ok] alloc_group_holding touches_intros)
    (simp_all add: refc_new_def group_shape_def)

lemma thread_group_holding:
  assumes "0 < n"
  shows "triple lib_ok (thread_group_new X flags n) holding"
proof -
  have len: "connect_tasks X flags m S = (Inr ts, S') \<Longrightarrow> length ts = m" for m ts and S S' :: "'a qv_lib"
    by (induction m arbitrary: S S' ts) (auto simp: sret_def sbind_def split: prod.splits sum.splits)
  have th: "thread_group_ok (qvi_group_thread_new n)"
    using assms by (simp add: thread_group_ok_def qvi_group_thread_new_def lru_ok_def qvi_lru_cache_new_def lru_abs_def)
  have "triple lib_ok (connect_tasks X flags n) (\<lambda>ts S. lib_ok S \<and> length ts = n)"
  proof (unfold triple_def, intro allI impI)
    fix S :: "'a qv_lib" assume "lib_ok S"
    from tripleD [OF triple_ok [OF touches_connect(2)] this, of X flags n]
    show "case connect_tasks X flags n S of (Inr x, S') \<Rightarrow> lib_ok S' \<and> length x = n | (Inl f, S') \<Rightarrow> f = Abort \<or> f = Undef \<or> lib_ok S'"
      using len [of n S] by (auto split: prod.splits sum.splits)
  qed
  moreover have "triple (\<lambda>S. lib_ok S \<and> length ts = n)
     (alloc_group \<lparr>g_refc = refc_new, g_flags = flags, g_kind = Gthread (qvi_group_thread_new n), g_tasks = ts\<rparr>) holding" for ts
  proof (cases "length ts = n")
    case True
    then show ?thesis
      using th by (intro triple_pre [OF alloc_group_holding]) (auto simp: refc_new_def group_shape_def qvi_group_thread_new_def)
  qed (simp add: triple_def)
  ultimately show ?thesis unfolding thread_group_new_def by (intro triple_catch triple_bind)
qed

lemma group_derive_holding:
  "triple lib_ok (group_self X gid) holding" "triple lib_ok (group_split X gid) holding"
  "0 < n \<Longrightarrow> triple lib_ok (group_thread_split X gid n) holding"
proof -
  show self: "triple lib_ok (group_self X gid) holding" unfolding group_self_def
    by (rule triple_bind [OF triple_ok]) (auto intro: touches_intros process_group_holding split: group_kind.split)
  show "triple lib_ok (group_split X gid) holding" unfolding group_split_def
    by (rule triple_bind [OF triple_ok]) (auto intro: touches_intros self split: group_kind.split)
  show "0 < n \<Longrightarrow> triple lib_ok (group_thread_split X gid n) holding" unfolding group_thread_split_def
    by (rule triple_bind [OF triple_ok]) (auto intro: touches_intros thread_group_holding split: group_kind.split)
qed

lemma make_intrinsic_ok: "triple (holding gid) (make_intrinsic X gid iscope flags) (\<lambda>x. lib_ok)"
  unfolding make_intrinsic_def group_make_intrinsic_def
  by (intro triple_bind [OF triple_holding] scope_new_ok touches_intros)
    (auto intro!: touches_intros triple_bind [OF triple_holding] scope_new_ok split: group_kind.split prod.split)

lemma scope_create_ok: "triple lib_ok (scope_create X sid type nobjs) (\<lambda>x. lib_ok)"
proof -
  let ?m = "\<lambda>s. sbind (group_task X (s_group s)) (\<lambda>(i, t).
      on_world (client_get_cpuset_for_nobjs (x_rmi X) (x_sock X) (m_rmi t) (hwpool_cpuset (s_hwpool s)) type nobjs))"
  have t: "touches (?m s)" for s by (auto intro!: touches_intros split: prod.split)
  have m: "triple (holding group) (on_rc (?m s) (delete_group group)) (\<lambda>x. holding group)" for s group
    by (rule on_rc_delete [OF triple_holding [OF t]])
       (use t [of s] in \<open>auto simp: touches_def intro: touched_inv touched_fresh\<close>)
  show ?thesis unfolding scope_create_def
    by (rule triple_bind [OF triple_ok], rule touches_intros, rule triple_bind [OF group_derive_holding(1)],
        rule triple_bind [OF m], rule triple_bind [OF triple_holding], rule touches_intros, rule scope_new_ok)
qed

lemma scope_split_ok: "triple lib_ok (scope_split X sid npieces color type) (\<lambda>x. lib_ok)"
proof -
  have fin: "triple (holding group) (on_rc (qv_scope_new X 0 group hwpool) (delete_group group)) (\<lambda>x. lib_ok)" for group hwpool
    by (rule on_rc_delete [OF scope_new_ok]) (auto simp: qv_scope_new_def split: if_splits)
  show ?thesis unfolding scope_split_def
    by (intro triple_bind [OF triple_ok] touches_intros)
      (auto intro!: triple_bind [OF triple_ok] triple_bind [OF group_derive_holding(2)] fin touches_intros split: prod.split)
qed

lemma touches_nobjects [touches_intros]: "touches (scope_nobjects X sid obj)"
  unfolding scope_nobjects_def by (intro touches_intros)

lemma thread_split_none: "thread_split L h p bt tid npieces kcolors 0 type \<noteq> Inr r"
proof
  assume r: "thread_split L h p bt tid npieces kcolors 0 type = Inr r"
  have det: "m_determine_mapping (hs\<lparr>m_split_cpusets := c\<rparr>) = Inl Undef" if "m_colors hs = []" for hs c
    using that by (simp add: m_determine_mapping_def Let_def)
  have sp: "m_split L h hs \<noteq> Inr r'" if "m_colors hs = []" for hs r'
    using that det [of hs] by (auto simp: m_split_def m_split_cpuset_def Let_def rbind_Inr_iff split: prod.splits)
  show False
    using r sp by (auto simp: thread_split_def qvi_hwsplit_new_def m_reserve_def vec_resize_def Let_def rbind_Inr_iff
        split: sum.splits fail.splits)
qed

lemma scope_thread_split_ok: "triple lib_ok (scope_thread_split X sid npieces kcolors k type) (\<lambda>x. lib_ok)"
proof (cases "k = 0")
  case True
  have "triple lib_ok (sbind (sres (thread_split L h p bt tid npieces kcolors k type)) m) Q" for L h p bt tid m Q
  proof (cases "thread_split L h p bt tid npieces kcolors k type")
    case (Inr r)
    then show ?thesis using thread_split_none True by blast
  qed (simp add: triple_def sbind_def sres_def)
  then show ?thesis unfolding scope_thread_split_def
    by (intro triple_bind [OF triple_ok] touches_intros) (auto intro!: touches_intros split: prod.split)
next
  case False
  have fin: "triple (holding thgroup) (sbind (thread_children X thgroup hwpools [0..<k] []) (\<lambda>children.
     sbind (group_release thgroup) (\<lambda>u. sret children))) (\<lambda>x. lib_ok)" for thgroup hwpools
  proof (rule triple_bind)
    have "building thgroup [] S" if "holding thgroup S" for S :: "'a qv_lib"
    proof -
      from that obtain g where g: "l_groups S thgroup = Some g" by (auto simp: fresh_group_def)
      have "put_group thgroup (g\<lparr>g_refc := 1\<rparr>) S = S"
        using lib_inv_group [of None S thgroup g] that g by (cases g) (auto simp: put_group_def fresh_group_def fun_upd_idem)
      then show ?thesis using put_refc_inv [of None S thgroup g "Some thgroup" 1] that g
        by (simp add: fresh_group_def)
    qed
    then show "triple (holding thgroup) (thread_children X thgroup hwpools [0..<k] [])
        (\<lambda>children S. building thgroup children S \<and> children \<noteq> [])"
      using False by (intro triple_pre [OF triple_post [OF thread_children_ok]]) auto
    show "triple (\<lambda>S. building thgroup children S \<and> children \<noteq> []) (sbind (group_release thgroup) (\<lambda>u. sret children)) (\<lambda>x. lib_ok)"
      for children
      by (rule triple_bind [OF release_built]) (simp add: triple_def sret_def)
  qed
  have sp: "triple lib_ok (group_thread_split X gid k) holding" for gid using False by (intro group_derive_holding) simp
  show ?thesis unfolding scope_thread_split_def
    by (intro triple_bind [OF triple_ok] touches_intros)
      (auto intro!: triple_bind [OF triple_ok] triple_bind [OF sp] fin touches_intros split: prod.split)
qed

lemma thread_destroy_ok: "triple lib_ok (thread_destroy sids) (\<lambda>x. lib_ok)"
proof (induction sids)
  case Nil
  then show ?case by (simp add: triple_def sret_def)
next
  case (Cons sid sids)
  then show ?case by (simp add: triple_bind [OF scope_delete_ok])
qed

section \<open>Reachable states\<close>

definition survives :: "'a res \<Rightarrow> bool" where
  "survives r \<longleftrightarrow> r \<noteq> Inl Abort \<and> r \<noteq> Inl Undef"

text \<open>A process calls the library in any order; the rest of the world moves in between.\<close>

inductive lib_step :: "'w qv_lib \<Rightarrow> 'w qv_lib \<Rightarrow> bool" where
  process_scope: "qv_process_scope X iscope flags out S = (r, S') \<Longrightarrow> survives r \<Longrightarrow> lib_step S S'"
| bind_push: "qv_bind_push X scope S = (r, S') \<Longrightarrow> survives r \<Longrightarrow> lib_step S S'"
| bind_pop: "qv_bind_pop X scope S = (r, S') \<Longrightarrow> survives r \<Longrightarrow> lib_step S S'"
| bind_string: "qv_bind_string X scope flags out S = (rs, S') \<Longrightarrow> survives rs \<Longrightarrow> lib_step S S'"
| free_scope: "qv_free scope S = (r, S') \<Longrightarrow> survives r \<Longrightarrow> lib_step S S'"
| hw_obj_count: "qv_hw_obj_count X scope obj out S = (ri, S') \<Longrightarrow> survives ri \<Longrightarrow> lib_step S S'"
| group_info: "qv_group_rank scope out S = (ri, S') \<Longrightarrow> survives ri \<Longrightarrow> lib_step S S'"
| group_info2: "qv_group_size scope out S = (ri, S') \<Longrightarrow> survives ri \<Longrightarrow> lib_step S S'"
| barrier: "qv_barrier scope S = (r, S') \<Longrightarrow> survives r \<Longrightarrow> lib_step S S'"
| create_scope: "qv_create_scope X scope type nobjs out S = (rn, S') \<Longrightarrow> survives rn \<Longrightarrow> lib_step S S'"
| split: "qv_split X scope npieces group_id out S = (rn, S') \<Longrightarrow> survives rn \<Longrightarrow> lib_step S S'"
| split_at: "qv_split_at X scope type group_id out S = (rn, S') \<Longrightarrow> survives rn \<Longrightarrow> lib_step S S'"
| device_id: "qv_device_id scope type dev_index id_type out S = (rs, S') \<Longrightarrow> survives rs \<Longrightarrow> lib_step S S'"
| thread_split: "qv_thread_split X scope npieces kcolors k out S = (rl, S') \<Longrightarrow> survives rl \<Longrightarrow> lib_step S S'"
| thread_split_at: "qv_thread_split_at X scope type kcolors k out S = (rl, S') \<Longrightarrow> survives rl \<Longrightarrow> lib_step S S'"
| thread_free: "qv_thread_free nscopes scopes S = (r, S') \<Longrightarrow> survives r \<Longrightarrow> lib_step S S'"
| world: "lib_step S (S\<lparr>l_world := w\<rparr>)"

inductive lib_reachable :: "'w qv_lib \<Rightarrow> bool" where
  start: "l_groups S = (\<lambda>gid. None) \<Longrightarrow> l_scopes S = (\<lambda>sid. None) \<Longrightarrow> lib_reachable S"
| step: "lib_reachable S \<Longrightarrow> lib_step S S' \<Longrightarrow> lib_reachable S'"

lemma triple_step:
  assumes "triple lib_ok m (\<lambda>x. lib_ok)" "m S = (r, S')" "survives r" "lib_ok S"
  shows "lib_ok S'"
  using tripleD [OF assms(1,4)] assms(2,3) by (cases r) (auto simp: survives_def)

lemma qv_api_ok: "triple lib_ok m (\<lambda>x. lib_ok) \<Longrightarrow> triple lib_ok (qv_api valid m) (\<lambda>x. lib_ok)"
  by (simp add: qv_api_def triple_catch)

lemma touches_scope [touches_intros]:
  "touches (scope_bind_push X sid)" "touches (scope_bind_pop X sid)" "touches (scope_bind_string X sid flags)"
  "touches (scope_device_id sid obj ix id_type)" "touches (group_rank gid)" "touches (group_size gid)" "touches (group_barrier gid)"
  unfolding scope_bind_push_def scope_bind_pop_def scope_bind_string_def scope_device_id_def group_rank_def group_size_def group_barrier_def
  by (auto intro!: touches_intros split: group_kind.split prod.split)

lemma split_at_ok:
  "triple lib_ok (scope_split_at X sid obj color) (\<lambda>x. lib_ok)"
  "triple lib_ok (scope_thread_split_at X sid obj kcolors k) (\<lambda>x. lib_ok)"
  unfolding scope_split_at_def scope_thread_split_at_def
  by (rule triple_bind [OF triple_ok], rule touches_nobjects, rule scope_split_ok scope_thread_split_ok)+

lemma process_scope_ok:
  "triple lib_ok (sbind (qvi_group_process_new X flags) (\<lambda>zgroup. make_intrinsic X zgroup iscope flags)) (\<lambda>x. lib_ok)"
  by (rule triple_bind [OF process_group_holding make_intrinsic_ok])

lemma api_triples:
  "triple lib_ok (qv_process_scope X iscope flags out) (\<lambda>x. lib_ok)"
  "triple lib_ok (qv_bind_push X scope) (\<lambda>x. lib_ok)"
  "triple lib_ok (qv_bind_pop X scope) (\<lambda>x. lib_ok)"
  "triple lib_ok (qv_bind_string X scope flags out) (\<lambda>x. lib_ok)"
  "triple lib_ok (qv_hw_obj_count X scope obj out) (\<lambda>x. lib_ok)"
  "triple lib_ok (qv_group_rank scope out) (\<lambda>x. lib_ok)"
  "triple lib_ok (qv_group_size scope out) (\<lambda>x. lib_ok)"
  "triple lib_ok (qv_barrier scope) (\<lambda>x. lib_ok)"
  "triple lib_ok (qv_create_scope X scope obj nobjs out) (\<lambda>x. lib_ok)"
  "triple lib_ok (qv_split X scope npieces color out) (\<lambda>x. lib_ok)"
  "triple lib_ok (qv_split_at X scope obj color out) (\<lambda>x. lib_ok)"
  "triple lib_ok (qv_device_id scope obj ix id_type out) (\<lambda>x. lib_ok)"
  "triple lib_ok (qv_thread_split X scope npieces kcolors k out) (\<lambda>x. lib_ok)"
  "triple lib_ok (qv_thread_split_at X scope obj kcolors k out) (\<lambda>x. lib_ok)"
  unfolding qv_process_scope_def qvi_process_scope_get_def qv_bind_push_def qv_bind_pop_def qv_bind_string_def qv_hw_obj_count_def
    qv_group_rank_def qv_group_size_def qv_barrier_def qv_create_scope_def qv_split_def qv_split_at_def qv_device_id_def
    qv_thread_split_def qv_thread_split_at_def
  by (rule qv_api_ok, (rule process_scope_ok scope_create_ok scope_split_ok split_at_ok scope_thread_split_ok
        | rule triple_ok, intro touches_intros))+

lemma api_triples_free:
  "triple lib_ok (qv_free scope) (\<lambda>x. lib_ok)"
  "triple lib_ok (qv_thread_free nscopes scopes) (\<lambda>x. lib_ok)"
  unfolding qv_free_def qv_thread_free_def
  by (auto simp: triple_catch scope_delete_ok thread_destroy_ok triple_ok touches_pure split: option.split)

lemma reachable_ok: "lib_reachable S \<Longrightarrow> lib_ok S"
proof (induction rule: lib_reachable.induct)
  case (start S)
  then show ?case by (simp add: lib_inv_def)
next
  case (step S S')
  from step.hyps(2) step.IH show ?case
    by cases (auto intro: api_triples [THEN triple_step] api_triples_free [THEN triple_step] touched_inv touched_same)
qed

section \<open>Connected environments\<close>

text \<open>
  What a call needs to reach the server: the parts of the environment fit together, a daemon is running, and
  what is said during the connection can be sent. \<open>h\<close> is the client's topology, \<open>b\<close> the caller's binding.
\<close>

definition connectable :: "rmi_world scope_env \<Rightarrow> qvi_rmi_server \<Rightarrow> int \<Rightarrow> qvi_hwloc \<Rightarrow> bitmap \<Rightarrow> rmi_world \<Rightarrow> bool" where
  "connectable X srv flags h b w \<longleftrightarrow>
     env_ok (x_rmi X) \<and> x_sock X = server_socket (x_rmi X) srv \<and> io_works (x_io X) \<and> w_running w \<and>
     (\<exists>p. discover (x_getenv X) (x_fs1 X) (x_fs2 X) QVI_PORT_UNSET = Inr (QV_SUCCESS, p) \<and> p \<noteq> QVI_PORT_UNSET) \<and>
     client_topology (x_rmi X) (x_gpu X) srv flags (cl_hwloc (x_client0 X)) = Inr h \<and>
     (\<exists>h'. qvi_hwlocs_get (srv_hwlocs srv) (m_flags h) = Inr h') \<and>
     (\<forall>vs \<in> set (connection_messages (x_rmi X) srv flags (x_tid X) h b). sendable (x_rmi X) vs) \<and>
     w_binds w (x_tid X) = Some b"

lemma connect_task_ok:
  assumes "connectable X srv flags h b (l_world S)"
  shows "\<exists>t. connect_task X flags S = (Inr t, S) \<and> cl_hwloc (m_rmi t) = h \<and> m_stack t = [b]"
proof -
  obtain p h' where "discover (x_getenv X) (x_fs1 X) (x_fs2 X) QVI_PORT_UNSET = Inr (QV_SUCCESS, p)" "p \<noteq> QVI_PORT_UNSET"
    "qvi_hwlocs_get (srv_hwlocs srv) (m_flags h) = Inr h'"
    using assms by (auto simp: connectable_def)
  from connect_to_server_ok [OF _ _ _ this(1,2) _ this(3), of "x_rmi X" "l_world S" "x_io X" "x_gpu X" flags
      "\<lparr>m_rmi = x_client0 X, m_stack = []\<rparr>" "x_tid X" b] assms
  show ?thesis by (auto simp: connectable_def connect_task_def on_world_def throw_rc_def)
qed

lemma connect_tasks_ok:
  assumes "connectable X srv flags h b (l_world S)"
  shows "\<exists>ts. connect_tasks X flags n S = (Inr ts, S) \<and> length ts = n \<and> (\<forall>t \<in> set ts. cl_hwloc (m_rmi t) = h \<and> m_stack t = [b])"
proof (induction n)
  case 0
  then show ?case by (simp add: sret_def)
next
  case (Suc n)
  obtain t where "connect_task X flags S = (Inr t, S)" "cl_hwloc (m_rmi t) = h" "m_stack t = [b]"
    using connect_task_ok [OF assms] by blast
  with Suc show ?case by (auto simp: sbind_def sret_def)
qed

text \<open>What the loop over the children of a thread split leaves behind.\<close>

lemma thread_children_run:
  assumes "l_groups S gid = Some g" "\<forall>i. x_mem X i" "\<forall>i \<in> set is. i < length pools"
  shows "\<exists>S'. thread_children X gid pools is children S = (Inr (children @ [l_next S..<l_next S + length is]), S') \<and>
    l_groups S' = (l_groups S)(gid := Some (g\<lparr>g_refc := g_refc g + int (length is)\<rparr>)) \<and> l_world S' = l_world S \<and>
    (\<forall>sid. l_scopes S' sid =
       (if l_next S \<le> sid \<and> sid < l_next S + length is
        then Some \<lparr>s_group = gid, s_hwpool = pools ! (is ! (sid - l_next S))\<rparr> else l_scopes S sid))"
  using assms
proof (induction "is" arbitrary: S g children)
  case Nil
  then show ?case by (auto simp: sret_def fun_upd_idem)
next
  case (Cons i js)
  define S2 where "S2 = put_group gid (g\<lparr>g_refc := retain (g_refc g)\<rparr>)
     (S\<lparr>l_scopes := (l_scopes S)(l_next S := Some \<lparr>s_group = gid, s_hwpool = pools ! i\<rparr>), l_next := Suc (l_next S)\<rparr>)"
  have S2: "l_next S2 = Suc (l_next S)" "l_groups S2 = (l_groups S)(gid := Some (g\<lparr>g_refc := g_refc g + 1\<rparr>))" "l_world S2 = l_world S"
    "l_scopes S2 = (l_scopes S)(l_next S := Some \<lparr>s_group = gid, s_hwpool = pools ! i\<rparr>)"
    by (simp_all add: S2_def put_group_def retain_def)
  have run: "thread_children X gid pools (i # js) children S = thread_children X gid pools js (children @ [l_next S]) S2"
    using Cons.prems by (simp add: sbind_def sres_def vec_ix_def qv_scope_new_def group_retain_def group_at_def S2_def)
  have g2: "l_groups S2 gid = Some (g\<lparr>g_refc := g_refc g + 1\<rparr>)" by (simp add: S2)
  from Cons.IH [OF g2 Cons.prems(2), of "children @ [l_next S]"] Cons.prems(3) obtain S' where S':
    "thread_children X gid pools js (children @ [l_next S]) S2 = (Inr ((children @ [l_next S]) @ [l_next S2..<l_next S2 + length js]), S')"
    "l_groups S' = (l_groups S2)(gid := Some (g\<lparr>g_refc := g_refc g + 1 + int (length js)\<rparr>))" "l_world S' = l_world S2"
    "\<forall>sid. l_scopes S' sid = (if l_next S2 \<le> sid \<and> sid < l_next S2 + length js
        then Some \<lparr>s_group = gid, s_hwpool = pools ! (js ! (sid - l_next S2))\<rparr> else l_scopes S2 sid)"
    by (auto simp: fun_upd_def)
  have "l_scopes S' sid = (if l_next S \<le> sid \<and> sid < l_next S + length (i # js)
        then Some \<lparr>s_group = gid, s_hwpool = pools ! ((i # js) ! (sid - l_next S))\<rparr> else l_scopes S sid)" for sid
    using S'(4) by (cases "sid = l_next S") (auto simp: S2 nth_Cons' Suc_le_eq)
  moreover have "(children @ [l_next S]) @ [l_next S2..<l_next S2 + length js] =
     children @ [l_next S..<l_next S + length (i # js)]" by (simp add: S2 upt_conv_Cons del: upt_Suc)
  moreover have "l_groups S' = (l_groups S)(gid := Some (g\<lparr>g_refc := g_refc g + int (length (i # js))\<rparr>))"
    using S'(2) by (simp add: S2 algebra_simps)
  ultimately show ?case using S'(1,3) run S2(3) by (simp add: fun_upd_def)
qed

lemma process_scope_result:
  assumes "connectable X srv flags h b (l_world S)" "x_mem X 0"
    and "intrinsic_hwpool (e_lib (x_rmi X)) srv (m_flags h) [x_pid X] iscope (w_binds (l_world S)) = Inr p"
    and "sendable (x_rmi X) [Vflags (m_flags h), Vpids [x_pid X], Viscope iscope, Vflags flags]"
    and "sendable (x_rmi X) [Vrc QV_SUCCESS, Vpool p]"
  shows "\<exists>t. cl_hwloc (m_rmi t) = h \<and> m_stack t = [b] \<and>
    qv_process_scope X iscope flags True S = (Inr (Suc (l_next S)),
      S\<lparr>l_scopes := (l_scopes S)(Suc (l_next S) := Some \<lparr>s_group = l_next S, s_hwpool = p\<rparr>), l_next := Suc (Suc (l_next S)),
        l_groups := (l_groups S)(l_next S := Some \<lparr>g_refc = 1, g_flags = flags, g_kind = Gprocess, g_tasks = [t]\<rparr>)\<rparr>)"
proof -
  obtain t where t: "connect_task X flags S = (Inr t, S)" "cl_hwloc (m_rmi t) = h" "m_stack t = [b]"
    using connect_task_ok [OF assms(1)] by blast
  have "client_get_intrinsic_hwpool (x_rmi X) (x_sock X) (m_rmi t) [x_pid X] iscope flags (l_world S) = (Inr p, l_world S)"
    using client_get_intrinsic_hwpool_eq [of "x_rmi X" "l_world S" "m_rmi t" "[x_pid X]" iscope flags srv p] assms t(2)
    by (simp add: connectable_def)
  then show ?thesis
    using t assms(2)
    by (intro exI [of _ t])
      (simp add: qv_process_scope_def qvi_process_scope_get_def qv_api_def scatch_def sbind_def qvi_group_process_new_def alloc_group_def make_intrinsic_def
        group_make_intrinsic_def group_at_def put_group_def sret_def sres_def group_task_def group_task_index_def vec_at_def
        on_world_def qv_scope_new_def refc_new_def)
qed

text \<open>The binding calls on a scope of a process group act on its only task.\<close>

lemma bind_calls_process:
  assumes "l_scopes S sid = Some s" "l_groups S (s_group s) = Some g" "g_kind g = Gprocess" "g_tasks g = [t]"
  shows "qv_bind_push X (Some sid) S =
     (case bind_push (task_setb X t) (x_tid X) (hwpool_cpuset (s_hwpool s)) t (l_world S) of (r, t', w) \<Rightarrow>
        (qvi_catch_and_return r, put_group (s_group s) (g\<lparr>g_tasks := [t']\<rparr>) (S\<lparr>l_world := w\<rparr>)))"
    and "qv_bind_pop X (Some sid) S =
     (case bind_pop (task_setb X t) (x_tid X) t (l_world S) of (r, t', w) \<Rightarrow>
        (qvi_catch_and_return r, put_group (s_group s) (g\<lparr>g_tasks := [t']\<rparr>) (S\<lparr>l_world := w\<rparr>)))"
  using assms by (simp_all add: qv_bind_push_def qv_bind_pop_def qv_api_def scatch_def scope_bind_push_def scope_bind_pop_def sbind_def
      scope_at_def on_task_def group_task_def group_task_index_def group_at_def sret_def sres_def vec_at_def split: prod.split)

section \<open>Properties\<close>

text \<open>C5: Whatever sequence of calls a process makes, in every state it can reach no scope refers to a deleted
  group, the reference count of a group is exactly the number of scopes that share it, and a group keeps one
  task per member. A group without a scope (left behind by a failed call) keeps its initial count.\<close>

theorem reachable_refcounts:
  assumes "lib_reachable S"
  shows "(\<forall>sid s. l_scopes S sid = Some s \<longrightarrow>
      (\<exists>g. l_groups S (s_group s) = Some g \<and> g_refc g = int (card (refs S (s_group s))) \<and> group_shape g)) \<and>
    (\<forall>gid g. l_groups S gid = Some g \<and> refs S gid = {} \<longrightarrow> g_refc g = 1)"
proof (intro conjI allI impI)
  note ok = reachable_ok [OF assms]
  fix sid s assume s: "l_scopes S sid = Some s"
  then obtain g where g: "l_groups S (s_group s) = Some g" using lib_inv_scope [OF ok] by blast
  then show "\<exists>g. l_groups S (s_group s) = Some g \<and> g_refc g = int (card (refs S (s_group s))) \<and> group_shape g"
    using scope_delete_effect(2) [OF ok s g] lib_inv_group [OF ok g] by blast
next
  note ok = reachable_ok [OF assms]
  fix gid g assume "l_groups S gid = Some g \<and> refs S gid = {}"
  then show "g_refc g = 1" using lib_inv_group [OF ok, of gid g] by simp
qed

text \<open>Freeing a scope in a reachable state succeeds, removes just that scope, and deletes its group exactly
  when no other scope shares it.\<close>

theorem free_deletes_unshared_group:
  assumes "lib_reachable S" "l_scopes S sid = Some s"
  shows "\<exists>S'. qv_free (Some sid) S = (Inr (), S') \<and> l_scopes S' = (l_scopes S)(sid := None) \<and>
    (l_groups S' (s_group s) = None \<longleftrightarrow> (\<forall>sid' s'. l_scopes S sid' = Some s' \<and> s_group s' = s_group s \<longrightarrow> sid' = sid)) \<and>
    (\<forall>gid. gid \<noteq> s_group s \<longrightarrow> l_groups S' gid = l_groups S gid)"
proof -
  note ok = reachable_ok [OF assms(1)]
  obtain g where g: "l_groups S (s_group s) = Some g" using lib_inv_scope [OF ok assms(2)] by blast
  have "refs S (s_group s) = {sid} \<longleftrightarrow> (\<forall>sid' s'. l_scopes S sid' = Some s' \<and> s_group s' = s_group s \<longrightarrow> sid' = sid)"
    using assms(2) by (auto simp: refs_def)
  then show ?thesis
    using scope_delete_effect(1) [OF ok assms(2) g]
    by (auto simp: qv_free_def scatch_def delete_group_def put_group_def)
qed

text \<open>C16: A process that can reach the server gets its intrinsic scope: the new scope holds the pool that the
  server computed, its own process group with a single reference, and a task that remembers the binding.\<close>

theorem process_scope_created:
  assumes "connectable X srv flags h b (l_world S)" "x_mem X 0"
    and "intrinsic_hwpool (e_lib (x_rmi X)) srv (m_flags h) [x_pid X] iscope (w_binds (l_world S)) = Inr p"
    and "sendable (x_rmi X) [Vflags (m_flags h), Vpids [x_pid X], Viscope iscope, Vflags flags]"
    and "sendable (x_rmi X) [Vrc QV_SUCCESS, Vpool p]"
  shows "\<exists>sid gid g t S'. qv_process_scope X iscope flags True S = (Inr sid, S') \<and>
    l_scopes S' = (l_scopes S)(sid := Some \<lparr>s_group = gid, s_hwpool = p\<rparr>) \<and> l_groups S' = (l_groups S)(gid := Some g) \<and>
    g_refc g = 1 \<and> g_kind g = Gprocess \<and> g_tasks g = [t] \<and> bind_top t = Inr b \<and> l_world S' = l_world S"
  using process_scope_result [OF assms] by (fastforce simp: bind_top_def)



section \<open>A concrete process\<close>

definition demo_tab :: "rpc_val list list" where
  "demo_tab =
     [[Vsize 1, Vflags 1, Vpid 42], [Vrc QV_SUCCESS, Vstr []], [Vflags 1, Vpid 42], [Vrc QV_SUCCESS, Vbitmap {0, 2, 3}],
      [Vflags 1, Vpids [42], Viscope QV_SCOPE_USER, Vflags 0], [Vrc QV_SUCCESS, Vpool (qvi_hwpool_new {0..<4})],
      [Vflags 1, Vpid 42, Vbitmap {0..<4}], [Vflags 1, Vpid 42, Vbitmap {0, 2, 3}], [Vrc QV_SUCCESS], [Vrc QV_ERR_NOT_SUPPORTED],
      [Vflags 1, Vpids [42, 43], Viscope QV_SCOPE_USER, Vflags 0]]"

definition demo_X :: "rmi_world scope_env" where
  "demo_X =
     \<lparr>x_rmi = demo_rmi_env demo_tab, x_gpu = False, x_io = demo_io, x_getenv = (\<lambda>s. None), x_fs1 = demo_proc, x_fs2 = demo_proc,
      x_sock = server_socket (demo_rmi_env demo_tab) demo_server, x_client0 = demo_client, x_pid = 42, x_tid = 42, x_mem = (\<lambda>i. True)\<rparr>"

definition demo_S :: "rmi_world qv_lib" where
  "demo_S = \<lparr>l_groups = (\<lambda>gid. None), l_scopes = (\<lambda>sid. None), l_next = 0, l_next_index = 0, l_world = demo_world\<rparr>"

lemma demo_sendable: "vs \<in> set demo_tab \<Longrightarrow> sendable (demo_rmi_env demo_tab) vs"
  using sendable_demo [of vs demo_tab] by (simp add: demo_tab_def)

lemma demo_connectable: "connectable demo_X demo_server 0 (demo_hwloc 4) {0, 2, 3} demo_world"
proof -
  have "\<forall>vs \<in> set (connection_messages (demo_rmi_env demo_tab) demo_server 0 42 (demo_hwloc 4) {0, 2, 3}). sendable (demo_rmi_env demo_tab) vs"
    unfolding demo_connection_messages by (auto intro!: demo_sendable simp del: demo_rmi_env_simps) (simp_all add: demo_tab_def)
  moreover have "discover (\<lambda>s. None) demo_proc demo_proc QVI_PORT_UNSET = Inr (QV_SUCCESS, 7)"
    by (rule discover_at_once) simp_all
  ultimately show ?thesis
    using demo_client_topology [of demo_tab] demo_task_facts by (auto simp: connectable_def demo_X_def)
qed

lemma demo_laws: "bitmap_laws (e_lib (demo_rmi_env tab))"
  by (simp add: demo_rmi_env_def demo_env_def demo_lib_def bitmap_laws_def)

lemma demo_intrinsic:
  "intrinsic_hwpool (e_lib (demo_rmi_env tab)) demo_server 1 who QV_SCOPE_USER binds = Inr (qvi_hwpool_new {0..<4})"
  by (simp add: intrinsic_hwpool_def iscope_bitmap_def m_get_iscope_bitmap_user_def topology_get_cpuset_def populate_def
      m_add_devices_with_affinity_def get_devices_included_in_cpuset_eq cget_dev_list_def demo_hwloc_def demo_topology_def Let_def
      qvi_hwpool_new_def supported_devices_def)

text \<open>The state after the process has obtained its user scope.\<close>

lemma demo_process_scope:
  "\<exists>t. cl_hwloc (m_rmi t) = demo_hwloc 4 \<and> m_stack t = [{0, 2, 3}] \<and>
    qv_process_scope demo_X QV_SCOPE_USER 0 True demo_S = (Inr 1,
      demo_S\<lparr>l_scopes := (\<lambda>sid. None)(1 := Some \<lparr>s_group = 0, s_hwpool = qvi_hwpool_new {0..<4}\<rparr>), l_next := 2,
        l_groups := (\<lambda>gid. None)(0 := Some \<lparr>g_refc = 1, g_flags = 0, g_kind = Gprocess, g_tasks = [t]\<rparr>)\<rparr>)"
proof -
  have S: "l_world demo_S = demo_world" "l_next demo_S = 0" "l_scopes demo_S = (\<lambda>sid. None)" "l_groups demo_S = (\<lambda>gid. None)"
    by (simp_all add: demo_S_def)
  have "sendable (demo_rmi_env demo_tab) [Vflags 1, Vpids [42], Viscope QV_SCOPE_USER, Vflags 0]"
    "sendable (demo_rmi_env demo_tab) [Vrc QV_SUCCESS, Vpool (qvi_hwpool_new {0..<4})]"
    by (rule demo_sendable; simp add: demo_tab_def)+
  with process_scope_result [of demo_X demo_server 0 "demo_hwloc 4" "{0, 2, 3}" demo_S QV_SCOPE_USER "qvi_hwpool_new {0..<4}"]
    demo_connectable demo_intrinsic demo_task_facts(3)
  show ?thesis by (simp add: S numeral_2_eq_2 del: demo_rmi_env_simps) (simp add: demo_X_def)
qed

lemma demo_reachable:
  "\<exists>S t. lib_reachable S \<and> l_world S = demo_world \<and> l_scopes S = (\<lambda>sid. None)(1 := Some \<lparr>s_group = 0, s_hwpool = qvi_hwpool_new {0..<4}\<rparr>) \<and>
    l_groups S = (\<lambda>gid. None)(0 := Some \<lparr>g_refc = 1, g_flags = 0, g_kind = Gprocess, g_tasks = [t]\<rparr>) \<and>
    cl_hwloc (m_rmi t) = demo_hwloc 4 \<and> m_stack t = [{0, 2, 3}]"
proof -
  have start: "lib_reachable demo_S" by (rule lib_reachable.start) (simp_all add: demo_S_def)
  obtain t where t: "cl_hwloc (m_rmi t) = demo_hwloc 4" "m_stack t = [{0, 2, 3}]"
    and run: "qv_process_scope demo_X QV_SCOPE_USER 0 True demo_S = (Inr 1,
      demo_S\<lparr>l_scopes := (\<lambda>sid. None)(1 := Some \<lparr>s_group = 0, s_hwpool = qvi_hwpool_new {0..<4}\<rparr>), l_next := 2,
        l_groups := (\<lambda>gid. None)(0 := Some \<lparr>g_refc = 1, g_flags = 0, g_kind = Gprocess, g_tasks = [t]\<rparr>)\<rparr>)"
    using demo_process_scope by blast
  have r: "lib_reachable (demo_S\<lparr>l_scopes := (\<lambda>sid. None)(1 := Some \<lparr>s_group = 0, s_hwpool = qvi_hwpool_new {0..<4}\<rparr>), l_next := 2,
        l_groups := (\<lambda>gid. None)(0 := Some \<lparr>g_refc = 1, g_flags = 0, g_kind = Gprocess, g_tasks = [t]\<rparr>)\<rparr>)"
    by (rule lib_reachable.step [OF start lib_step.process_scope [OF run]]) (simp add: survives_def)
  have "l_world demo_S = demo_world" by (simp add: demo_S_def)
  with r t show ?thesis by (intro exI conjI) (rule r, simp_all)
qed

theorem reachable_refcounts_witness:
  "\<exists>(S :: rmi_world qv_lib) s g. lib_reachable S \<and> l_scopes S 1 = Some s \<and> l_groups S (s_group s) = Some g \<and>
    g_refc g = int (card (refs S (s_group s))) \<and> group_shape g"
proof -
  obtain S :: "rmi_world qv_lib" where "lib_reachable S" "l_scopes S 1 = Some \<lparr>s_group = 0, s_hwpool = qvi_hwpool_new {0..<4}\<rparr>"
    using demo_reachable by fastforce
  with reachable_refcounts [of S] show ?thesis by blast
qed

theorem free_deletes_unshared_group_witness:
  "\<exists>(S :: rmi_world qv_lib) S'. lib_reachable S \<and> qv_free (Some 1) S = (Inr (), S') \<and> l_scopes S 1 \<noteq> None \<and> l_scopes S' 1 = None \<and> l_groups S' 0 = None"
proof -
  obtain S :: "rmi_world qv_lib" where S: "lib_reachable S" "l_scopes S = (\<lambda>sid. None)(1 := Some \<lparr>s_group = 0, s_hwpool = qvi_hwpool_new {0..<4}\<rparr>)"
    using demo_reachable by blast
  with free_deletes_unshared_group [of S 1 "\<lparr>s_group = 0, s_hwpool = qvi_hwpool_new {0..<4}\<rparr>"] show ?thesis
    by (auto split: if_splits)
qed

theorem process_scope_created_witness:
  "\<exists>sid S'. qv_process_scope demo_X QV_SCOPE_USER 0 True demo_S = (Inr sid, S') \<and> l_scopes S' sid \<noteq> None \<and> l_world S' = demo_world"
proof -
  have "sendable (demo_rmi_env demo_tab) [Vflags 1, Vpids [42], Viscope QV_SCOPE_USER, Vflags 0]"
    "sendable (demo_rmi_env demo_tab) [Vrc QV_SUCCESS, Vpool (qvi_hwpool_new {0..<4})]"
    by (rule demo_sendable; simp add: demo_tab_def)+
  then have "\<exists>sid gid g t S'. qv_process_scope demo_X QV_SCOPE_USER 0 True demo_S = (Inr sid, S') \<and>
      l_scopes S' = (l_scopes demo_S)(sid := Some \<lparr>s_group = gid, s_hwpool = qvi_hwpool_new {0..<4}\<rparr>) \<and>
      l_groups S' = (l_groups demo_S)(gid := Some g) \<and> g_refc g = 1 \<and> g_kind g = Gprocess \<and> g_tasks g = [t] \<and>
      bind_top t = Inr {0, 2, 3} \<and> l_world S' = l_world demo_S"
    using demo_connectable demo_intrinsic demo_task_facts(3)
    by (intro process_scope_created [of demo_X demo_server 0 "demo_hwloc 4"]) (simp_all add: demo_S_def demo_X_def del: demo_rmi_env_simps)
  then show ?thesis by (auto simp: demo_S_def)
qed



end
