(* ===== verification/QV_Daemon.thy ===== *)
theory QV_Daemon
  imports QV_Task
begin

text \<open>
  The daemon \<^verbatim>\<open>quo-vadisd\<close> (\<^verbatim>\<open>quo-vadisd.cc\<close>): parsing its arguments, becoming a
  background process, setting up its session directory and the RMI server, serving, and cleaning up.
  \<^verbatim>\<open>qvi_panic_log_error\<close> ends the process with a failure, which is \<open>Abort\<close> here.
\<close>

section \<open>State and environment\<close>

record qvid =
  rmic :: qvi_rmi_config
  rmi_server :: qvi_rmi_server
  session_dir :: string
  created_session_dir :: bool
  daemonized :: bool

text \<open>
  What the operating system answers: the environment, the limit on open files (\<open>None\<close>: the query fails;
  \<open>Some None\<close>: there is no limit), whether the calls succeed, and for a path whether it is readable and
  writable, can be created, or can be removed.
\<close>

record daemon_io =
  d_getenv :: getenv
  d_rlimit :: "nat option option"
  d_fork_works :: bool
  d_setsid_works :: bool
  d_access :: "string \<Rightarrow> bool"
  d_mkdir :: "string \<Rightarrow> bool"
  d_rmall :: "string \<Rightarrow> bool"
  d_pid :: int
  d_export :: "int \<Rightarrow> export_io"
  d_bind :: "string \<Rightarrow> bool"
  d_linger :: bool

text \<open>What \<^verbatim>\<open>getopt_long_only\<close> returns, option by option.\<close>

datatype getopt_result = Got_help | Got_version | Got_no_daemonize | Got_port string | Got_other

section \<open>Arguments\<close>

definition valid_portno :: "int \<Rightarrow> bool" where
  "valid_portno port \<longleftrightarrow> \<not> (port \<le> 0 \<or> port > 2 ^ 16 - 1)"

text \<open>The loop over the options; a code ends it.\<close>

fun parse_opts :: "getopt_result list \<Rightarrow> qvid \<Rightarrow> (qv_rc option \<times> qvid) res" where
  "parse_opts [] qvd = Inr (None, qvd)"
| "parse_opts (Got_help # opts) qvd = Inr (Some QV_SUCCESS_SHUTDOWN, qvd)"
| "parse_opts (Got_version # opts) qvd = Inr (Some QV_SUCCESS_SHUTDOWN, qvd)"
| "parse_opts (Got_no_daemonize # opts) qvd = parse_opts opts (qvd\<lparr>daemonized := False\<rparr>)"
| "parse_opts (Got_port optarg # opts) qvd =
     rbind (qvi_stoi optarg) (\<lambda>port.
       let qvd = qvd\<lparr>rmic := (rmic qvd)\<lparr>portno := port\<rparr>\<rparr>
       in if \<not> valid_portno port then Inr (Some QV_ERR_INVLD_ARG, qvd) else parse_opts opts qvd)"
| "parse_opts (Got_other # opts) qvd = Inr (Some QV_ERR_INVLD_ARG, qvd)"

definition parse_args :: "(string list \<Rightarrow> getopt_result list \<times> nat) \<Rightarrow> string list \<Rightarrow> qvid \<Rightarrow> (qv_rc \<times> qvid) res" where
  "parse_args getopt argv qvd =
     (case getopt argv of (opts, optind) \<Rightarrow>
        rbind (parse_opts opts qvd) (\<lambda>(rc, qvd).
          case rc of
            Some rc \<Rightarrow> Inr (rc, qvd)
          | None \<Rightarrow> Inr (if optind < length argv then QV_ERR_INVLD_ARG else QV_SUCCESS, qvd)))"

section \<open>Steps\<close>

text \<open>The number of descriptors that are closed.\<close>

definition closefds :: "daemon_io \<Rightarrow> nat res" where
  "closefds io = (case d_rlimit io of None \<Rightarrow> Inl Abort | Some lim \<Rightarrow> Inr (case lim of None \<Rightarrow> 1024 | Some maxfd \<Rightarrow> maxfd))"

text \<open>The parent exits; the model follows the child.\<close>

definition become_session_leader :: "daemon_io \<Rightarrow> unit res" where
  "become_session_leader io = (if \<not> d_fork_works io then Inl Abort else if \<not> d_setsid_works io then Inl Abort else Inr ())"

definition set_personality :: "daemon_io \<Rightarrow> qvid \<Rightarrow> unit res" where
  "set_personality io qvd =
     (if daemonized qvd then rbind (become_session_leader io) (\<lambda>u. rbind (closefds io) (\<lambda>n. Inr ())) else Inr ())"

definition determine_connection_info :: "daemon_io \<Rightarrow> qvid \<Rightarrow> qvid res" where
  "determine_connection_info io qvd =
     (case qvi_rmi_get_url (d_getenv io) (portno (rmic qvd)) of
        Inl (Rc c) \<Rightarrow> Inl Abort
      | Inl f \<Rightarrow> Inl f
      | Inr (curl, port) \<Rightarrow> Inr (qvd\<lparr>rmic := \<lparr>url = curl, portno = port\<rparr>\<rparr>))"

definition session_dirname :: "daemon_io \<Rightarrow> qvid \<Rightarrow> string" where
  "session_dirname io qvd = qvi_tmpdir (d_getenv io) @ ''/'' @ QVI_DAEMON_NAME @ ''.'' @ std_to_string (portno (rmic qvd))"

definition make_session_dir :: "daemon_io \<Rightarrow> qvid \<Rightarrow> qvid res" where
  "make_session_dir io qvd =
     (if \<not> d_access io (qvi_tmpdir (d_getenv io)) then Inl Abort
      else let full_session_dir = session_dirname io qvd
           in if d_access io full_session_dir then Inr (qvd\<lparr>session_dir := full_session_dir\<rparr>)
              else if \<not> d_mkdir io full_session_dir then Inl Abort
              else Inr (qvd\<lparr>created_session_dir := True, session_dir := full_session_dir\<rparr>))"

definition export_hwtopo :: "daemon_io \<Rightarrow> qvid \<Rightarrow> qvid res" where
  "export_hwtopo io qvd =
     rbind (server_topology_export (d_pid io) (d_export io) (session_dir qvd) (rmi_server qvd)) (\<lambda>(rc, srv).
       if rc \<noteq> QV_SUCCESS then Inl Abort else Inr (qvd\<lparr>rmi_server := srv\<rparr>))"

definition configure_rmi :: "qvid \<Rightarrow> qvid" where
  "configure_rmi qvd = qvd\<lparr>rmi_server := configure (rmic qvd) (rmi_server qvd)\<rparr>"

text \<open>The directories that the daemon removes at the end; a failure is only logged.\<close>

definition cleanup :: "daemon_io \<Rightarrow> qvid \<Rightarrow> string list" where
  "cleanup io qvd = (if created_session_dir qvd \<and> d_rmall io (session_dir qvd) then [session_dir qvd] else [])"

section \<open>The whole program\<close>

definition qvid_new :: "bool \<Rightarrow> hwloc_lib \<Rightarrow> bool \<Rightarrow> qvi_hwloc \<Rightarrow> qvid res" where
  "qvid_new gpu_support L zctx_works hwloc0 =
     rbind (qvi_rmi_server_new gpu_support L zctx_works hwloc0) (\<lambda>srv.
       Inr \<lparr>rmic = \<lparr>url = [], portno = QVI_PORT_UNSET\<rparr>, rmi_server = srv, session_dir = [], created_session_dir = False,
            daemonized = True\<rparr>)"

text \<open>Everything before the server starts to listen: an early return code, or a daemon that is ready to serve.\<close>

definition daemon_setup ::
  "daemon_io \<Rightarrow> (string list \<Rightarrow> getopt_result list \<times> nat) \<Rightarrow> string list \<Rightarrow> qvid \<Rightarrow> (qv_rc + qvid) res" where
  "daemon_setup io getopt argv qvd =
     rbind (parse_args getopt argv qvd) (\<lambda>(rc, qvd).
       if rc \<noteq> QV_SUCCESS then Inr (Inl (if rc = QV_SUCCESS_SHUTDOWN then QV_SUCCESS else rc))
       else rbind (set_personality io qvd) (\<lambda>u.
            rbind (determine_connection_info io qvd) (\<lambda>qvd.
            rbind (make_session_dir io qvd) (\<lambda>qvd.
            rbind (export_hwtopo io qvd) (\<lambda>qvd. Inr (Inr (configure_rmi qvd)))))))"

text \<open>Serving until a shutdown; an error of the server ends the process.\<close>

definition start_rmi_server ::
  "rmi_env \<Rightarrow> daemon_io \<Rightarrow> (byte list \<Rightarrow> int) \<Rightarrow> qvid \<Rightarrow> poll_event list \<Rightarrow> cpubinds \<Rightarrow> unit res option \<times> byte list list \<times> cpubinds" where
  "start_rmi_server E io zsend qvd evs w =
     (case server_start E zsend (d_bind io) (d_linger io) (rmi_server qvd) evs w of
        (Some (Inl (Rc c)), sent, w') \<Rightarrow> (Some (Inl Abort), sent, w')
      | r \<Rightarrow> r)"

text \<open>The end of the daemon's object: its server's topologies are destroyed.\<close>

definition qvid_delete :: "qvid \<Rightarrow> string list" where
  "qvid_delete qvd = qvi_hwlocs_delete (srv_hwlocs (rmi_server qvd))"

text \<open>
  The exit code (\<open>None\<close>: still serving), the replies sent, the bindings of the tasks, and the removed directories.
\<close>

definition daemon_start ::
  "rmi_env \<Rightarrow> bool \<Rightarrow> bool \<Rightarrow> qvi_hwloc \<Rightarrow> daemon_io \<Rightarrow> (string list \<Rightarrow> getopt_result list \<times> nat) \<Rightarrow> (byte list \<Rightarrow> int) \<Rightarrow>
   string list \<Rightarrow> poll_event list \<Rightarrow> cpubinds \<Rightarrow> qv_rc res option \<times> byte list list \<times> cpubinds \<times> string list" where
  "daemon_start E gpu_support zctx_works hwloc0 io getopt zsend argv evs w =
     (case rbind (qvid_new gpu_support (e_lib E) zctx_works hwloc0) (daemon_setup io getopt argv) of
        Inl f \<Rightarrow> (Some (qvi_catch_and_return (Inl f)), [], w, [])
      | Inr (Inl rc) \<Rightarrow> (Some (Inr rc), [], w, [])
      | Inr (Inr qvd) \<Rightarrow>
          (case start_rmi_server E io zsend qvd evs w of
             (None, sent, w') \<Rightarrow> (None, sent, w', [])
           | (Some (Inl f), sent, w') \<Rightarrow> (Some (qvi_catch_and_return (Inl f)), sent, w', [])
           | (Some (Inr u), sent, w') \<Rightarrow> (Some (Inr QV_SUCCESS), sent, w', cleanup io qvd)))"

text \<open>The exit status of the process; \<open>None\<close> while it runs, and aborting gives failure.\<close>

definition EXIT_SUCCESS :: int where
  "EXIT_SUCCESS = 0"

definition EXIT_FAILURE :: int where
  "EXIT_FAILURE = 1"

definition daemon_main :: "qv_rc res option \<Rightarrow> int option" where
  "daemon_main rc = map_option (\<lambda>r. if r = Inr QV_SUCCESS then EXIT_SUCCESS else EXIT_FAILURE) rc"

section \<open>Lemmas\<close>

definition export_works :: "export_io \<Rightarrow> bool" where
  "export_works io \<longleftrightarrow> dir_usable io \<and> open_works io \<and> fchmod_works io \<and>
     (\<exists>n. xml_length io = Some n \<and> bytes_written io = int n)"

lemma topology_export_works:
  "export_works io \<Longrightarrow> topology_export pid io base h = (QV_SUCCESS, h\<lparr>m_topo_file := topo_fname pid base (m_flags h)\<rparr>)"
  by (auto simp: export_works_def topology_export_def s_topo_fopen_def Let_def)

lemma server_topology_export_works:
  assumes "\<And>t. export_works (io t)" "\<forall>t \<in> set topo_types. \<exists>h. qvi_hwlocs_get (srv_hwlocs srv) t = Inr h"
  shows "\<exists>srv'. server_topology_export pid io base srv = Inr (QV_SUCCESS, srv') \<and> srv_config srv' = srv_config srv \<and>
    (\<forall>t \<in> set topo_types. \<exists>h. qvi_hwlocs_get (srv_hwlocs srv) t = Inr h \<and>
       qvi_hwlocs_get (srv_hwlocs srv') t = Inr (h\<lparr>m_topo_file := topo_fname pid base (m_flags h)\<rparr>))"
proof -
  let ?f = "QVI_HWLOC_FLAG_TOPO_FULL" and ?n = "QVI_HWLOC_FLAG_TOPO_NO_SMT"
  obtain hf hn where h: "qvi_hwlocs_get (srv_hwlocs srv) ?f = Inr hf" "qvi_hwlocs_get (srv_hwlocs srv) ?n = Inr hn"
    using assms(2) by (auto simp: topo_types_def)
  have keys: "and ?f QVI_HWLOC_TOPO_MASK \<noteq> and ?n QVI_HWLOC_TOPO_MASK"
    by (simp add: QVI_HWLOC_FLAG_TOPO_FULL_def QVI_HWLOC_FLAG_TOPO_NO_SMT_def QVI_HWLOC_TOPO_MASK_def)
  show ?thesis
    using h keys
    by (simp add: server_topology_export_def topo_types_def topology_export_works [OF assms(1)] qvi_hwlocs_get_def split: option.splits)
qed

lemma make_session_dir_created:
  "make_session_dir io qvd = Inr qvd' \<Longrightarrow> created_session_dir qvd' \<Longrightarrow> \<not> created_session_dir qvd \<Longrightarrow>
     \<not> d_access io (session_dir qvd') \<and> d_mkdir io (session_dir qvd')"
  by (auto simp: make_session_dir_def Let_def split: if_splits)

lemma setup_keeps_marks:
  "parse_opts opts qvd = Inr (rc, qvd') \<Longrightarrow> created_session_dir qvd' = created_session_dir qvd"
  "parse_args getopt argv qvd = Inr (rc', qvd') \<Longrightarrow> created_session_dir qvd' = created_session_dir qvd"
  "determine_connection_info io qvd = Inr qvd' \<Longrightarrow> created_session_dir qvd' = created_session_dir qvd"
  "export_hwtopo io qvd = Inr qvd' \<Longrightarrow> created_session_dir qvd' = created_session_dir qvd \<and> session_dir qvd' = session_dir qvd"
proof -
  show opts: "parse_opts opts qvd = Inr (rc, qvd') \<Longrightarrow> created_session_dir qvd' = created_session_dir qvd" for opts qvd rc
    by (induction opts qvd rule: parse_opts.induct) (auto simp: rbind_Inr_iff Let_def split: if_splits)
  show "parse_args getopt argv qvd = Inr (rc', qvd') \<Longrightarrow> created_session_dir qvd' = created_session_dir qvd"
    by (auto simp: parse_args_def rbind_Inr_iff dest!: opts split: prod.splits option.splits)
  show "determine_connection_info io qvd = Inr qvd' \<Longrightarrow> created_session_dir qvd' = created_session_dir qvd"
    by (auto simp: determine_connection_info_def split: sum.splits fail.splits prod.splits)
  show "export_hwtopo io qvd = Inr qvd' \<Longrightarrow> created_session_dir qvd' = created_session_dir qvd \<and> session_dir qvd' = session_dir qvd"
    by (auto simp: export_hwtopo_def rbind_Inr_iff split: if_splits)
qed

lemma setup_keeps_server:
  assumes "parse_args getopt argv qvd = Inr (rc, q1)" "determine_connection_info io q1 = Inr q2" "make_session_dir io q2 = Inr q3"
  shows "rmi_server q3 = rmi_server qvd"
proof -
  have opts: "parse_opts opts q = Inr (rc, q') \<Longrightarrow> rmi_server q' = rmi_server q" for opts q q' rc
    by (induction opts q rule: parse_opts.induct) (auto simp: rbind_Inr_iff Let_def split: if_splits)
  have "rmi_server q1 = rmi_server qvd"
    using assms(1) by (auto simp: parse_args_def rbind_Inr_iff dest!: opts split: prod.splits option.splits)
  then show ?thesis using assms(2,3)
    by (auto simp: determine_connection_info_def make_session_dir_def Let_def split: sum.splits fail.splits prod.splits if_splits)
qed

lemma setup_session_dir:
  assumes "daemon_setup io getopt argv qvd = Inr (Inr qvd')" "\<not> created_session_dir qvd" "created_session_dir qvd'"
  shows "\<not> d_access io (session_dir qvd') \<and> d_mkdir io (session_dir qvd')"
proof -
  obtain q1 q2 q3 q4 where st: "parse_args getopt argv qvd = Inr (QV_SUCCESS, q1)" "determine_connection_info io q1 = Inr q2"
    "make_session_dir io q2 = Inr q3" "export_hwtopo io q3 = Inr q4" "qvd' = configure_rmi q4"
    using assms(1) by (auto simp: daemon_setup_def rbind_Inr_iff split: if_splits)
  have "\<not> created_session_dir q2" using setup_keeps_marks(2) [OF st(1)] setup_keeps_marks(3) [OF st(2)] assms(2) by simp
  moreover have "created_session_dir q3" "session_dir q3 = session_dir qvd'"
    using setup_keeps_marks(4) [OF st(4)] st(5) assms(3) by (simp_all add: configure_rmi_def)
  ultimately show ?thesis using make_session_dir_created [OF st(3)] by simp
qed

lemma daemon_setup_ok:
  assumes "getopt (qvi_start_quo_vadisd_argss p) = ([Got_port (std_to_string p)], 3)" "valid_portno p"
    and "d_fork_works io" "d_setsid_works io" "d_rlimit io \<noteq> None" "d_access io (qvi_tmpdir (d_getenv io))"
    and "dir = qvi_tmpdir (d_getenv io) @ ''/quo-vadisd.'' @ std_to_string p" "d_access io dir \<or> d_mkdir io dir"
    and "\<And>t. export_works (d_export io t)"
    and "\<forall>t \<in> set topo_types. \<exists>h. qvi_hwlocs_get (srv_hwlocs (rmi_server qvd)) t = Inr h"
  shows "\<exists>qvd'. daemon_setup io getopt (qvi_start_quo_vadisd_argss p) qvd = Inr (Inr qvd') \<and>
    srv_config (rmi_server qvd') = \<lparr>url = ''tcp://127.0.0.1:'' @ std_to_string p, portno = p\<rparr> \<and> session_dir qvd' = dir \<and>
    created_session_dir qvd' = (created_session_dir qvd \<or> \<not> d_access io dir) \<and>
    (\<forall>t \<in> set topo_types. \<exists>h. qvi_hwlocs_get (srv_hwlocs (rmi_server qvd')) t = Inr h \<and>
       m_topo_file h = topo_fname (d_pid io) dir (m_flags h))"
proof -
  have p: "0 < p" "p < 2 ^ 16" using assms(2) by (auto simp: valid_portno_def)
  have stoi: "qvi_stoi (std_to_string p) = Inr p" using qvi_stoi_nat_to_string [of "nat p"] p by (simp add: std_to_string_def)
  let ?q1 = "qvd\<lparr>rmic := (rmic qvd)\<lparr>portno := p\<rparr>\<rparr>"
  have "parse_args getopt (qvi_start_quo_vadisd_argss p) qvd = Inr (QV_SUCCESS, ?q1)"
    using assms(1,2) stoi by (simp add: parse_args_def Let_def) (simp add: qvi_start_quo_vadisd_argss_def)
  moreover have "set_personality io ?q1 = Inr ()"
    using assms(3-5) by (auto simp: set_personality_def become_session_leader_def closefds_def)
  moreover have "determine_connection_info io ?q1 = Inr (?q1\<lparr>rmic := \<lparr>url = ''tcp://127.0.0.1:'' @ std_to_string p, portno = p\<rparr>\<rparr>)"
    using p by (simp add: determine_connection_info_def qvi_rmi_get_url_def QVI_PORT_UNSET_def)
  moreover obtain q3 where q3: "make_session_dir io (?q1\<lparr>rmic := \<lparr>url = ''tcp://127.0.0.1:'' @ std_to_string p, portno = p\<rparr>\<rparr>) = Inr q3"
      "session_dir q3 = dir" "rmi_server q3 = rmi_server qvd" "rmic q3 = \<lparr>url = ''tcp://127.0.0.1:'' @ std_to_string p, portno = p\<rparr>"
      "created_session_dir q3 = (created_session_dir qvd \<or> \<not> d_access io dir)"
    using assms(6-8) by (cases "d_access io dir") (simp_all add: make_session_dir_def session_dirname_def QVI_DAEMON_NAME_def Let_def)
  moreover obtain srv where srv: "server_topology_export (d_pid io) (d_export io) dir (rmi_server qvd) = Inr (QV_SUCCESS, srv)"
      "\<forall>t \<in> set topo_types. \<exists>h. qvi_hwlocs_get (srv_hwlocs (rmi_server qvd)) t = Inr h \<and>
         qvi_hwlocs_get (srv_hwlocs srv) t = Inr (h\<lparr>m_topo_file := topo_fname (d_pid io) dir (m_flags h)\<rparr>)"
    using server_topology_export_works [of "d_export io", OF assms(9,10)] by blast
  ultimately have "daemon_setup io getopt (qvi_start_quo_vadisd_argss p) qvd = Inr (Inr (configure_rmi (q3\<lparr>rmi_server := srv\<rparr>)))"
    by (simp add: daemon_setup_def export_hwtopo_def)
  moreover have "\<exists>h. qvi_hwlocs_get (srv_hwlocs srv) t = Inr h \<and> m_topo_file h = topo_fname (d_pid io) dir (m_flags h)"
    if "t \<in> set topo_types" for t using srv(2) that by fastforce
  ultimately show ?thesis using q3 by (simp add: configure_rmi_def configure_def)
qed

text \<open>The files of a server: what a daemon has published when it is ready to serve.\<close>

lemma throw_rc_Inr: "throw_rc r = Inr x \<longleftrightarrow> r = Inr x"
  by (auto simp: throw_rc_def split: sum.splits fail.splits)

lemma server_new_hwlocs:
  assumes "qvi_rmi_server_new gpu L zctx h0 = Inr srv"
  shows "\<exists>hf hn. srv_hwlocs srv = [(1, hf), (2, hn)] \<and> m_flags hf = 1 \<and> m_flags hn = 2"
  using assms
  by (auto simp: qvi_rmi_server_new_def topo_types_def qvi_hwlocs_new_def qvi_hwlocs_get_def om_insert_def om_put.simps throw_rc_Inr
      QVI_HWLOC_FLAG_TOPO_FULL_def QVI_HWLOC_FLAG_TOPO_NO_SMT_def QVI_HWLOC_TOPO_MASK_def rbind_Inr_iff
      dest!: topology_init_flags topology_load_flags split: if_splits)

lemma topology_export_file: "topology_export pid io base h = (QV_SUCCESS, h') \<Longrightarrow> h' = h\<lparr>m_topo_file := topo_fname pid base (m_flags h)\<rparr>"
  by (auto simp: topology_export_def Let_def split: if_splits option.splits sum.splits fail.splits)

lemma server_topology_export_files:
  assumes "server_topology_export pid io base srv = Inr (QV_SUCCESS, srv')" "srv_hwlocs srv = [(1, hf), (2, hn)]" "m_flags hf = 1" "m_flags hn = 2"
  shows "srv_hwlocs srv' = [(1, hf\<lparr>m_topo_file := topo_fname pid base 1\<rparr>), (2, hn\<lparr>m_topo_file := topo_fname pid base 2\<rparr>)]"
  using assms topology_export_file
  by (fastforce simp: server_topology_export_def topo_types_def qvi_hwlocs_get_def om_put.simps
      QVI_HWLOC_FLAG_TOPO_FULL_def QVI_HWLOC_FLAG_TOPO_NO_SMT_def QVI_HWLOC_TOPO_MASK_def rbind_Inr_iff split: prod.splits if_splits)

lemmas published_simps = topo_types_def QVI_HWLOC_FLAG_TOPO_FULL_def QVI_HWLOC_FLAG_TOPO_NO_SMT_def QVI_HWLOC_TOPO_MASK_def
  QVI_HWLOC_FLAG_TOPO_XML_def

lemma setup_files:
  assumes "qvid_new gpu L zctx h0 = Inr qvd0" "daemon_setup io getopt argv qvd0 = Inr (Inr qvd)"
  shows "\<exists>hf hn. srv_hwlocs (rmi_server qvd) = [(1, hf), (2, hn)] \<and> m_flags hf = 1 \<and> m_flags hn = 2 \<and>
    m_topo_file hf = topo_fname (d_pid io) (session_dir qvd) 1 \<and> m_topo_file hn = topo_fname (d_pid io) (session_dir qvd) 2"
proof -
  obtain hf hn where h: "srv_hwlocs (rmi_server qvd0) = [(1, hf), (2, hn)]" "m_flags hf = 1" "m_flags hn = 2"
    using assms(1) server_new_hwlocs [of gpu L zctx h0] by (fastforce simp: qvid_new_def rbind_Inr_iff)
  obtain q1 q2 q3 q4 where st: "parse_args getopt argv qvd0 = Inr (QV_SUCCESS, q1)" "determine_connection_info io q1 = Inr q2"
    "make_session_dir io q2 = Inr q3" "export_hwtopo io q3 = Inr q4" "qvd = configure_rmi q4"
    using assms(2) by (auto simp: daemon_setup_def rbind_Inr_iff split: if_splits)
  have "rmi_server q3 = rmi_server qvd0" using setup_keeps_server [OF st(1-3)] .
  then obtain srv where "server_topology_export (d_pid io) (d_export io) (session_dir q3) (rmi_server qvd0) = Inr (QV_SUCCESS, srv)"
    "rmi_server q4 = srv" "session_dir q4 = session_dir q3"
    using st(4) by (auto simp: export_hwtopo_def rbind_Inr_iff split: if_splits)
  with server_topology_export_files [OF _ h] h st(5) show ?thesis
    by (auto simp: configure_rmi_def configure_def)
qed

lemma flag_set_or: "flag_set (or fl QVI_HWLOC_FLAG_TOPO_XML) QVI_HWLOC_FLAG_TOPO_XML"
proof -
  have "and (or fl 4) 4 = (4 :: int)" by (rule bit_eqI) (auto simp: bit_simps)
  then show ?thesis by (simp add: flag_set_def QVI_HWLOC_FLAG_TOPO_XML_def)
qed

section \<open>A concrete daemon\<close>

definition demo_daemon_io :: daemon_io where
  "demo_daemon_io = \<lparr>d_getenv = (\<lambda>v. None), d_rlimit = Some None, d_fork_works = True, d_setsid_works = True,
     d_access = (\<lambda>p. p = ''/tmp''), d_mkdir = (\<lambda>p. True), d_rmall = (\<lambda>p. True), d_pid = 9,
     d_export = (\<lambda>t. \<lparr>dir_usable = True, xml_length = Some 3, open_works = True, fchmod_works = True, bytes_written = 3\<rparr>),
     d_bind = (\<lambda>u. True), d_linger = True\<rparr>"

definition demo_getopt :: "string list \<Rightarrow> getopt_result list \<times> nat" where
  "demo_getopt argv = (if length argv = 3 then ([Got_port (argv ! 2)], 3) else ([], 1))"

definition demo_qvid :: qvid where
  "demo_qvid = \<lparr>rmic = \<lparr>url = [], portno = QVI_PORT_UNSET\<rparr>, rmi_server = demo_server, session_dir = [], created_session_dir = False,
     daemonized = True\<rparr>"

lemma demo_port: "qvi_stoi (std_to_string 7) = Inr 7"
  using qvi_stoi_nat_to_string [of 7] by (simp add: std_to_string_def)

lemma demo_server_new:
  "qvi_rmi_server_new False (e_lib (demo_rmi_env tab)) True (cl_hwloc demo_client) =
     Inr \<lparr>srv_config = \<lparr>url = [], portno = QVI_PORT_UNSET\<rparr>,
          srv_hwlocs = [(1, demo_hwloc 4), (2, (demo_hwloc 4)\<lparr>m_flags := 2\<rparr>)]\<rparr>"
  by (simp add: qvi_rmi_server_new_def topo_types_def qvi_hwlocs_new_def qvi_hwlocs_get_def om_insert_def om_put.simps
      QVI_HWLOC_FLAG_TOPO_FULL_def QVI_HWLOC_FLAG_TOPO_NO_SMT_def QVI_HWLOC_TOPO_MASK_def throw_rc_def
      topology_init_def topology_load_def demo_rmi_env_def demo_env_def demo_lib_def or_hwloc_err_def m_discover_devices_def
      demo_topology_def demo_client_def demo_hwloc_def flag_set_def Let_def m_disable_smt_def)

definition demo_client_lib :: hwloc_lib where
  "demo_client_lib = demo_lib\<lparr>lib_topology_init := Some (demo_topology 4), lib_set_xml := (\<lambda>T p. Some T)\<rparr>"

lemma demo_client_loads:
  "\<exists>hc hc'. topology_init demo_client_lib 1 path (demo_hwloc 4) = Inr hc \<and> topology_load False demo_client_lib hc = Inr hc'"
proof -
  obtain fl where "topology_init demo_client_lib 1 path (demo_hwloc 4) = Inr ((demo_hwloc 4)\<lparr>m_flags := fl\<rparr>)" "flag_set fl QVI_HWLOC_FLAG_TOPO_NO_SMT = False"
    by (cases "path = []") (auto simp: topology_init_def m_topo_set_from_xml_def demo_client_lib_def or_hwloc_err_def demo_hwloc_def
        flag_set_def QVI_HWLOC_FLAG_TOPO_XML_def QVI_HWLOC_FLAG_TOPO_NO_SMT_def Let_def)
  then show ?thesis
    by (simp add: topology_load_def demo_client_lib_def or_hwloc_err_def demo_hwloc_def demo_lib_def m_discover_devices_def demo_topology_def Let_def)
qed

lemmas demo_daemon_simps = demo_getopt_def qvi_start_quo_vadisd_argss_def valid_portno_def demo_daemon_io_def qvi_tmpdir_def
  export_works_def topo_types_def qvi_hwlocs_get_def QVI_HWLOC_FLAG_TOPO_FULL_def QVI_HWLOC_FLAG_TOPO_NO_SMT_def QVI_HWLOC_TOPO_MASK_def

section \<open>Properties\<close>

text \<open>The daemon that the library starts for a port serves that port. Started with the command line that
  \<^verbatim>\<open>qvi_start_quo_vadisd\<close> builds, and with the operating system's cooperation, it gets ready to serve:
  its address is the local one with this port, its session directory is named after the port, and every
  topology is published in that directory, under the name that the greeting will tell the clients.\<close>

theorem daemon_serves_requested_port:
  assumes "getopt (qvi_start_quo_vadisd_argss p) = ([Got_port (std_to_string p)], 3)" "valid_portno p"
    and "d_fork_works io" "d_setsid_works io" "d_rlimit io \<noteq> None" "d_access io (qvi_tmpdir (d_getenv io))"
    and "dir = qvi_tmpdir (d_getenv io) @ ''/quo-vadisd.'' @ std_to_string p" "d_access io dir \<or> d_mkdir io dir"
    and "\<And>t. export_works (d_export io t)"
    and "\<forall>t \<in> set topo_types. \<exists>h. qvi_hwlocs_get (srv_hwlocs (rmi_server qvd)) t = Inr h"
  shows "\<exists>qvd'. daemon_setup io getopt (qvi_start_quo_vadisd_argss p) qvd = Inr (Inr qvd') \<and>
    srv_config (rmi_server qvd') = \<lparr>url = ''tcp://127.0.0.1:'' @ std_to_string p, portno = p\<rparr> \<and> session_dir qvd' = dir \<and>
    (\<forall>t \<in> set topo_types. \<exists>h. qvi_hwlocs_get (srv_hwlocs (rmi_server qvd')) t = Inr h \<and>
       m_topo_file h = topo_fname (d_pid io) dir (m_flags h))"
  using daemon_setup_ok [of getopt p io dir qvd, OF assms] by blast

theorem daemon_serves_requested_port_witness:
  "\<exists>qvd'. daemon_setup demo_daemon_io demo_getopt (qvi_start_quo_vadisd_argss 7) demo_qvid = Inr (Inr qvd') \<and>
     session_dir qvd' = ''/tmp/quo-vadisd.'' @ std_to_string 7 \<and>
     srv_config (rmi_server qvd') = \<lparr>url = ''tcp://127.0.0.1:'' @ std_to_string 7, portno = 7\<rparr>"
  using daemon_serves_requested_port [of demo_getopt 7 demo_daemon_io "''/tmp/quo-vadisd.'' @ std_to_string 7" demo_qvid]
  by (auto simp: demo_daemon_simps demo_qvid_def demo_server_def)

text \<open>C27: whatever the arguments and the requests, the daemon removes a directory only if it has created it
  itself: a session directory that existed before is left alone.\<close>

theorem daemon_removes_own_session_only:
  assumes "daemon_start E gpu zctx h0 io getopt zsend argv evs w = (r, sent, w', removed)" "dir \<in> set removed"
  shows "\<not> d_access io dir \<and> d_mkdir io dir \<and> d_rmall io dir \<and> r = Some (Inr QV_SUCCESS)"
proof -
  obtain qvd0 qvd where q: "qvid_new gpu (e_lib E) zctx h0 = Inr qvd0" "daemon_setup io getopt argv qvd0 = Inr (Inr qvd)"
    and r: "r = Some (Inr QV_SUCCESS)" "removed = cleanup io qvd"
    using assms by (auto simp: daemon_start_def rbind_Inr_iff split: sum.splits prod.splits option.splits fail.splits)
  have "\<not> created_session_dir qvd0" using q(1) by (auto simp: qvid_new_def rbind_Inr_iff)
  moreover have "created_session_dir qvd" "dir = session_dir qvd" "d_rmall io dir"
    using assms(2) r(2) by (auto simp: cleanup_def split: if_splits)
  ultimately show ?thesis using setup_session_dir [OF q(2)] r(1) by simp
qed

theorem daemon_removes_own_session_only_witness:
  "daemon_start (demo_rmi_env []) False True (cl_hwloc demo_client) demo_daemon_io demo_getopt (\<lambda>m. 0)
     (qvi_start_quo_vadisd_argss 7) [Ev_signal] Map.empty
     = (Some (Inr QV_SUCCESS), [], Map.empty, [''/tmp/quo-vadisd.'' @ std_to_string 7]) \<and>
   \<not> d_access demo_daemon_io (''/tmp/quo-vadisd.'' @ std_to_string 7)"
proof -
  have run: "daemon_start (demo_rmi_env []) False True (cl_hwloc demo_client) demo_daemon_io demo_getopt (\<lambda>m. 0)
     (qvi_start_quo_vadisd_argss 7) [Ev_signal] Map.empty
     = (Some (Inr QV_SUCCESS), [], Map.empty, [''/tmp/quo-vadisd.'' @ std_to_string 7])"
  proof -
    let ?dir = "''/tmp/quo-vadisd.'' @ std_to_string 7"
    obtain q where q: "qvid_new False (e_lib (demo_rmi_env [])) True (cl_hwloc demo_client) = Inr q"
        "\<forall>t \<in> set topo_types. \<exists>h. qvi_hwlocs_get (srv_hwlocs (rmi_server q)) t = Inr h" "\<not> created_session_dir q"
      by (simp add: qvid_new_def demo_server_new demo_daemon_simps)
    obtain q' where "daemon_setup demo_daemon_io demo_getopt (qvi_start_quo_vadisd_argss 7) q = Inr (Inr q')" "session_dir q' = ?dir"
        "created_session_dir q'"
      using daemon_setup_ok [of demo_getopt 7 demo_daemon_io ?dir q] q(2,3) by (auto simp: demo_daemon_simps)
    then show ?thesis using q(1)
      by (simp add: daemon_start_def start_rmi_server_def server_start_def m_enter_main_server_loop.simps loop_exit_def cleanup_def demo_daemon_io_def)
  qed
  from daemon_removes_own_session_only [OF run] run show ?thesis by simp
qed

text \<open>C28: the published topologies are removed by the daemon, and only by it. When a daemon that got ready to serve
  is destroyed, it unlinks the files that it has published in its session directory, one for each kind of topology,
  and these are the files that it names to its clients; a client that has loaded one of them leaves it alone when it ends.\<close>

theorem daemon_unlinks_published:
  assumes "qvid_new gpu L zctx h0 = Inr qvd0" "daemon_setup io getopt argv qvd0 = Inr (Inr qvd)"
    and "t \<in> set topo_types" "qvi_hwlocs_get (srv_hwlocs (rmi_server qvd)) t = Inr h"
    and "topology_init L' fl (m_topo_file h) hc = Inr hc'" "topology_load gpu' L' hc' = Inr hc''"
  shows "qvid_delete qvd = map (topo_fname (d_pid io) (session_dir qvd)) topo_types \<and>
    m_topo_file h \<in> set (qvid_delete qvd) \<and> qvi_hwloc_delete hc'' = []"
proof -
  obtain hf hn where h: "srv_hwlocs (rmi_server qvd) = [(1, hf), (2, hn)]" "m_flags hf = 1" "m_flags hn = 2"
    "m_topo_file hf = topo_fname (d_pid io) (session_dir qvd) 1" "m_topo_file hn = topo_fname (d_pid io) (session_dir qvd) 2"
    using setup_files [OF assms(1,2)] by blast
  have "qvid_delete qvd = map (topo_fname (d_pid io) (session_dir qvd)) topo_types"
    using h by (simp add: qvid_delete_def qvi_hwlocs_delete_def qvi_hwloc_delete_def flag_set_def published_simps)
  moreover have "m_topo_file h \<in> set (map (topo_fname (d_pid io) (session_dir qvd)) topo_types)"
    using assms(3,4) h by (auto simp: qvi_hwlocs_get_def published_simps)
  moreover have "m_topo_file h \<noteq> []" using calculation(2) by (auto simp: topo_fname_def)
  then have "m_flags hc'' = or fl QVI_HWLOC_FLAG_TOPO_XML"
    using topology_init_flags [OF assms(5)] topology_load_flags [OF assms(6)] by simp
  then have "qvi_hwloc_delete hc'' = []" using flag_set_or by (simp add: qvi_hwloc_delete_def)
  ultimately show ?thesis by simp
qed

theorem daemon_unlinks_published_witness:
  "\<exists>qvd0 qvd h hc hc'. qvid_new False (e_lib (demo_rmi_env [])) True (cl_hwloc demo_client) = Inr qvd0 \<and>
     daemon_setup demo_daemon_io demo_getopt (qvi_start_quo_vadisd_argss 7) qvd0 = Inr (Inr qvd) \<and>
     qvi_hwlocs_get (srv_hwlocs (rmi_server qvd)) 1 = Inr h \<and> m_topo_file h \<in> set (qvid_delete qvd) \<and>
     topology_init demo_client_lib 1 (m_topo_file h) (demo_hwloc 4) = Inr hc \<and>
     topology_load False demo_client_lib hc = Inr hc' \<and> qvi_hwloc_delete hc' = []"
proof -
  let ?L = "e_lib (demo_rmi_env [])"
  obtain q where q: "qvid_new False ?L True (cl_hwloc demo_client) = Inr q"
      "\<forall>t \<in> set topo_types. \<exists>h. qvi_hwlocs_get (srv_hwlocs (rmi_server q)) t = Inr h"
    by (simp add: qvid_new_def demo_server_new demo_daemon_simps)
  obtain q' where q': "daemon_setup demo_daemon_io demo_getopt (qvi_start_quo_vadisd_argss 7) q = Inr (Inr q')"
    using daemon_setup_ok [of demo_getopt 7 demo_daemon_io "''/tmp/quo-vadisd.'' @ std_to_string 7" q] q(2)
    by (auto simp: demo_daemon_simps)
  obtain h where h: "qvi_hwlocs_get (srv_hwlocs (rmi_server q')) 1 = Inr h"
    using setup_files [OF q(1) q'] by (auto simp: qvi_hwlocs_get_def published_simps)
  obtain hc hc' where hc: "topology_init demo_client_lib 1 (m_topo_file h) (demo_hwloc 4) = Inr hc" "topology_load False demo_client_lib hc = Inr hc'"
    using demo_client_loads by blast
  have "1 \<in> set topo_types" by (simp add: published_simps)
  from daemon_unlinks_published [OF q(1) q' this h hc] q(1) q' h hc show ?thesis by blast
qed

end
