(* ===== verification/QV_Mpi.thy ===== *)
theory QV_Mpi
  imports QV_Scope
begin

text \<open>
  The MPI context of a process (\<^verbatim>\<open>qvi-mpi.cc\<close>, \<^verbatim>\<open>qvi-mpi.h\<close>), the groups made
  from it (\<^verbatim>\<open>qvi-group-mpi.cc\<close>) and the public MPI calls (\<^verbatim>\<open>quo-vadis-mpi.cc\<close>).
  MPI itself is a parameter. A communicator is a handle of the process; while it is valid it stands for the
  list of its processes in rank order, and an operation on an invalid or a null handle is undefined.
\<close>

section \<open>MPI and the process\<close>

text \<open>
  What the MPI calls return (\<open>None\<close>: not \<^verbatim>\<open>MPI_SUCCESS\<close>). The collective calls take what each
  process passes. \<^verbatim>\<open>MPI_Comm_split\<close> takes \<open>None\<close> for \<^verbatim>\<open>MPI_UNDEFINED\<close> and may
  return the null communicator; \<^verbatim>\<open>MPI_Ibarrier\<close> is described by the number of tests that find it
  incomplete and whether the test after them succeeds.
\<close>

record mpi_env =
  mpi_initialized :: "bool option"
  mpi_dup :: "nat list \<Rightarrow> nat list option"
  mpi_size :: "nat list \<Rightarrow> int option"
  mpi_rank :: "nat \<Rightarrow> nat list \<Rightarrow> int option"
  mpi_split :: "nat list \<Rightarrow> (nat \<Rightarrow> int option) \<Rightarrow> (nat \<Rightarrow> int) \<Rightarrow> nat \<Rightarrow> nat list option option"
  mpi_split_shared :: "nat list \<Rightarrow> nat \<Rightarrow> nat list option"
  mpi_allgather :: "nat list \<Rightarrow> (nat \<Rightarrow> int) \<Rightarrow> int list option"
  mpi_allreduce_lor :: "nat list \<Rightarrow> (nat \<Rightarrow> bool) \<Rightarrow> bool option"
  mpi_ibarrier :: "nat list \<Rightarrow> (nat \<times> bool) option"

text \<open>
  What the MPI standard promises of these calls, on a machine where process \<open>p\<close> runs on node \<open>node p\<close>: a split
  groups the processes by colour and ranks them by key, then by old rank.
\<close>

definition mpi_comm_laws :: "mpi_env \<Rightarrow> (nat \<Rightarrow> nat) \<Rightarrow> bool" where
  "mpi_comm_laws M node \<longleftrightarrow>
     (\<forall>ms ms'. mpi_dup M ms = Some ms' \<longrightarrow> ms' = ms) \<and>
     (\<forall>ms n. mpi_size M ms = Some n \<longrightarrow> n = int (length ms)) \<and>
     (\<forall>p ms r. p \<in> set ms \<longrightarrow> mpi_rank M p ms = Some r \<longrightarrow> 0 \<le> r \<and> nat r < length ms \<and> ms ! nat r = p) \<and>
     (\<forall>p ms colors ckeys r. p \<in> set ms \<longrightarrow> mpi_split M ms colors ckeys p = Some r \<longrightarrow>
        r = (if colors p = None then None else Some (sort_key ckeys (filter (\<lambda>q. colors q = colors p) ms)))) \<and>
     (\<forall>p ms ms'. p \<in> set ms \<longrightarrow> mpi_split_shared M ms p = Some ms' \<longrightarrow> ms' = filter (\<lambda>q. node q = node p) ms) \<and>
     (\<forall>ms f vs. mpi_allgather M ms f = Some vs \<longrightarrow> vs = map f ms) \<and>
     (\<forall>ms f b. mpi_allreduce_lor M ms f = Some b \<longrightarrow> (b \<longleftrightarrow> (\<exists>q \<in> set ms. f q)))"

text \<open>
  The process \<open>P_me\<close> and its peers: process ids and environments, what the peers pass to the split of
  \<open>m_create_admin_comms\<close>, and what the daemon start finds on this node.
\<close>

record mpi_proc =
  P_me :: nat
  P_pid :: "nat \<Rightarrow> int"
  P_getenv :: "nat \<Rightarrow> getenv"
  P_admin_color :: "nat \<Rightarrow> int option"
  P_admin_key :: "nat \<Rightarrow> int"
  P_fs :: "nat \<Rightarrow> proc_fs"
  P_fork :: "int option"
  P_exec :: "string list \<Rightarrow> bool"

section \<open>State\<close>

type_synonym mpi_comm = "nat option"

definition MPI_COMM_NULL :: mpi_comm where
  "MPI_COMM_NULL = None"

definition MPI_COMM_SELF :: mpi_comm where
  "MPI_COMM_SELF = Some 0"

definition QVI_MPI_GROUP_NULL :: nat where "QVI_MPI_GROUP_NULL = 0"
definition QVI_MPI_GROUP_SELF :: nat where "QVI_MPI_GROUP_SELF = 1"
definition QVI_MPI_GROUP_NODE :: nat where "QVI_MPI_GROUP_NODE = 2"
definition QVI_MPI_GROUP_WORLD :: nat where "QVI_MPI_GROUP_WORLD = 3"

record qvi_mpi_comm =
  m_mpi_comm :: mpi_comm
  m_size :: int
  m_rank :: int

definition qvi_mpi_comm_default :: qvi_mpi_comm where
  "qvi_mpi_comm_default = \<lparr>m_mpi_comm = MPI_COMM_NULL, m_size = 0, m_rank = 0\<rparr>"

record qvi_mpi_group =
  qvcomm :: qvi_mpi_comm

record qvi_mpi =
  m_node_rep_comm :: qvi_mpi_comm
  m_self_comm :: qvi_mpi_comm
  m_node_comm :: qvi_mpi_comm
  m_world_comm :: qvi_mpi_comm
  m_group_tab :: "(nat, qvi_mpi_group) omap"

text \<open>
  The communicators of the process, the static group identifier counter, the context under construction or in
  use, the command lines of the daemons that the process has started, and the outside world.
\<close>

record 'w mpi_state =
  st_live :: "nat \<Rightarrow> nat list option"
  st_next :: nat
  st_gid :: nat
  st_ctx :: qvi_mpi
  st_daemons :: "string list list"
  st_world :: 'w

type_synonym ('w, 'a) mpi_op = "'w mpi_state \<Rightarrow> 'a res \<times> 'w mpi_state"

definition upd_ctx :: "(qvi_mpi \<Rightarrow> qvi_mpi) \<Rightarrow> ('w, unit) mpi_op" where
  "upd_ctx f s = (Inr (), s\<lparr>st_ctx := f (st_ctx s)\<rparr>)"

section \<open>Calls of MPI\<close>

definition comm_at :: "mpi_comm \<Rightarrow> ('w, nat list) mpi_op" where
  "comm_at comm s = (case comm of None \<Rightarrow> (Inl Undef, s) | Some c \<Rightarrow> (case st_live s c of None \<Rightarrow> (Inl Undef, s) | Some ms \<Rightarrow> (Inr ms, s)))"

definition new_comm :: "nat list \<Rightarrow> ('w, mpi_comm) mpi_op" where
  "new_comm ms s = (Inr (Some (st_next s)), s\<lparr>st_live := (st_live s)(st_next s := Some ms), st_next := Suc (st_next s)\<rparr>)"

definition drop_comm :: "mpi_comm \<Rightarrow> 'w mpi_state \<Rightarrow> 'w mpi_state" where
  "drop_comm comm s = (case comm of None \<Rightarrow> s | Some c \<Rightarrow> s\<lparr>st_live := (st_live s)(c := None)\<rparr>)"

definition comm_free :: "mpi_comm \<Rightarrow> ('w, unit) mpi_op" where
  "comm_free comm = sbind (comm_at comm) (\<lambda>ms s. (Inr (), drop_comm comm s))"

text \<open>A call whose failure is the given one.\<close>

definition mpi_or :: "fail \<Rightarrow> 'a option \<Rightarrow> ('w, 'a) mpi_op" where
  "mpi_or f r = sres (case r of None \<Rightarrow> Inl f | Some x \<Rightarrow> Inr x)"

definition comm_dup :: "mpi_env \<Rightarrow> mpi_comm \<Rightarrow> fail \<Rightarrow> ('w, mpi_comm) mpi_op" where
  "comm_dup M comm f = sbind (comm_at comm) (\<lambda>ms. sbind (mpi_or f (mpi_dup M ms)) new_comm)"

section \<open>Communicators and groups\<close>

definition qvi_mpi_comm_new :: "mpi_env \<Rightarrow> nat \<Rightarrow> mpi_comm \<Rightarrow> bool \<Rightarrow> ('w, qvi_mpi_comm) mpi_op" where
  "qvi_mpi_comm_new M me comm dup =
     sbind (if dup then comm_dup M comm (Rterror QV_ERR_MPI) else sret comm) (\<lambda>c.
     sbind (comm_at c) (\<lambda>ms.
     sbind (mpi_or (Rterror QV_ERR_MPI) (mpi_size M ms)) (\<lambda>sz.
     sbind (mpi_or (Rterror QV_ERR_MPI) (mpi_rank M me ms)) (\<lambda>rk.
       sret \<lparr>m_mpi_comm = c, m_size = sz, m_rank = rk\<rparr>))))"

definition mpi_comm_free :: "qvi_mpi_comm \<Rightarrow> ('w, unit) mpi_op" where
  "mpi_comm_free comm = (if m_mpi_comm comm \<noteq> MPI_COMM_NULL then comm_free (m_mpi_comm comm) else sret ())"

fun barrier_tests :: "nat \<Rightarrow> bool \<Rightarrow> qv_rc" where
  "barrier_tests 0 done = (if \<not> done then QV_ERR_MPI else QV_SUCCESS)"
| "barrier_tests (Suc n) done = barrier_tests n done"

definition sleepy_node_barrier :: "mpi_env \<Rightarrow> mpi_comm \<Rightarrow> ('w, qv_rc) mpi_op" where
  "sleepy_node_barrier M comm = sbind (comm_at comm) (\<lambda>ms. sret
     (case mpi_ibarrier M ms of None \<Rightarrow> QV_ERR_MPI | Some (n, done) \<Rightarrow> barrier_tests n done))"

definition mpi_group_pids :: "mpi_env \<Rightarrow> mpi_proc \<Rightarrow> qvi_mpi_group \<Rightarrow> ('w, int list) mpi_op" where
  "mpi_group_pids M P grp = sbind (comm_at (m_mpi_comm (qvcomm grp))) (\<lambda>ms.
     mpi_or (Rterror QV_ERR_MPI) (mpi_allgather M ms (P_pid P)))"

definition mpi_group_comm_dup :: "mpi_env \<Rightarrow> qvi_mpi_group \<Rightarrow> ('w, mpi_comm) mpi_op" where
  "mpi_group_comm_dup M grp = comm_dup M (m_mpi_comm (qvcomm grp)) (Rc QV_ERR_MPI)"

definition mpi_comm_to_new_node_comm :: "mpi_env \<Rightarrow> nat \<Rightarrow> mpi_comm \<Rightarrow> ('w, mpi_comm) mpi_op" where
  "mpi_comm_to_new_node_comm M me comm =
     sbind (comm_at comm) (\<lambda>ms. sbind (mpi_or (Rc QV_ERR_MPI) (mpi_split_shared M ms me)) new_comm)"

definition group_init_from_mpi_comm :: "mpi_env \<Rightarrow> nat \<Rightarrow> mpi_comm \<Rightarrow> ('w, qvi_mpi_group) mpi_op" where
  "group_init_from_mpi_comm M me comm = sbind (qvi_mpi_comm_new M me comm False) (\<lambda>c. sret \<lparr>qvcomm = c\<rparr>)"

section \<open>The context\<close>

definition add_group :: "qvi_mpi_group \<Rightarrow> nat \<Rightarrow> ('w, unit) mpi_op" where
  "add_group grp given_id =
     sbind (if given_id = QVI_MPI_GROUP_NULL
            then (\<lambda>s. case next_id (st_gid s) of Inl f \<Rightarrow> (Inl f, s) | Inr (gid, n) \<Rightarrow> (Inr gid, s\<lparr>st_gid := n\<rparr>))
            else sret given_id) (\<lambda>gid.
       upd_ctx (\<lambda>ctx. ctx\<lparr>m_group_tab := om_insert gid grp (m_group_tab ctx)\<rparr>))"

definition group_from_group_id :: "nat \<Rightarrow> ('w, qvi_mpi_group) mpi_op" where
  "group_from_group_id gid s =
     (case map_of (m_group_tab (st_ctx s)) gid of None \<Rightarrow> (Inl (Rc QV_ERR_NOT_FOUND), s) | Some g \<Rightarrow> (Inr g, s))"

definition group_from_mpi_comm :: "mpi_env \<Rightarrow> nat \<Rightarrow> mpi_comm \<Rightarrow> ('w, qvi_mpi_group) mpi_op" where
  "group_from_mpi_comm M me comm =
     sbind (mpi_comm_to_new_node_comm M me comm) (\<lambda>node_comm.
       on_rc (sbind (group_init_from_mpi_comm M me node_comm) (\<lambda>grp.
              sbind (add_group grp QVI_MPI_GROUP_NULL) (\<lambda>u. sret grp)))
             (drop_comm node_comm))"

text \<open>The split communicator is freed after a success and after an error code, not when an exception passes.\<close>

definition group_from_split ::
  "mpi_env \<Rightarrow> nat \<Rightarrow> (nat \<Rightarrow> int option) \<Rightarrow> (nat \<Rightarrow> int) \<Rightarrow> qvi_mpi_group \<Rightarrow> ('w, qvi_mpi_group) mpi_op" where
  "group_from_split M me colors ckeys parent =
     sbind (comm_at (m_mpi_comm (qvcomm parent))) (\<lambda>ms.
     sbind (mpi_or (Rc QV_ERR_MPI) (mpi_split M ms colors ckeys me)) (\<lambda>r.
     sbind (case r of None \<Rightarrow> sret MPI_COMM_NULL | Some ms' \<Rightarrow> new_comm ms') (\<lambda>split_comm.
     sbind (on_rc (group_from_mpi_comm M me split_comm) (drop_comm split_comm)) (\<lambda>child s.
       (Inr child, drop_comm split_comm s)))))"

definition m_create_intrinsic_comms :: "mpi_env \<Rightarrow> nat \<Rightarrow> mpi_comm \<Rightarrow> ('w, unit) mpi_op" where
  "m_create_intrinsic_comms M me comm =
     sbind (mpi_comm_to_new_node_comm M me comm) (\<lambda>node_comm.
     sbind (qvi_mpi_comm_new M me MPI_COMM_SELF True) (\<lambda>c. sbind (upd_ctx (\<lambda>ctx. ctx\<lparr>m_self_comm := c\<rparr>)) (\<lambda>u.
     sbind (qvi_mpi_comm_new M me node_comm False) (\<lambda>c. sbind (upd_ctx (\<lambda>ctx. ctx\<lparr>m_node_comm := c\<rparr>)) (\<lambda>u.
     sbind (qvi_mpi_comm_new M me comm True) (\<lambda>c. upd_ctx (\<lambda>ctx. ctx\<lparr>m_world_comm := c\<rparr>)))))))"

definition m_create_intrinsic_groups :: "('w, unit) mpi_op" where
  "m_create_intrinsic_groups s =
     sbind (add_group \<lparr>qvcomm = m_self_comm (st_ctx s)\<rparr> QVI_MPI_GROUP_SELF) (\<lambda>u.
     sbind (add_group \<lparr>qvcomm = m_node_comm (st_ctx s)\<rparr> QVI_MPI_GROUP_NODE) (\<lambda>u.
       add_group \<lparr>qvcomm = m_world_comm (st_ctx s)\<rparr> QVI_MPI_GROUP_WORLD)) s"

definition admin_color :: "int \<Rightarrow> int option" where
  "admin_color node_rank = (if node_rank = 0 then Some 0 else None)"

definition m_create_admin_comms :: "mpi_env \<Rightarrow> mpi_proc \<Rightarrow> ('w, unit) mpi_op" where
  "m_create_admin_comms M P s =
     (let ctx = st_ctx s;
          colors = (P_admin_color P)(P_me P := admin_color (m_rank (m_node_comm ctx)));
          ckeys = (P_admin_key P)(P_me P := m_rank (m_world_comm ctx))
      in sbind (comm_at (m_mpi_comm (m_node_comm ctx))) (\<lambda>ms.
         sbind (mpi_or (Rc QV_ERR_MPI) (mpi_split M ms colors ckeys (P_me P))) (\<lambda>r.
           case r of
             None \<Rightarrow> sret ()
           | Some ms' \<Rightarrow>
               sbind (new_comm ms') (\<lambda>node_rep_comm.
               sbind (qvi_mpi_comm_new M (P_me P) node_rep_comm False) (\<lambda>c.
               sbind (upd_ctx (\<lambda>ctx. ctx\<lparr>m_node_rep_comm := c\<rparr>)) (\<lambda>u.
                 add_group \<lparr>qvcomm = c\<rparr> QVI_MPI_GROUP_NULL))))) s)"

text \<open>
  The port from the environments of the group. The last port that is set wins. A process whose value of the
  variable is not a number throws while the others wait; the outcome is then this failure.
\<close>

definition pick_port :: "int list \<Rightarrow> int \<Rightarrow> int" where
  "pick_port portnos port0 = fold (\<lambda>pn port0. if pn = QVI_PORT_UNSET then port0 else pn) portnos port0"

definition env_port :: "mpi_proc \<Rightarrow> nat \<Rightarrow> int" where
  "env_port P q = (case qvi_port_from_env (P_getenv P q) of Inl f \<Rightarrow> QVI_PORT_UNSET | Inr port \<Rightarrow> port)"

definition get_portno_from_env :: "mpi_env \<Rightarrow> mpi_proc \<Rightarrow> qvi_mpi_comm \<Rightarrow> int \<Rightarrow> ('w, qv_rc \<times> int) mpi_op" where
  "get_portno_from_env M P comm port0 =
     sbind (comm_at (m_mpi_comm comm)) (\<lambda>ms.
       case mpi_allreduce_lor M ms (\<lambda>q. qvi_envset (P_getenv P q) QVI_ENV_PORT) of
         None \<Rightarrow> sret (QV_ERR_MPI, QVI_PORT_UNSET)
       | Some anyset \<Rightarrow>
           if anyset
           then sbind (sres (rmap (\<lambda>q. qvi_port_from_env (P_getenv P q)) ms)) (\<lambda>envports.
                  case mpi_allgather M ms (env_port P) of
                    None \<Rightarrow> sret (QV_ERR_MPI, QVI_PORT_UNSET)
                  | Some portnos \<Rightarrow> sret (QV_SUCCESS, pick_port portnos port0))
           else sret (QV_SUCCESS, port0))"

text \<open>The work of a node representative: the code and the command line of a daemon that was started.\<close>

definition start_or_join :: "mpi_proc \<Rightarrow> int \<Rightarrow> (qv_rc \<times> string list option) res" where
  "start_or_join P port0 =
     rbind (qvi_session_discover (P_fs P) 16 port0) (\<lambda>(rc, port, n).
       if rc = QV_SUCCESS then Inr (QV_SUCCESS, None)
       else Inr (qvi_start_quo_vadisd (P_fork P) (P_exec P) (if port0 \<noteq> QVI_PORT_UNSET then port0 else 57550)))"

definition m_start_daemons :: "mpi_env \<Rightarrow> mpi_proc \<Rightarrow> ('w, unit) mpi_op" where
  "m_start_daemons M P s =
     (let ctx = st_ctx s
      in sbind (if m_mpi_comm (m_node_rep_comm ctx) = MPI_COMM_NULL then sret (QV_SUCCESS, None)
                else sbind (get_portno_from_env M P (m_node_rep_comm ctx) QVI_PORT_UNSET) (\<lambda>(rc, port0).
                       if rc \<noteq> QV_SUCCESS then sret (rc, None) else sres (start_or_join P port0))) (\<lambda>(rc, started).
         sbind (\<lambda>s. (Inr (), s\<lparr>st_daemons := st_daemons s @ (case started of None \<Rightarrow> [] | Some argv \<Rightarrow> [argv])\<rparr>)) (\<lambda>u.
         sbind (sleepy_node_barrier M (m_mpi_comm (m_node_comm ctx))) (\<lambda>rc'.
           sres (check_rc (if rc' \<noteq> QV_SUCCESS then rc' else rc) ())))) s)"

text \<open>The constructor throws the codes of its steps; no member is set before it runs.\<close>

definition sthrow :: "('w, 'a) mpi_op \<Rightarrow> ('w, 'a) mpi_op" where
  "sthrow m s = (case m s of (r, s') \<Rightarrow> (throw_rc r, s'))"

definition qvi_mpi_empty :: qvi_mpi where
  "qvi_mpi_empty = \<lparr>m_node_rep_comm = qvi_mpi_comm_default, m_self_comm = qvi_mpi_comm_default, m_node_comm = qvi_mpi_comm_default,
     m_world_comm = qvi_mpi_comm_default, m_group_tab = []\<rparr>"

definition qvi_mpi_new :: "mpi_env \<Rightarrow> mpi_proc \<Rightarrow> mpi_comm \<Rightarrow> ('w, unit) mpi_op" where
  "qvi_mpi_new M P comm =
     sbind (upd_ctx (\<lambda>ctx. qvi_mpi_empty)) (\<lambda>u.
     if mpi_initialized M \<noteq> Some True then sres (Inl (Rterror QV_ERR_MPI))
     else sbind (sthrow (m_create_intrinsic_comms M (P_me P) comm)) (\<lambda>u.
          sbind (sthrow m_create_intrinsic_groups) (\<lambda>u.
          sbind (sthrow (m_create_admin_comms M P)) (\<lambda>u.
            sthrow (m_start_daemons M P)))))"

text \<open>The destructor frees the communicators of the table.\<close>

fun free_groups :: "(nat, qvi_mpi_group) omap \<Rightarrow> ('w, unit) mpi_op" where
  "free_groups [] = sret ()"
| "free_groups ((gid, g) # tab) = sbind (mpi_comm_free (qvcomm g)) (\<lambda>u. free_groups tab)"

definition qvi_mpi_delete :: "('w, unit) mpi_op" where
  "qvi_mpi_delete s = free_groups (m_group_tab (st_ctx s)) s"

section \<open>Groups of processes\<close>

record qvi_group_mpi =
  gm_flags :: int
  gm_task :: qvi_task
  gm_created_mpi_ctx :: bool
  gm_mpi_group :: qvi_mpi_group

definition mpi_world :: "('w \<Rightarrow> 'a res \<times> 'w) \<Rightarrow> ('w, 'a) mpi_op" where
  "mpi_world m s = (case m (st_world s) of (r, w) \<Rightarrow> (r, s\<lparr>st_world := w\<rparr>))"

definition mpi_connect_task :: "'w scope_env \<Rightarrow> int \<Rightarrow> ('w, qvi_task) mpi_op" where
  "mpi_connect_task X flags =
     mpi_world (connect_to_server (x_rmi X) (x_gpu X) (x_io X) (x_getenv X) (x_fs1 X) (x_fs2 X) (x_sock X) (x_tid X)
       flags \<lparr>m_rmi = x_client0 X, m_stack = []\<rparr>)"

text \<open>Both constructors throw the code of a failed step, and \<^verbatim>\<open>qvi_new\<close> turns it back into a code.\<close>

definition qvi_group_mpi_new :: "'w scope_env \<Rightarrow> mpi_env \<Rightarrow> mpi_proc \<Rightarrow> int \<Rightarrow> mpi_comm \<Rightarrow> ('w, qvi_group_mpi) mpi_op" where
  "qvi_group_mpi_new X M P flags comm =
     scatch (sbind (sthrow (scatch (qvi_mpi_new M P comm))) (\<lambda>u.
             sbind (sthrow (mpi_connect_task X flags)) (\<lambda>t.
       sret \<lparr>gm_flags = flags, gm_task = t, gm_created_mpi_ctx = True, gm_mpi_group = \<lparr>qvcomm = qvi_mpi_comm_default\<rparr>\<rparr>)))"

definition qvi_group_mpi_child :: "'w scope_env \<Rightarrow> int \<Rightarrow> ('w, qvi_group_mpi) mpi_op" where
  "qvi_group_mpi_child X flags =
     scatch (sbind (sthrow (mpi_connect_task X flags)) (\<lambda>t.
       sret \<lparr>gm_flags = flags, gm_task = t, gm_created_mpi_ctx = False, gm_mpi_group = \<lparr>qvcomm = qvi_mpi_comm_default\<rparr>\<rparr>))"

definition qvi_group_mpi_delete :: "qvi_group_mpi \<Rightarrow> ('w, unit) mpi_op" where
  "qvi_group_mpi_delete g = (if gm_created_mpi_ctx g then qvi_mpi_delete else sret ())"

fun mpi_group_type :: "qv_scope_intrinsic_t \<Rightarrow> nat option" where
  "mpi_group_type QV_SCOPE_SYSTEM = Some QVI_MPI_GROUP_NODE"
| "mpi_group_type QV_SCOPE_USER = Some QVI_MPI_GROUP_NODE"
| "mpi_group_type QV_SCOPE_JOB = Some QVI_MPI_GROUP_NODE"
| "mpi_group_type QV_SCOPE_PROCESS = Some QVI_MPI_GROUP_SELF"
| "mpi_group_type QV_SCOPE_OTHER = None"

definition group_mpi_make_intrinsic :: "qv_scope_intrinsic_t \<Rightarrow> qvi_group_mpi \<Rightarrow> ('w, qvi_group_mpi) mpi_op" where
  "group_mpi_make_intrinsic iscope g =
     (case mpi_group_type iscope of
        None \<Rightarrow> sres (Inl (Rc QV_ERR_INVLD_ARG))
      | Some gid \<Rightarrow> sbind (group_from_group_id gid) (\<lambda>grp. sret (g\<lparr>gm_mpi_group := grp\<rparr>)))"

text \<open>A child that was not completed is deleted; it does not own the context.\<close>

definition group_mpi_self :: "'w scope_env \<Rightarrow> mpi_env \<Rightarrow> mpi_proc \<Rightarrow> qvi_group_mpi \<Rightarrow> ('w, qvi_group_mpi) mpi_op" where
  "group_mpi_self X M P g =
     sbind (qvi_group_mpi_child X (gm_flags g)) (\<lambda>ichild.
     sbind (group_from_mpi_comm M (P_me P) MPI_COMM_SELF) (\<lambda>grp. sret (ichild\<lparr>gm_mpi_group := grp\<rparr>)))"

definition group_mpi_split ::
  "'w scope_env \<Rightarrow> mpi_env \<Rightarrow> mpi_proc \<Rightarrow> (nat \<Rightarrow> int option) \<Rightarrow> (nat \<Rightarrow> int) \<Rightarrow> qvi_group_mpi \<Rightarrow> ('w, qvi_group_mpi) mpi_op" where
  "group_mpi_split X M P colors ckeys g =
     sbind (qvi_group_mpi_child X (gm_flags g)) (\<lambda>ichild.
     sbind (group_from_split M (P_me P) colors ckeys (gm_mpi_group g)) (\<lambda>grp. sret (ichild\<lparr>gm_mpi_group := grp\<rparr>)))"

section \<open>The public calls\<close>

text \<open>A scope is its group and its pool; \<open>out\<close> says whether the pointer for the result is not null.\<close>

definition mpi_make_intrinsic ::
  "'w scope_env \<Rightarrow> mpi_env \<Rightarrow> mpi_proc \<Rightarrow> qvi_group_mpi \<Rightarrow> qv_scope_intrinsic_t \<Rightarrow> int \<Rightarrow> ('w, qvi_group_mpi \<times> qvi_hwpool) mpi_op" where
  "mpi_make_intrinsic X M P g iscope flags =
     sbind (group_mpi_make_intrinsic iscope g) (\<lambda>g.
     sbind (mpi_group_pids M P (gm_mpi_group g)) (\<lambda>pids.
     sbind (mpi_world (client_get_intrinsic_hwpool (x_rmi X) (x_sock X) (m_rmi (gm_task g)) pids iscope flags)) (\<lambda>hwpool.
       if x_mem X 0 then sret (g, hwpool) else sres (Inl (Rc QV_ERR)))))"

definition qv_mpi_scope ::
  "'w scope_env \<Rightarrow> mpi_env \<Rightarrow> mpi_proc \<Rightarrow> mpi_comm \<Rightarrow> qv_scope_intrinsic_t \<Rightarrow> int \<Rightarrow> bool \<Rightarrow> ('w, qvi_group_mpi \<times> qvi_hwpool) mpi_op" where
  "qv_mpi_scope X M P comm iscope flags out =
     (if comm = MPI_COMM_NULL \<or> \<not> out then sres (Inl (Rc QV_ERR_INVLD_ARG))
      else scatch (sbind (qvi_group_mpi_new X M P flags comm) (\<lambda>g. mpi_make_intrinsic X M P g iscope flags)))"

text \<open>\<open>Some None\<close> is a scope whose group is not an MPI group: the cast throws.\<close>

definition qv_mpi_comm_dup :: "mpi_env \<Rightarrow> qvi_group_mpi option option \<Rightarrow> bool \<Rightarrow> ('w, mpi_comm) mpi_op" where
  "qv_mpi_comm_dup M scope out =
     (if \<not> out then sres (Inl (Rc QV_ERR_INVLD_ARG))
      else scatch (case scope of
                     None \<Rightarrow> sret MPI_COMM_NULL
                   | Some None \<Rightarrow> sres (Inl StdExn)
                   | Some (Some g) \<Rightarrow> mpi_group_comm_dup M (gm_mpi_group g)))"

text \<open>
  The two entry points of the Fortran interface convert the handles; \<^verbatim>\<open>MPI_Comm_f2c\<close> and \<^verbatim>\<open>MPI_Comm_c2f\<close> are parameters.
  The second one converts the communicator also when the duplication has failed (\<open>None\<close>: whatever MPI has left there).
\<close>

definition qvi_mpi_scope_get_f2c ::
  "('f \<Rightarrow> mpi_comm) \<Rightarrow> 'w scope_env \<Rightarrow> mpi_env \<Rightarrow> mpi_proc \<Rightarrow> 'f \<Rightarrow> qv_scope_intrinsic_t \<Rightarrow> int \<Rightarrow> bool \<Rightarrow> ('w, qvi_group_mpi \<times> qvi_hwpool) mpi_op" where
  "qvi_mpi_scope_get_f2c f2c X M P comm iscope flags out = (let c_comm = f2c comm in qv_mpi_scope X M P c_comm iscope flags out)"

definition qvi_mpi_scope_comm_dup_f2c ::
  "(mpi_comm \<Rightarrow> 'f) \<Rightarrow> mpi_env \<Rightarrow> qvi_group_mpi option option \<Rightarrow> ('w, qv_rc \<times> 'f option) mpi_op" where
  "qvi_mpi_scope_comm_dup_f2c c2f M scope s =
     (case qv_mpi_comm_dup M scope True s of
        (Inr c_comm, s') \<Rightarrow> (Inr (QV_SUCCESS, Some (c2f c_comm)), s')
      | (Inl (Rc rc), s') \<Rightarrow> (Inr (rc, None), s')
      | (Inl f, s') \<Rightarrow> (Inl f, s'))"

section \<open>Lemmas\<close>

text \<open>A communicator that Fortran code got from a scope gives it the scope that the C handle would, as MPI promises that
  converting a handle there and back yields the handle.\<close>

lemma fortran_handle_roundtrip:
  assumes "\<And>c. f2c (c2f c) = c" "qv_mpi_comm_dup M scope True s = (Inr c, s')"
    and "qvi_mpi_scope_comm_dup_f2c c2f M scope s = (Inr (rc, fc), s'')"
  shows "rc = QV_SUCCESS \<and> s'' = s' \<and> (\<exists>fcomm. fc = Some fcomm \<and> qvi_mpi_scope_get_f2c f2c X M P fcomm iscope flags out = qv_mpi_scope X M P c iscope flags out)"
  using assms by (auto simp: qvi_mpi_scope_comm_dup_f2c_def qvi_mpi_scope_get_f2c_def)

lemma comm_at_ok [simp]: "comm_at comm s = (Inr ms, s') \<longleftrightarrow> s' = s \<and> (\<exists>c. comm = Some c \<and> st_live s c = Some ms)"
  by (auto simp: comm_at_def split: option.splits)

lemma mpi_or_ok [simp]: "mpi_or f r s = (Inr x, s') \<longleftrightarrow> r = Some x \<and> s' = s"
  by (auto simp: mpi_or_def sres_def split: option.splits)

lemma upd_ctx_ok [simp]: "upd_ctx f s = (Inr u, s') \<longleftrightarrow> s' = s\<lparr>st_ctx := f (st_ctx s)\<rparr>"
  by (auto simp: upd_ctx_def)

lemma new_comm_ok [simp]:
  "new_comm ms s = (Inr c, s') \<longleftrightarrow> c = Some (st_next s) \<and>
     s' = s\<lparr>st_live := (st_live s)(st_next s := Some ms), st_next := Suc (st_next s)\<rparr>"
  by (auto simp: new_comm_def)

lemma sthrow_ok [simp]: "sthrow m s = (Inr x, s') \<longleftrightarrow> m s = (Inr x, s')"
  by (auto simp: sthrow_def throw_rc_def split: prod.splits sum.splits fail.splits)

text \<open>What a communicator record of process \<open>p\<close> says about the processes of its handle.\<close>

definition comm_rec :: "mpi_env \<Rightarrow> nat \<Rightarrow> nat \<Rightarrow> nat list \<Rightarrow> qvi_mpi_comm" where
  "comm_rec M p c ms = \<lparr>m_mpi_comm = Some c, m_size = the (mpi_size M ms), m_rank = the (mpi_rank M p ms)\<rparr>"

definition ranked :: "mpi_env \<Rightarrow> nat \<Rightarrow> nat list \<Rightarrow> bool" where
  "ranked M p ms \<longleftrightarrow> mpi_size M ms \<noteq> None \<and> mpi_rank M p ms \<noteq> None"

lemma comm_new_ok:
  "qvi_mpi_comm_new M p comm False s = (Inr r, s') \<longleftrightarrow>
     s' = s \<and> (\<exists>c ms. comm = Some c \<and> st_live s c = Some ms \<and> ranked M p ms \<and> r = comm_rec M p c ms)"
  by (auto simp: qvi_mpi_comm_new_def sbind_Inr_iff sret_def ranked_def comm_rec_def)

lemma mpi_lawsD:
  assumes "mpi_comm_laws M node"
  shows "mpi_dup M ms = Some ms' \<longleftrightarrow> ms' = ms \<and> mpi_dup M ms = Some ms"
    and "p \<in> set ms \<Longrightarrow> mpi_split_shared M ms p = Some ms' \<longleftrightarrow>
      ms' = filter (\<lambda>q. node q = node p) ms \<and> mpi_split_shared M ms p = Some (filter (\<lambda>q. node q = node p) ms)"
    and "p \<in> set ms \<Longrightarrow> mpi_split M ms colors ckeys p = Some r \<Longrightarrow>
      r = (if colors p = None then None else Some (sort_key ckeys (filter (\<lambda>q. colors q = colors p) ms)))"
    and "mpi_allgather M ms f = Some vs \<Longrightarrow> vs = map f ms"
    and "mpi_allreduce_lor M ms h = Some b \<Longrightarrow> b \<longleftrightarrow> (\<exists>q \<in> set ms. h q)"
    and "mpi_size M ms = Some n \<Longrightarrow> n = int (length ms)"
    and "p \<in> set ms \<Longrightarrow> mpi_rank M p ms = Some rk \<Longrightarrow> 0 \<le> rk \<and> nat rk < length ms \<and> ms ! nat rk = p"
  using assms unfolding mpi_comm_laws_def by metis+

lemma comm_new_dup_ok:
  assumes "mpi_comm_laws M node"
  shows "qvi_mpi_comm_new M p comm True s = (Inr r, s') \<longleftrightarrow>
     (\<exists>c ms. comm = Some c \<and> st_live s c = Some ms \<and> mpi_dup M ms = Some ms \<and> ranked M p ms \<and> r = comm_rec M p (st_next s) ms \<and>
        s' = s\<lparr>st_live := (st_live s)(st_next s := Some ms), st_next := Suc (st_next s)\<rparr>)"
proof -
  have "mpi_dup M ms = Some ms' \<Longrightarrow> ms' = ms" for ms ms' using mpi_lawsD(1) [OF assms] by blast
  then show ?thesis
    by (fastforce simp: qvi_mpi_comm_new_def comm_dup_def sbind_Inr_iff sret_def ranked_def comm_rec_def)
qed

lemma node_comm_ok:
  assumes "mpi_comm_laws M node" "st_live s c = Some ms" "p \<in> set ms"
  shows "mpi_comm_to_new_node_comm M p (Some c) s = (Inr r, s') \<longleftrightarrow>
     mpi_split_shared M ms p = Some (filter (\<lambda>q. node q = node p) ms) \<and> r = Some (st_next s) \<and>
     s' = s\<lparr>st_live := (st_live s)(st_next s := Some (filter (\<lambda>q. node q = node p) ms)), st_next := Suc (st_next s)\<rparr>"
proof -
  have "mpi_split_shared M ms p = Some ms' \<Longrightarrow> ms' = filter (\<lambda>q. node q = node p) ms" for ms'
    using mpi_lawsD(2) [OF assms(1,3)] by blast
  then show ?thesis using assms(2) by (fastforce simp: mpi_comm_to_new_node_comm_def sbind_Inr_iff)
qed

lemma add_group_ok:
  "add_group g i s = (Inr u, s') \<longleftrightarrow>
     (if i = QVI_MPI_GROUP_NULL
      then st_gid s \<noteq> SIZE_MAX \<and> s' = s\<lparr>st_gid := Suc (st_gid s),
             st_ctx := (st_ctx s)\<lparr>m_group_tab := om_insert (st_gid s) g (m_group_tab (st_ctx s))\<rparr>\<rparr>
      else s' = s\<lparr>st_ctx := (st_ctx s)\<lparr>m_group_tab := om_insert i g (m_group_tab (st_ctx s))\<rparr>\<rparr>)"
  by (auto simp: add_group_def sbind_Inr_iff sret_def next_id_def split: if_splits)

lemma rank_law:
  assumes "mpi_comm_laws M node" "ranked M p ms" "p \<in> set ms"
  shows "m_size (comm_rec M p c ms) = int (length ms)" "0 \<le> m_rank (comm_rec M p c ms)"
    "nat (m_rank (comm_rec M p c ms)) < length ms" "ms ! nat (m_rank (comm_rec M p c ms)) = p"
  using assms(2) mpi_lawsD(6) [OF assms(1), of ms] mpi_lawsD(7) [OF assms(1,3)] by (auto simp: ranked_def comm_rec_def)

lemma group_from_mpi_comm_ok:
  assumes "mpi_comm_laws M node" "st_live s c = Some ms" "p \<in> set ms"
    and "group_from_mpi_comm M p (Some c) s = (Inr g, s')"
  shows "let ms' = filter (\<lambda>q. node q = node p) ms in
    ranked M p ms' \<and> g = \<lparr>qvcomm = comm_rec M p (st_next s) ms'\<rparr> \<and> st_gid s \<noteq> SIZE_MAX \<and>
    s' = s\<lparr>st_live := (st_live s)(st_next s := Some ms'), st_next := Suc (st_next s), st_gid := Suc (st_gid s),
           st_ctx := (st_ctx s)\<lparr>m_group_tab := om_insert (st_gid s) g (m_group_tab (st_ctx s))\<rparr>\<rparr>"
  using assms(4)
  by (auto simp: group_from_mpi_comm_def sbind_Inr_iff node_comm_ok [OF assms(1-3)] on_rc_Inr_iff group_init_from_mpi_comm_def comm_new_ok sret_def
      add_group_ok QVI_MPI_GROUP_NULL_def Let_def)

lemma group_from_split_ok:
  assumes "mpi_comm_laws M node" "m_mpi_comm (qvcomm parent) = Some c" "st_live s c = Some ms" "p \<in> set ms" "colors p \<noteq> None"
    and "group_from_split M p colors ckeys parent s = (Inr g, s')"
  shows "let ms' = filter (\<lambda>q. node q = node p) (sort_key ckeys (filter (\<lambda>q. colors q = colors p) ms)) in
    ranked M p ms' \<and> g = \<lparr>qvcomm = comm_rec M p (Suc (st_next s)) ms'\<rparr> \<and> st_gid s \<noteq> SIZE_MAX \<and>
    s' = s\<lparr>st_live := (st_live s)(st_next s := None, Suc (st_next s) := Some ms'), st_next := Suc (Suc (st_next s)), st_gid := Suc (st_gid s),
           st_ctx := (st_ctx s)\<lparr>m_group_tab := om_insert (st_gid s) g (m_group_tab (st_ctx s))\<rparr>\<rparr>"
proof -
  let ?ms1 = "sort_key ckeys (filter (\<lambda>q. colors q = colors p) ms)"
  let ?s1 = "s\<lparr>st_live := (st_live s)(st_next s := Some ?ms1), st_next := Suc (st_next s)\<rparr>"
  have "mpi_split M ms colors ckeys p = Some r \<Longrightarrow> r = Some ?ms1" for r using mpi_lawsD(3) [OF assms(1,4), of colors ckeys r] assms(5) by simp
  then obtain s2 where s2: "group_from_mpi_comm M p (Some (st_next s)) ?s1 = (Inr g, s2)" "s' = drop_comm (Some (st_next s)) s2"
    using assms(2,3,6) by (auto simp: group_from_split_def sbind_Inr_iff on_rc_Inr_iff)
  have "p \<in> set ?ms1" using assms(4) by simp
  from group_from_mpi_comm_ok [OF assms(1) _ this s2(1)] s2(2)
  show ?thesis by (simp add: drop_comm_def Let_def fun_upd_twist)
qed

text \<open>The state after the steps of the constructor, for a communicator of the processes \<open>ms\<close>.\<close>

definition intrinsic_state :: "mpi_env \<Rightarrow> (nat \<Rightarrow> nat) \<Rightarrow> nat \<Rightarrow> nat list \<Rightarrow> 'w mpi_state \<Rightarrow> 'w mpi_state" where
  "intrinsic_state M node p ms s =
     (let n = st_next s; ns = filter (\<lambda>q. node q = node p) ms
      in s\<lparr>st_live := (st_live s)(n := Some ns, n + 1 := Some [p], n + 2 := Some ms), st_next := n + 3,
           st_ctx := qvi_mpi_empty\<lparr>m_self_comm := comm_rec M p (n + 1) [p], m_node_comm := comm_rec M p n ns, m_world_comm := comm_rec M p (n + 2) ms,
             m_group_tab := [(1, \<lparr>qvcomm = comm_rec M p (n + 1) [p]\<rparr>), (2, \<lparr>qvcomm = comm_rec M p n ns\<rparr>), (3, \<lparr>qvcomm = comm_rec M p (n + 2) ms\<rparr>)]\<rparr>\<rparr>)"

lemma create_intrinsic_ok:
  assumes "mpi_comm_laws M node" "\<forall>c. st_live s c \<noteq> None \<longrightarrow> c < st_next s" "st_live s 0 = Some [p]"
    and "st_live s c = Some ms" "p \<in> set ms" "st_ctx s = qvi_mpi_empty"
    and "m_create_intrinsic_comms M p (Some c) s = (Inr (), s1)" "m_create_intrinsic_groups s1 = (Inr (), s2)"
  shows "s2 = intrinsic_state M node p ms s \<and> ranked M p [p] \<and> ranked M p (filter (\<lambda>q. node q = node p) ms) \<and> ranked M p ms"
proof -
  let ?n = "st_next s" and ?ns = "filter (\<lambda>q. node q = node p) ms"
  have lt: "0 < ?n" "c < ?n" using assms(2-4) by auto
  have "ranked M p [p]" "ranked M p ?ns" "ranked M p ms"
    "s1 = s\<lparr>st_live := (st_live s)(?n := Some ?ns, ?n + 1 := Some [p], ?n + 2 := Some ms), st_next := ?n + 3,
       st_ctx := (st_ctx s)\<lparr>m_self_comm := comm_rec M p (?n + 1) [p], m_node_comm := comm_rec M p ?n ?ns, m_world_comm := comm_rec M p (?n + 2) ms\<rparr>\<rparr>"
    using assms(3,4,7) lt
    by (auto simp: m_create_intrinsic_comms_def sbind_Inr_iff node_comm_ok [OF assms(1,4,5)] comm_new_dup_ok [OF assms(1)] comm_new_ok
        MPI_COMM_SELF_def eval_nat_numeral)
  moreover then have "s2 = intrinsic_state M node p ms s"
    using assms(6,8)
    by (simp add: m_create_intrinsic_groups_def sbind_Inr_iff add_group_ok intrinsic_state_def QVI_MPI_GROUP_NULL_def QVI_MPI_GROUP_SELF_def
        QVI_MPI_GROUP_NODE_def QVI_MPI_GROUP_WORLD_def om_insert_def qvi_mpi_empty_def Let_def)
  ultimately show ?thesis by simp
qed

text \<open>
  How a context starts: the communicator \<open>c\<close> of the distinct processes \<open>ms\<close> and \<^verbatim>\<open>MPI_COMM_SELF\<close> are
  valid, and every process of the node runs the same code, so that it passes the colour of its node rank.
\<close>

definition node_procs :: "(nat \<Rightarrow> nat) \<Rightarrow> nat \<Rightarrow> nat list \<Rightarrow> nat list" where
  "node_procs node p ms = filter (\<lambda>q. node q = node p) ms"

definition mpi_start_ok :: "mpi_env \<Rightarrow> (nat \<Rightarrow> nat) \<Rightarrow> mpi_proc \<Rightarrow> nat \<Rightarrow> nat list \<Rightarrow> 'w mpi_state \<Rightarrow> bool" where
  "mpi_start_ok M node P c ms s \<longleftrightarrow>
     mpi_comm_laws M node \<and> (\<forall>c. st_live s c \<noteq> None \<longrightarrow> c < st_next s) \<and> st_live s 0 = Some [P_me P] \<and> st_live s c = Some ms \<and>
     P_me P \<in> set ms \<and> distinct ms \<and> group_id_init \<le> st_gid s \<and>
     (\<forall>q \<in> set (node_procs node (P_me P) ms).
        \<exists>r. mpi_rank M q (node_procs node (P_me P) ms) = Some r \<and> P_admin_color P q = admin_color r)"

lemma mpi_start_peers:
  assumes "mpi_start_ok M node P c ms s" "q \<in> set (node_procs node (P_me P) ms)"
  shows "\<exists>r. mpi_rank M q (node_procs node (P_me P) ms) = Some r \<and> P_admin_color P q = admin_color r"
  using assms unfolding mpi_start_ok_def by (elim conjE) (erule bspec)

lemma rank_zero_hd:
  assumes "distinct ns" "0 \<le> r" "nat r < length ns" "ns ! nat r = p"
  shows "r = 0 \<longleftrightarrow> p = hd ns"
proof -
  have "ns \<noteq> []" using assms(3) by auto
  then have "p = hd ns \<longleftrightarrow> ns ! nat r = ns ! 0" using assms(4) by (simp add: hd_conv_nth)
  also have "\<dots> \<longleftrightarrow> nat r = 0" using assms(1,3) \<open>ns \<noteq> []\<close> by (intro nth_eq_iff_index_eq) auto
  finally show ?thesis using assms(2) by auto
qed

lemma filter_hd: "distinct ns \<Longrightarrow> ns \<noteq> [] \<Longrightarrow> filter (\<lambda>q. q = hd ns) ns = [hd ns]"
  by (cases ns) (auto simp: filter_empty_conv)

definition admin_state :: "mpi_env \<Rightarrow> nat \<Rightarrow> nat list \<Rightarrow> 'w mpi_state \<Rightarrow> 'w mpi_state" where
  "admin_state M p ns s =
     (if p = hd ns
      then s\<lparr>st_live := (st_live s)(st_next s := Some [p]), st_next := Suc (st_next s), st_gid := Suc (st_gid s),
             st_ctx := (st_ctx s)\<lparr>m_node_rep_comm := comm_rec M p (st_next s) [p],
               m_group_tab := om_insert (st_gid s) \<lparr>qvcomm = comm_rec M p (st_next s) [p]\<rparr> (m_group_tab (st_ctx s))\<rparr>\<rparr>
      else s)"

lemma create_admin_ok:
  assumes "mpi_start_ok M node P c ms s0" "ns = node_procs node (P_me P) ms"
    and "m_node_comm (st_ctx s) = comm_rec M (P_me P) h ns" "st_live s h = Some ns" "ranked M (P_me P) ns"
    and "m_create_admin_comms M P s = (Inr (), s')"
  shows "s' = admin_state M (P_me P) ns s"
proof -
  let ?p = "P_me P" and ?rk = "m_rank (m_node_comm (st_ctx s))"
  define colors where "colors = (P_admin_color P)(?p := admin_color ?rk)"
  define ckeys where "ckeys = (P_admin_key P)(?p := m_rank (m_world_comm (st_ctx s)))"
  have st: "mpi_comm_laws M node" "?p \<in> set ns" "distinct ns" using assms(1,2) by (auto simp: mpi_start_ok_def node_procs_def)
  have ne: "ns \<noteq> []" using st(2) by auto
  have rk: "?rk = 0 \<longleftrightarrow> ?p = hd ns" using rank_zero_hd [OF st(3)] rank_law [OF st(1) assms(5) st(2)] assms(3) by simp
  have col: "colors q = (if q = hd ns then Some 0 else None)" if q: "q \<in> set ns" for q
  proof (cases "q = ?p")
    case True
    then show ?thesis using rk by (simp add: colors_def admin_color_def)
  next
    case False
    obtain r where r: "mpi_rank M q ns = Some r" "P_admin_color P q = admin_color r" using mpi_start_peers [OF assms(1), of q] assms(2) q by blast
    then have "r = 0 \<longleftrightarrow> q = hd ns" using rank_zero_hd [OF st(3), of r q] mpi_lawsD(7) [OF st(1) q r(1)] by blast
    then show ?thesis using r False by (simp add: colors_def admin_color_def)
  qed
  have split: "mpi_split M ns colors ckeys ?p = Some r \<Longrightarrow> r = (if ?p = hd ns then Some [?p] else None)" for r
  proof -
    assume "mpi_split M ns colors ckeys ?p = Some r"
    from mpi_lawsD(3) [OF st(1,2) this] have r: "r = (if colors ?p = None then None else Some (sort_key ckeys (filter (\<lambda>q. colors q = colors ?p) ns)))" .
    have "filter (\<lambda>q. colors q = colors ?p) ns = [?p]" if "?p = hd ns"
    proof -
      have "filter (\<lambda>q. colors q = colors ?p) ns = filter (\<lambda>q. q = hd ns) ns" using col st(2) that by (intro filter_cong) auto
      then show ?thesis using filter_hd [OF st(3) ne] that by simp
    qed
    then show ?thesis using r col [OF st(2)] by (auto split: if_splits)
  qed
  show ?thesis
    using assms(3,4,6) split unfolding colors_def ckeys_def
    by (auto simp: m_create_admin_comms_def Let_def sbind_Inr_iff comm_new_ok add_group_ok admin_state_def QVI_MPI_GROUP_NULL_def comm_rec_def sret_def
        split: option.splits if_splits)
qed

lemma portno_alone:
  assumes "mpi_comm_laws M node" "st_live s h = Some [p]" "get_portno_from_env M P (comm_rec M p h [p]) QVI_PORT_UNSET s = (Inr (QV_SUCCESS, port), s')"
  shows "s' = s \<and> qvi_port_from_env (P_getenv P p) = Inr port"
proof -
  obtain anyset where any: "mpi_allreduce_lor M [p] (\<lambda>q. qvi_envset (P_getenv P q) QVI_ENV_PORT) = Some anyset"
    using assms(2,3) by (cases "mpi_allreduce_lor M [p] (\<lambda>q. qvi_envset (P_getenv P q) QVI_ENV_PORT)")
      (auto simp: get_portno_from_env_def sbind_Inr_iff sret_def comm_rec_def)
  then have env: "anyset \<longleftrightarrow> qvi_envset (P_getenv P p) QVI_ENV_PORT" using mpi_lawsD(5) [OF assms(1) any] by simp
  show ?thesis
  proof (cases anyset)
    case True
    then obtain v where v: "qvi_port_from_env (P_getenv P p) = Inr v"
      using assms(2,3) any by (auto simp: get_portno_from_env_def sbind_Inr_iff sres_def comm_rec_def rbind_Inr_iff)
    then obtain vs where vs: "mpi_allgather M [p] (env_port P) = Some vs" "port = pick_port vs QVI_PORT_UNSET" "s' = s"
      using True assms(2,3) any by (auto simp: get_portno_from_env_def sbind_Inr_iff sres_def sret_def comm_rec_def split: option.splits)
    have "vs = [v]" using mpi_lawsD(4) [OF assms(1) vs(1)] v by (simp add: env_port_def)
    then show ?thesis using vs v by (auto simp: pick_port_def)
  next
    case False
    then show ?thesis using env assms(2,3) any
      by (auto simp: get_portno_from_env_def sbind_Inr_iff sret_def comm_rec_def qvi_port_from_env_def qvi_envset_def)
  qed
qed

lemma start_or_join_ok:
  assumes "start_or_join P port = Inr (QV_SUCCESS, started)"
  shows "\<exists>rc port' n. qvi_session_discover (P_fs P) 16 port = Inr (rc, port', n) \<and>
    (case started of None \<Rightarrow> [] | Some argv \<Rightarrow> [argv]) =
      (let argv = qvi_start_quo_vadisd_argss (if port \<noteq> QVI_PORT_UNSET then port else 57550)
       in if rc \<noteq> QV_SUCCESS \<and> P_exec P argv then [argv] else [])"
  using assms by (auto simp: start_or_join_def rbind_Inr_iff qvi_start_quo_vadisd_def Let_def split: if_splits option.splits)

lemma start_daemons_steps:
  assumes "m_start_daemons M P s = (Inr (), s')"
  shows "s' = s\<lparr>st_daemons := st_daemons s'\<rparr>"
    and "m_mpi_comm (m_node_rep_comm (st_ctx s)) = None \<Longrightarrow> st_daemons s' = st_daemons s"
    and "m_mpi_comm (m_node_rep_comm (st_ctx s)) \<noteq> None \<Longrightarrow>
      \<exists>port started s1. get_portno_from_env M P (m_node_rep_comm (st_ctx s)) QVI_PORT_UNSET s = (Inr (QV_SUCCESS, port), s1) \<and>
        start_or_join P port = Inr (QV_SUCCESS, started) \<and> st_daemons s' = st_daemons s @ (case started of None \<Rightarrow> [] | Some argv \<Rightarrow> [argv])"
proof -
  have same: "get_portno_from_env M P c port s = (Inr r, s1) \<Longrightarrow> s1 = s" for c port r s1
    by (auto simp: get_portno_from_env_def sbind_Inr_iff sret_def sres_def split: if_splits option.splits)
  show "s' = s\<lparr>st_daemons := st_daemons s'\<rparr>"
    using assms by (auto simp: m_start_daemons_def Let_def sbind_Inr_iff sret_def sres_def sleepy_node_barrier_def dest!: same split: if_splits)
  show "m_mpi_comm (m_node_rep_comm (st_ctx s)) = None \<Longrightarrow> st_daemons s' = st_daemons s"
    using assms by (auto simp: m_start_daemons_def Let_def sbind_Inr_iff sret_def sres_def sleepy_node_barrier_def MPI_COMM_NULL_def)
  show "m_mpi_comm (m_node_rep_comm (st_ctx s)) \<noteq> None \<Longrightarrow>
      \<exists>port started s1. get_portno_from_env M P (m_node_rep_comm (st_ctx s)) QVI_PORT_UNSET s = (Inr (QV_SUCCESS, port), s1) \<and>
        start_or_join P port = Inr (QV_SUCCESS, started) \<and> st_daemons s' = st_daemons s @ (case started of None \<Rightarrow> [] | Some argv \<Rightarrow> [argv])"
    using assms by (auto simp: m_start_daemons_def Let_def sbind_Inr_iff sret_def sres_def sleepy_node_barrier_def MPI_COMM_NULL_def check_rc_def
        dest: same split: if_splits)
qed

text \<open>The whole constructor.\<close>

lemma qvi_mpi_new_ok:
  assumes "mpi_start_ok M node P c ms s" "qvi_mpi_new M P (Some c) s = (Inr (), s')"
  shows "let p = P_me P; ns = node_procs node p ms
    in ranked M p [p] \<and> ranked M p ns \<and> ranked M p ms \<and>
       s' = (admin_state M p ns (intrinsic_state M node p ms s))\<lparr>st_daemons := st_daemons s'\<rparr> \<and>
       m_start_daemons M P (admin_state M p ns (intrinsic_state M node p ms s)) = (Inr (), s')"
proof -
  let ?p = "P_me P" and ?s0 = "s\<lparr>st_ctx := qvi_mpi_empty\<rparr>"
  obtain s1 s2 s3 where st: "m_create_intrinsic_comms M ?p (Some c) ?s0 = (Inr (), s1)" "m_create_intrinsic_groups s1 = (Inr (), s2)"
    "m_create_admin_comms M P s2 = (Inr (), s3)" "m_start_daemons M P s3 = (Inr (), s')"
    using assms(2) by (auto simp: qvi_mpi_new_def sbind_Inr_iff sres_def split: if_splits)
  have m: "mpi_comm_laws M node" "\<forall>c. st_live ?s0 c \<noteq> None \<longrightarrow> c < st_next ?s0" "st_live ?s0 0 = Some [?p]" "st_live ?s0 c = Some ms"
    "?p \<in> set ms" "st_ctx ?s0 = qvi_mpi_empty" using assms(1) unfolding mpi_start_ok_def by simp_all
  have s2: "s2 = intrinsic_state M node ?p ms s" and r: "ranked M ?p [?p]" "ranked M ?p (node_procs node ?p ms)" "ranked M ?p ms"
    using create_intrinsic_ok [OF m st(1,2)] by (simp_all add: node_procs_def intrinsic_state_def Let_def)
  have "s3 = admin_state M ?p (node_procs node ?p ms) s2"
    by (rule create_admin_ok [OF assms(1) refl _ _ r(2) st(3), of "st_next s"]) (simp_all add: s2 intrinsic_state_def node_procs_def Let_def)
  then show ?thesis using st(4) start_daemons_steps(1) [OF st(4)] s2 r by (simp add: Let_def)
qed

section \<open>The communicators of a context\<close>

definition tab_comms :: "qvi_mpi \<Rightarrow> mpi_comm list" where
  "tab_comms ctx = map (\<lambda>(gid, g). m_mpi_comm (qvcomm g)) (m_group_tab ctx)"

text \<open>
  The invariant: the table's communicators are distinct and valid; without them the valid communicators are
  those of \<open>L\<close>; new handles and group identifiers are fresh.
\<close>

definition ctx_inv :: "(nat \<Rightarrow> nat list option) \<Rightarrow> 'w mpi_state \<Rightarrow> bool" where
  "ctx_inv L s \<longleftrightarrow>
     distinct (tab_comms (st_ctx s)) \<and> None \<notin> set (tab_comms (st_ctx s)) \<and>
     (\<forall>c. Some c \<in> set (tab_comms (st_ctx s)) \<longrightarrow> st_live s c \<noteq> None \<and> L c = None) \<and>
     (\<forall>c. Some c \<notin> set (tab_comms (st_ctx s)) \<longrightarrow> st_live s c = L c) \<and>
     (\<forall>c. st_live s c \<noteq> None \<longrightarrow> c < st_next s) \<and> (\<forall>k \<in> set (om_keys (m_group_tab (st_ctx s))). k < st_gid s)"

lemma free_groups_ok:
  assumes "distinct (map (\<lambda>(gid, g). m_mpi_comm (qvcomm g)) tab)" "None \<notin> set (map (\<lambda>(gid, g). m_mpi_comm (qvcomm g)) tab)"
    and "\<forall>c. Some c \<in> set (map (\<lambda>(gid, g). m_mpi_comm (qvcomm g)) tab) \<longrightarrow> st_live s c \<noteq> None"
  shows "free_groups tab s = (Inr (), s\<lparr>st_live := (\<lambda>c. if Some c \<in> set (map (\<lambda>(gid, g). m_mpi_comm (qvcomm g)) tab) then None else st_live s c)\<rparr>)"
  using assms
proof (induction tab arbitrary: s)
  case Nil
  then show ?case by (simp add: sret_def)
next
  case (Cons e tab)
  obtain gid g c where e: "e = (gid, g)" "m_mpi_comm (qvcomm g) = Some c"
    using Cons.prems(2) by (cases e; cases "m_mpi_comm (qvcomm (snd e))") auto
  obtain ms where ms: "st_live s c = Some ms" using Cons.prems(3) e by auto
  let ?s = "s\<lparr>st_live := (st_live s)(c := None)\<rparr>"
  have "mpi_comm_free (qvcomm g) s = (Inr (), ?s)"
    using e ms by (simp add: mpi_comm_free_def MPI_COMM_NULL_def comm_free_def sbind_def comm_at_def drop_comm_def)
  moreover have "free_groups tab ?s = (Inr (), ?s\<lparr>st_live := (\<lambda>d. if Some d \<in> set (map (\<lambda>(gid, g). m_mpi_comm (qvcomm g)) tab) then None else st_live ?s d)\<rparr>)"
    using Cons.prems e by (intro Cons.IH) auto
  ultimately show ?case using e by (auto simp: sbind_def fun_eq_iff)
qed

lemma om_insert_fresh: "\<forall>k' \<in> set (om_keys m). k' < k \<Longrightarrow> om_insert k v m = m @ [(k, v)]"
  by (auto simp: om_insert_def om_put_last map_of_eq_None_iff split: option.splits dest!: map_of_SomeD)

text \<open>A call has returned if no exception passed through it and its behaviour was defined.\<close>

definition returned :: "'a res \<Rightarrow> bool" where
  "returned r \<longleftrightarrow> (case r of Inr x \<Rightarrow> True | Inl (Rc c) \<Rightarrow> True | Inl f \<Rightarrow> False)"

definition grown :: "'w mpi_state \<Rightarrow> nat \<Rightarrow> qvi_mpi_group res \<Rightarrow> 'w mpi_state \<Rightarrow> bool" where
  "grown s h r s' \<longleftrightarrow>
     (case r of
        Inl f \<Rightarrow> st_live s' = st_live s \<and> m_group_tab (st_ctx s') = m_group_tab (st_ctx s) \<and> st_gid s' = st_gid s \<and> st_next s \<le> st_next s'
      | Inr g \<Rightarrow> m_mpi_comm (qvcomm g) = Some h \<and> (\<exists>ms. st_live s' = (st_live s)(h \<mapsto> ms)) \<and> st_gid s' = Suc (st_gid s) \<and>
          st_next s \<le> h \<and> h < st_next s' \<and> m_group_tab (st_ctx s') = om_insert (st_gid s) g (m_group_tab (st_ctx s)))"

lemma group_from_mpi_comm_grown:
  assumes "group_from_mpi_comm M p comm s = (r, s')" "returned r" "st_live s (st_next s) = None"
  shows "grown s (st_next s) r s'"
  using assms
  by (auto simp: group_from_mpi_comm_def mpi_comm_to_new_node_comm_def comm_at_def mpi_or_def sres_def sbind_def new_comm_def on_rc_def
      group_init_from_mpi_comm_def qvi_mpi_comm_new_def sret_def add_group_def next_id_def upd_ctx_def drop_comm_def QVI_MPI_GROUP_NULL_def
      returned_def grown_def fun_upd_idem split: option.splits if_splits)

lemma group_from_split_grown:
  assumes "group_from_split M p colors ckeys parent s = (r, s')" "returned r" "\<forall>c. st_live s c \<noteq> None \<longrightarrow> c < st_next s"
  shows "grown s (Suc (st_next s)) r s'"
proof -
  have fresh: "st_live s (st_next s) = None" "st_live s (Suc (st_next s)) = None" using assms(3) by (metis Suc_n_not_le_n less_irrefl less_or_eq_imp_le)+
  consider "\<exists>c. r = Inl (Rc c) \<and> s' = s"
    | ms r1 s1 where "group_from_mpi_comm M p (Some (st_next s)) (s\<lparr>st_live := (st_live s)(st_next s := Some ms), st_next := Suc (st_next s)\<rparr>) = (r1, s1)"
        "r = r1" "s' = drop_comm (Some (st_next s)) s1" "returned r1"
  proof (cases "m_mpi_comm (qvcomm parent) = None \<or> st_live s (the (m_mpi_comm (qvcomm parent))) = None")
    case True
    then have "r = Inl Undef" using assms(1)
      by (auto simp: group_from_split_def sbind_def comm_at_def split: option.splits)
    then show ?thesis using assms(2) by (simp add: returned_def)
  next
    case False
    then obtain c ms where c: "m_mpi_comm (qvcomm parent) = Some c" "st_live s c = Some ms" by auto
    show ?thesis
    proof (cases "mpi_split M ms colors ckeys p")
      case None
      then show ?thesis using assms(1,2) that(1) c by (auto simp: group_from_split_def sbind_def comm_at_def mpi_or_def sres_def)
    next
      case (Some r0)
      obtain ms' where "r0 = Some ms'"
        using assms(1,2) c Some by (cases r0) (auto simp: group_from_split_def sbind_def comm_at_def mpi_or_def sres_def sret_def
            MPI_COMM_NULL_def on_rc_def group_from_mpi_comm_def mpi_comm_to_new_node_comm_def returned_def)
      moreover obtain r1 s1 where "group_from_mpi_comm M p (Some (st_next s))
          (s\<lparr>st_live := (st_live s)(st_next s := Some ms'), st_next := Suc (st_next s)\<rparr>) = (r1, s1)" by fastforce
      ultimately show ?thesis using that(2) [of ms' r1 s1] assms(1,2) c Some
        by (auto simp: group_from_split_def sbind_def comm_at_def mpi_or_def sres_def new_comm_def on_rc_def returned_def
            split: sum.splits fail.splits)
    qed
  qed
  then show ?thesis
  proof cases
    case 1
    then show ?thesis by (auto simp: grown_def)
  next
    case (2 ms r1 s1)
    from group_from_mpi_comm_grown [OF 2(1,4)] fresh
    have "grown (s\<lparr>st_live := (st_live s)(st_next s := Some ms), st_next := Suc (st_next s)\<rparr>) (Suc (st_next s)) r1 s1" by simp
    with 2(2,3) fresh show ?thesis by (auto simp: grown_def drop_comm_def fun_upd_twist fun_upd_idem split: sum.splits)
  qed
qed

lemma ctx_inv_grown:
  assumes "ctx_inv L s" "grown s h r s'"
  shows "ctx_inv L s'"
proof (cases r)
  case (Inl f)
  with assms show ?thesis by (fastforce simp: ctx_inv_def grown_def tab_comms_def)
next
  case (Inr g)
  then obtain ms where g: "m_mpi_comm (qvcomm g) = Some h" "st_live s' = (st_live s)(h \<mapsto> ms)" "st_gid s' = Suc (st_gid s)" "st_next s \<le> h" "h < st_next s'"
    "m_group_tab (st_ctx s') = om_insert (st_gid s) g (m_group_tab (st_ctx s))"
    using assms(2) by (auto simp: grown_def)
  have h: "st_live s h = None" "Some h \<notin> set (tab_comms (st_ctx s))" "L h = None"
  proof -
    show live: "st_live s h = None" using assms(1) g(4) unfolding ctx_inv_def by (metis leD)
    then show "Some h \<notin> set (tab_comms (st_ctx s))" using assms(1) unfolding ctx_inv_def by blast
    then show "L h = None" using assms(1) live unfolding ctx_inv_def by auto
  qed
  have tab: "tab_comms (st_ctx s') = tab_comms (st_ctx s) @ [Some h]" 
    using assms(1) g(1,6) by (simp add: ctx_inv_def om_insert_fresh tab_comms_def)
  have "om_keys (m_group_tab (st_ctx s')) = om_keys (m_group_tab (st_ctx s)) @ [st_gid s]"
    using assms(1) g(6) by (simp add: ctx_inv_def om_insert_fresh)
  then show ?thesis using assms(1) g(2-5) h unfolding ctx_inv_def tab by (auto simp: less_Suc_eq)
qed

lemma ctx_inv_new:
  assumes "mpi_start_ok M node P c ms s" "qvi_mpi_new M P (Some c) s = (Inr (), s')"
  shows "ctx_inv (st_live s) s'"
proof -
  let ?p = "P_me P" and ?s1 = "intrinsic_state M node (P_me P) ms s"
  have m: "\<forall>c. st_live s c \<noteq> None \<longrightarrow> c < st_next s" "64 \<le> st_gid s" using assms(1) by (auto simp: mpi_start_ok_def group_id_init_def)
  have fresh: "st_live s c = None" if "st_next s \<le> c" for c using m(1) that by (metis leD)
  have s1: "ctx_inv (st_live s) ?s1"
    using m fresh by (auto simp: ctx_inv_def intrinsic_state_def tab_comms_def comm_rec_def qvi_mpi_empty_def Let_def dest!: m(1) [rule_format, rotated])
  define ns where "ns = node_procs node ?p ms"
  have "grown ?s1 (st_next ?s1) (Inr \<lparr>qvcomm = comm_rec M ?p (st_next ?s1) [?p]\<rparr>) (admin_state M ?p ns ?s1)" if "?p = hd ns"
    using that by (auto simp: grown_def admin_state_def comm_rec_def)
  then have "ctx_inv (st_live s) (admin_state M ?p ns ?s1)"
    using s1 by (cases "?p = hd ns") (auto intro: ctx_inv_grown simp: admin_state_def)
  then have "ctx_inv (st_live s) ((admin_state M ?p ns ?s1)\<lparr>st_daemons := d\<rparr>)" for d by (simp add: ctx_inv_def)
  then show ?thesis using qvi_mpi_new_ok [OF assms] unfolding ns_def Let_def by metis
qed

text \<open>A group of process \<open>p\<close> that stands for the processes \<open>procs\<close>.\<close>

definition group_stands :: "'w mpi_state \<Rightarrow> nat \<Rightarrow> nat list \<Rightarrow> qvi_mpi_group \<Rightarrow> bool" where
  "group_stands s p procs g \<longleftrightarrow>
     (\<exists>h. m_mpi_comm (qvcomm g) = Some h \<and> st_live s h = Some procs) \<and> m_size (qvcomm g) = int (length procs) \<and>
     0 \<le> m_rank (qvcomm g) \<and> nat (m_rank (qvcomm g)) < length procs \<and> procs ! nat (m_rank (qvcomm g)) = p"

lemma group_stands_rec:
  assumes "mpi_comm_laws M node" "ranked M p procs" "p \<in> set procs" "st_live s h = Some procs"
  shows "group_stands s p procs \<lparr>qvcomm = comm_rec M p h procs\<rparr>"
  using rank_law [OF assms(1-3)] assms(4) by (auto simp: group_stands_def) (auto simp: comm_rec_def)

definition intrinsic_procs :: "(nat \<Rightarrow> nat) \<Rightarrow> nat \<Rightarrow> nat list \<Rightarrow> nat \<Rightarrow> nat list" where
  "intrinsic_procs node p ms gid = (if gid = QVI_MPI_GROUP_SELF then [p] else if gid = QVI_MPI_GROUP_NODE then node_procs node p ms else ms)"

lemma context_groups:
  assumes "mpi_start_ok M node P c ms s" "qvi_mpi_new M P (Some c) s = (Inr (), s')"
    and "gid \<in> {QVI_MPI_GROUP_SELF, QVI_MPI_GROUP_NODE, QVI_MPI_GROUP_WORLD}"
  shows "\<exists>g. group_from_group_id gid s' = (Inr g, s') \<and> group_stands s' (P_me P) (intrinsic_procs node (P_me P) ms gid) g"
proof -
  let ?p = "P_me P" and ?n = "st_next s"
  let ?ns = "node_procs node ?p ms"
  have m: "mpi_comm_laws M node" "?p \<in> set ms" "64 \<le> st_gid s" using assms(1) by (simp_all add: mpi_start_ok_def group_id_init_def)
  have r: "ranked M ?p [?p]" "ranked M ?p ?ns" "ranked M ?p ms"
    and s': "s' = (admin_state M ?p ?ns (intrinsic_state M node ?p ms s))\<lparr>st_daemons := st_daemons s'\<rparr>"
    using qvi_mpi_new_ok [OF assms(1,2)] by (simp_all add: Let_def)
  have live: "st_live s' (?n + 1) = Some [?p]" "st_live s' ?n = Some ?ns" "st_live s' (?n + 2) = Some ms"
    by (subst s', simp add: admin_state_def intrinsic_state_def node_procs_def Let_def)+
  have "map_of (m_group_tab (st_ctx s')) 1 = Some \<lparr>qvcomm = comm_rec M ?p (?n + 1) [?p]\<rparr>"
    "map_of (m_group_tab (st_ctx s')) 2 = Some \<lparr>qvcomm = comm_rec M ?p ?n ?ns\<rparr>"
    "map_of (m_group_tab (st_ctx s')) 3 = Some \<lparr>qvcomm = comm_rec M ?p (?n + 2) ms\<rparr>"
    using m(3) by (subst s', simp add: admin_state_def intrinsic_state_def node_procs_def qvi_mpi_empty_def om_insert_def Let_def)+
  moreover have "?p \<in> set ?ns" using m(2) by (simp add: node_procs_def)
  ultimately show ?thesis
    using assms(3) group_stands_rec [OF m(1) r(1) _ live(1)] group_stands_rec [OF m(1) r(2) _ live(2)] group_stands_rec [OF m(1) r(3) m(2) live(3)]
    by (auto simp: group_from_group_id_def intrinsic_procs_def QVI_MPI_GROUP_SELF_def QVI_MPI_GROUP_NODE_def QVI_MPI_GROUP_WORLD_def)
qed

inductive ctx_reachable :: "mpi_env \<Rightarrow> mpi_proc \<Rightarrow> (nat \<Rightarrow> nat list option) \<Rightarrow> 'w mpi_state \<Rightarrow> bool" for M P where
  created: "mpi_start_ok M node P c ms s \<Longrightarrow> qvi_mpi_new M P (Some c) s = (Inr (), s') \<Longrightarrow> ctx_reachable M P (st_live s) s'"
| from_comm: "ctx_reachable M P L s \<Longrightarrow> group_from_mpi_comm M (P_me P) comm s = (r, s') \<Longrightarrow> returned r \<Longrightarrow> ctx_reachable M P L s'"
| from_split: "ctx_reachable M P L s \<Longrightarrow> group_from_split M (P_me P) colors ckeys parent s = (r, s') \<Longrightarrow> returned r \<Longrightarrow> ctx_reachable M P L s'"

lemma reachable_ctx_inv: "ctx_reachable M P L s \<Longrightarrow> ctx_inv L s"
proof (induction rule: ctx_reachable.induct)
  case (created node c ms s s')
  then show ?case by (rule ctx_inv_new)
next
  case (from_comm L s comm r s')
  then have "st_live s (st_next s) = None" unfolding ctx_inv_def by blast
  then show ?case using ctx_inv_grown [OF from_comm.IH group_from_mpi_comm_grown [OF from_comm.hyps(2,3)]] by blast
next
  case (from_split L s colors ckeys parent r s')
  then have "\<forall>c. st_live s c \<noteq> None \<longrightarrow> c < st_next s" unfolding ctx_inv_def by blast
  then show ?case using ctx_inv_grown [OF from_split.IH group_from_split_grown [OF from_split.hyps(2,3)]] by blast
qed

lemma mpi_connect_ok:
  assumes "connectable X srv flags h b (st_world s)"
  shows "\<exists>t. mpi_connect_task X flags s = (Inr t, s) \<and> cl_hwloc (m_rmi t) = h \<and> m_stack t = [b]"
proof -
  let ?S = "\<lparr>l_groups = Map.empty, l_scopes = Map.empty, l_next = 0, l_next_index = 0, l_world = st_world s\<rparr>"
  obtain t where t: "connect_task X flags ?S = (Inr t, ?S)" "cl_hwloc (m_rmi t) = h" "m_stack t = [b]"
    using connect_task_ok [of X srv flags h b ?S] assms by auto
  then have "connect_to_server (x_rmi X) (x_gpu X) (x_io X) (x_getenv X) (x_fs1 X) (x_fs2 X) (x_sock X) (x_tid X) flags
      \<lparr>m_rmi = x_client0 X, m_stack = []\<rparr> (st_world s) = (Inr t, st_world s)"
    by (auto simp: connect_task_def on_world_def throw_rc_def split: prod.splits sum.splits fail.splits)
  then show ?thesis using t by (simp add: mpi_connect_task_def mpi_world_def)
qed

lemma admin_state_world: "st_world ((admin_state M p ns (intrinsic_state M node p ms s))\<lparr>st_daemons := d\<rparr>) = st_world s"
  by (simp add: admin_state_def intrinsic_state_def Let_def)

lemma qvi_mpi_new_world:
  assumes "mpi_start_ok M node P c ms s" "qvi_mpi_new M P (Some c) s = (Inr (), s')"
  shows "st_world s' = st_world s"
proof -
  have "s' = (admin_state M (P_me P) (node_procs node (P_me P) ms) (intrinsic_state M node (P_me P) ms s))\<lparr>st_daemons := st_daemons s'\<rparr>"
    using qvi_mpi_new_ok [OF assms] by (simp add: Let_def)
  then show ?thesis by (rule ssubst) (rule admin_state_world)
qed

lemma barrier_tests_done: "barrier_tests n True = QV_SUCCESS"
  by (induction n) simp_all

lemma start_daemons_run:
  assumes "m_mpi_comm (m_node_rep_comm (st_ctx s)) = Some h"
    and "get_portno_from_env M P (m_node_rep_comm (st_ctx s)) QVI_PORT_UNSET s = (Inr (QV_SUCCESS, port), s)"
    and "start_or_join P port = Inr (QV_SUCCESS, started)"
    and "m_mpi_comm (m_node_comm (st_ctx s)) = Some h'" "st_live s h' = Some ms" "mpi_ibarrier M ms = Some (n, True)"
  shows "\<exists>s'. m_start_daemons M P s = (Inr (), s')"
  using assms
  by (simp add: m_start_daemons_def Let_def MPI_COMM_NULL_def sbind_Inr_iff sres_def sleepy_node_barrier_def sret_def barrier_tests_done check_rc_def)

lemma split_children:
  assumes "mpi_comm_laws M node" "m_mpi_comm (qvcomm parent) = Some c" "st_live s c = Some ms" "p \<in> set ms" "colors p \<noteq> None"
    and "\<forall>i < length ms. ckeys (ms ! i) = int i" "st_live s (st_next s) = None" "st_live s (Suc (st_next s)) = None"
    and "\<forall>k \<in> set (om_keys (m_group_tab (st_ctx s))). k < st_gid s"
    and "group_from_split M p colors ckeys parent s = (Inr g, s')"
  shows "group_stands s' p (filter (\<lambda>q. colors q = colors p \<and> node q = node p) ms) g \<and>
    group_from_group_id (st_gid s) s' = (Inr g, s') \<and> st_live s' c = Some ms"
proof -
  let ?ms = "filter (\<lambda>q. colors q = colors p) ms"
  have "sorted (map ckeys ms)" using assms(6) by (simp add: sorted_iff_nth_mono)
  then have "sort_key ckeys ?ms = ?ms" by (intro sort_key_id_if_sorted sorted_filter)
  then have eq: "filter (\<lambda>q. node q = node p) (sort_key ckeys ?ms) = filter (\<lambda>q. colors q = colors p \<and> node q = node p) ms"
    by (simp add: conj_commute)
  define procs where "procs = filter (\<lambda>q. colors q = colors p \<and> node q = node p) ms"
  have g: "ranked M p procs" "g = \<lparr>qvcomm = comm_rec M p (Suc (st_next s)) procs\<rparr>"
    and live: "st_live s' = (st_live s)(st_next s := None, Suc (st_next s) := Some procs)"
    and tab: "m_group_tab (st_ctx s') = om_insert (st_gid s) g (m_group_tab (st_ctx s))"
    using group_from_split_ok [OF assms(1-5,10)] by (simp_all add: eq Let_def procs_def)
  have "group_stands s' p procs g" unfolding g(2)
    by (rule group_stands_rec [OF assms(1) g(1)]) (use assms(4) live in \<open>auto simp: procs_def\<close>)
  moreover have "group_from_group_id (st_gid s) s' = (Inr g, s')"
    using tab assms(9) by (auto simp: group_from_group_id_def om_insert_def split: option.splits dest!: map_of_SomeD)
  moreover have "st_live s' c = Some ms" using live assms(3,7,8) by auto
  ultimately show ?thesis by (simp add: procs_def)
qed

section \<open>A concrete job\<close>

text \<open>Four processes on two nodes; no daemon runs yet.\<close>

definition demo_node :: "nat \<Rightarrow> nat" where
  "demo_node q = q div 2"

definition demo_job :: mpi_env where
  "demo_job =
     \<lparr>mpi_initialized = Some True, mpi_dup = Some, mpi_size = (\<lambda>ms. Some (int (length ms))),
      mpi_rank = (\<lambda>p ms. Some (int (length (takeWhile (\<lambda>q. q \<noteq> p) ms)))),
      mpi_split = (\<lambda>ms colors ckeys p. Some (if colors p = None then None else Some (sort_key ckeys (filter (\<lambda>q. colors q = colors p) ms)))),
      mpi_split_shared = (\<lambda>ms p. Some (filter (\<lambda>q. demo_node q = demo_node p) ms)),
      mpi_allgather = (\<lambda>ms f. Some (map f ms)), mpi_allreduce_lor = (\<lambda>ms f. Some (\<exists>q \<in> set ms. f q)),
      mpi_ibarrier = (\<lambda>ms. Some (2, True))\<rparr>"

definition demo_mpi_proc :: "nat \<Rightarrow> mpi_proc" where
  "demo_mpi_proc p = \<lparr>P_me = p, P_pid = (\<lambda>q. 42 + int q), P_getenv = (\<lambda>q v. None), P_admin_color = (\<lambda>q. if even q then Some 0 else None),
     P_admin_key = int, P_fs = (\<lambda>n. \<lparr>proc_dir = None, proc_file = (\<lambda>f. Missing)\<rparr>), P_fork = Some 7, P_exec = (\<lambda>argv. True)\<rparr>"

definition demo_mpi_state :: "nat \<Rightarrow> nat list \<Rightarrow> rmi_world mpi_state" where
  "demo_mpi_state p ms = \<lparr>st_live = [0 \<mapsto> [p], 1 \<mapsto> ms], st_next = 2, st_gid = group_id_init, st_ctx = qvi_mpi_empty, st_daemons = [],
     st_world = demo_world\<rparr>"

lemma demo_job_laws: "mpi_comm_laws demo_job demo_node"
proof -
  have "nat (int (length (takeWhile (\<lambda>q. q \<noteq> p) ms))) < length ms \<and> ms ! nat (int (length (takeWhile (\<lambda>q. q \<noteq> p) ms))) = p"
    if "p \<in> set ms" for p :: nat and ms
    using that nth_length_takeWhile [of "\<lambda>q. q \<noteq> p" ms] takeWhile_neq_rev
    by (metis (mono_tags, lifting) length_takeWhile_le le_neq_implies_less nat_int set_takeWhileD takeWhile_eq_all_conv takeWhile_eq_take take_all_iff order_refl)
  then show ?thesis by (auto simp: mpi_comm_laws_def demo_job_def)
qed

lemma demo_mpi_start:
  "mpi_start_ok demo_job demo_node (demo_mpi_proc 0) 1 [0, 1, 2, 3] (demo_mpi_state 0 [0, 1, 2, 3])"
  by (simp add: mpi_start_ok_def demo_job_laws)
    (simp add: demo_mpi_state_def demo_mpi_proc_def node_procs_def demo_node_def demo_job_def admin_color_def)

lemma demo_no_session: "qvi_session_discover (P_fs (demo_mpi_proc p)) 16 port = Inr (QV_ERR_FILE_IO, port, 5)"
  by (simp add: qvi_session_discover_def discover_with_backoff_def Let_def backoff_loop.simps discover_impl_def demo_mpi_proc_def qvi_running_def)

lemma demo_proc_simps:
  "P_me (demo_mpi_proc p) = p" "P_getenv (demo_mpi_proc p) q v = None" "P_fork (demo_mpi_proc p) = Some 7" "P_exec (demo_mpi_proc p) argv"
  by (simp_all add: demo_mpi_proc_def)

lemma demo_context:
  "\<exists>s. qvi_mpi_new demo_job (demo_mpi_proc 0) (Some 1) (demo_mpi_state 0 [0, 1, 2, 3]) = (Inr (), s)"
proof -
  let ?M = "demo_job" and ?P = "demo_mpi_proc 0" and ?ms = "[0, 1, 2, 3] :: nat list"
  let ?s0 = "(demo_mpi_state 0 ?ms)\<lparr>st_ctx := qvi_mpi_empty\<rparr>"
  have 1: "\<exists>s1. m_create_intrinsic_comms ?M 0 (Some 1) ?s0 = (Inr (), s1)"
    by (simp add: m_create_intrinsic_comms_def mpi_comm_to_new_node_comm_def qvi_mpi_comm_new_def comm_dup_def sret_def sbind_def comm_at_def
        mpi_or_def sres_def new_comm_def upd_ctx_def MPI_COMM_SELF_def demo_job_def demo_mpi_state_def)
  have 2: "\<exists>s2. m_create_intrinsic_groups s1 = (Inr (), s2)" for s1 :: "rmi_world mpi_state"
    by (simp add: m_create_intrinsic_groups_def sbind_Inr_iff add_group_ok QVI_MPI_GROUP_NULL_def QVI_MPI_GROUP_SELF_def
        QVI_MPI_GROUP_NODE_def QVI_MPI_GROUP_WORLD_def)
  let ?s2 = "intrinsic_state ?M demo_node 0 ?ms (demo_mpi_state 0 ?ms)"
  have 3: "\<exists>s3. m_create_admin_comms ?M ?P ?s2 = (Inr (), s3)"
    by (simp add: m_create_admin_comms_def intrinsic_state_def Let_def demo_mpi_proc_def comm_rec_def sbind_Inr_iff qvi_mpi_comm_new_def sret_def
        add_group_ok demo_mpi_state_def demo_job_def demo_node_def admin_color_def QVI_MPI_GROUP_NULL_def group_id_init_def SIZE_MAX_def)
  let ?s3 = "admin_state ?M 0 [0, 1] ?s2"
  have 4: "\<exists>s4. m_start_daemons ?M ?P ?s3 = (Inr (), s4)"
  proof (rule start_daemons_run)
    have live: "st_live ?s3 5 = Some [0]" "st_live ?s3 2 = Some [0, 1]"
      by (simp_all add: admin_state_def intrinsic_state_def demo_mpi_state_def demo_node_def Let_def)
    have rep: "m_node_rep_comm (st_ctx ?s3) = comm_rec ?M 0 5 [0]"
      by (simp add: admin_state_def intrinsic_state_def demo_mpi_state_def Let_def)
    then show "m_mpi_comm (m_node_rep_comm (st_ctx ?s3)) = Some 5" by (simp add: comm_rec_def)
    have "mpi_allreduce_lor ?M [0] (\<lambda>q. qvi_envset (P_getenv ?P q) QVI_ENV_PORT) = Some False"
      by (simp add: demo_job_def qvi_envset_def demo_proc_simps)
    then show "get_portno_from_env ?M ?P (m_node_rep_comm (st_ctx ?s3)) QVI_PORT_UNSET ?s3 = (Inr (QV_SUCCESS, QVI_PORT_UNSET), ?s3)"
      using live unfolding rep by (simp add: get_portno_from_env_def sbind_Inr_iff sret_def comm_rec_def)
    show "start_or_join ?P QVI_PORT_UNSET = Inr (QV_SUCCESS, Some (qvi_start_quo_vadisd_argss 57550))"
      by (simp add: start_or_join_def demo_no_session demo_proc_simps qvi_start_quo_vadisd_def)
    show "m_mpi_comm (m_node_comm (st_ctx ?s3)) = Some 2"
      by (simp add: admin_state_def intrinsic_state_def demo_mpi_state_def comm_rec_def Let_def)
    show "st_live ?s3 2 = Some [0, 1]" by (rule live)
    show "mpi_ibarrier ?M [0, 1] = Some (2, True)" by (simp add: demo_job_def)
  qed
  obtain s1 s2 where s12: "m_create_intrinsic_comms ?M 0 (Some 1) ?s0 = (Inr (), s1)" "m_create_intrinsic_groups s1 = (Inr (), s2)" using 1 2 by blast
  have start: "mpi_start_ok ?M demo_node ?P 1 ?ms ?s0" using demo_mpi_start by (simp add: mpi_start_ok_def)
  have c: "s2 = ?s2" "ranked ?M 0 [0, 1]"
    using create_intrinsic_ok [OF demo_job_laws _ _ _ _ _ s12] start
    by (simp_all add: mpi_start_ok_def demo_proc_simps intrinsic_state_def demo_node_def Let_def)
  obtain s3 where s3: "m_create_admin_comms ?M ?P ?s2 = (Inr (), s3)" using 3 by blast
  have "s3 = ?s3"
    using create_admin_ok [OF start refl _ _ _ s3, of "st_next ?s0"] c(2)
    by (simp add: demo_proc_simps node_procs_def demo_node_def intrinsic_state_def Let_def)
  then show ?thesis using s12 s3 4 c(1)
    by (simp add: qvi_mpi_new_def sbind_Inr_iff demo_proc_simps) (simp add: demo_job_def)
qed

section \<open>Properties\<close>

text \<open>Splitting a group of processes. When every process passes its rank as the key, as
  \<^verbatim>\<open>qv_scope::split\<close> does, the child group of a process consists of the processes of the parent with its
  colour that run on its node, in the parent's order; the process knows its rank and the size, the group is
  in the table under a new identifier, and the parent's communicator stays valid.\<close>

theorem mpi_split_children:
  assumes "mpi_comm_laws M node" "m_mpi_comm (qvcomm parent) = Some c" "st_live s c = Some ms" "p \<in> set ms" "colors p \<noteq> None"
    and "\<forall>i < length ms. ckeys (ms ! i) = int i" "st_live s (st_next s) = None" "st_live s (Suc (st_next s)) = None"
    and "\<forall>k \<in> set (om_keys (m_group_tab (st_ctx s))). k < st_gid s"
    and "group_from_split M p colors ckeys parent s = (Inr g, s')"
  shows "group_stands s' p (filter (\<lambda>q. colors q = colors p \<and> node q = node p) ms) g \<and>
    group_from_group_id (st_gid s) s' = (Inr g, s') \<and> st_live s' c = Some ms"
  by (rule split_children [OF assms])

text \<open>C25: The daemons of a node. Of the processes on a node only the first of the initialising communicator starts a
  daemon, and only if it discovers none; the port is the one in its own environment, or 57550. (The
  communicator of the "node representatives" is made by splitting the node's communicator, so the
  environments on the other nodes are never consulted.)\<close>

theorem one_daemon_per_node:
  assumes "mpi_start_ok M node P c ms s" "qvi_mpi_new M P (Some c) s = (Inr (), s')"
  shows "(P_me P \<noteq> hd (node_procs node (P_me P) ms) \<longrightarrow> st_daemons s' = st_daemons s) \<and>
    (P_me P = hd (node_procs node (P_me P) ms) \<longrightarrow>
      (\<exists>port rc port' n. qvi_port_from_env (P_getenv P (P_me P)) = Inr port \<and> qvi_session_discover (P_fs P) 16 port = Inr (rc, port', n) \<and>
         st_daemons s' = st_daemons s @
           (let argv = qvi_start_quo_vadisd_argss (if port \<noteq> QVI_PORT_UNSET then port else 57550)
            in if rc \<noteq> QV_SUCCESS \<and> P_exec P argv then [argv] else [])))"
proof -
  let ?p = "P_me P" and ?s1 = "admin_state M (P_me P) (node_procs node (P_me P) ms) (intrinsic_state M node (P_me P) ms s)"
  have law: "mpi_comm_laws M node" using assms(1) by (simp add: mpi_start_ok_def)
  have start: "m_start_daemons M P ?s1 = (Inr (), s')" using qvi_mpi_new_ok [OF assms] by (simp add: Let_def)
  have same: "st_daemons ?s1 = st_daemons s" by (simp add: admin_state_def intrinsic_state_def Let_def)
  show ?thesis
  proof (cases "?p = hd (node_procs node ?p ms)")
    case False
    then show ?thesis using start_daemons_steps(2) [OF start] same
      by (simp add: admin_state_def intrinsic_state_def qvi_mpi_empty_def qvi_mpi_comm_default_def MPI_COMM_NULL_def Let_def)
  next
    case True
    then have rep: "m_node_rep_comm (st_ctx ?s1) = comm_rec M ?p (st_next s + 3) [?p]" "st_live ?s1 (st_next s + 3) = Some [?p]"
      by (simp_all add: admin_state_def intrinsic_state_def Let_def)
    obtain port started s2 where "get_portno_from_env M P (comm_rec M ?p (st_next s + 3) [?p]) QVI_PORT_UNSET ?s1 = (Inr (QV_SUCCESS, port), s2)"
      and st: "start_or_join P port = Inr (QV_SUCCESS, started)" "st_daemons s' = st_daemons s @ (case started of None \<Rightarrow> [] | Some argv \<Rightarrow> [argv])"
      using start_daemons_steps(3) [OF start] rep(1) same by (auto simp: comm_rec_def)
    with portno_alone [OF law rep(2)] have "qvi_port_from_env (P_getenv P ?p) = Inr port" by blast
    then show ?thesis using True start_or_join_ok [OF st(1)] st(2) by auto
  qed
qed

text \<open>C24: An MPI context frees every communicator it has made. However many groups have been made or have failed
  to be made with an error code, the destructor succeeds and leaves the communicators that were valid
  before the context was created, and no others.\<close>

theorem mpi_context_frees_all:
  assumes "ctx_reachable M P L s"
  shows "\<exists>s'. qvi_mpi_delete s = (Inr (), s') \<and> st_live s' = L"
proof -
  have inv: "ctx_inv L s" using reachable_ctx_inv [OF assms] .
  then have "free_groups (m_group_tab (st_ctx s)) s =
      (Inr (), s\<lparr>st_live := (\<lambda>c. if Some c \<in> set (tab_comms (st_ctx s)) then None else st_live s c)\<rparr>)"
    using free_groups_ok [of "m_group_tab (st_ctx s)" s] by (auto simp: ctx_inv_def tab_comms_def)
  moreover have "(\<lambda>c. if Some c \<in> set (tab_comms (st_ctx s)) then None else st_live s c) = L"
    using inv by (auto simp: ctx_inv_def fun_eq_iff)
  ultimately show ?thesis by (simp add: qvi_mpi_delete_def)
qed

text \<open>C21: An intrinsic MPI scope. A process whose context was made and that can reach the server gets a scope whose
  group stands for the processes of its node (for the process scope: itself) and whose pool is the one
  that the server computes for exactly their process ids.\<close>

theorem mpi_scope_created:
  assumes "mpi_start_ok M node P c ms s" "qvi_mpi_new M P (Some c) s = (Inr (), s1)"
    and "connectable X srv flags h b (st_world s)" "x_mem X 0"
    and "mpi_group_type iscope = Some gid" "procs = intrinsic_procs node (P_me P) ms gid" "mpi_allgather M procs (P_pid P) \<noteq> None"
    and "intrinsic_hwpool (e_lib (x_rmi X)) srv (m_flags h) (map (P_pid P) procs) iscope (w_binds (st_world s)) = Inr pool"
    and "sendable (x_rmi X) [Vflags (m_flags h), Vpids (map (P_pid P) procs), Viscope iscope, Vflags flags]"
    and "sendable (x_rmi X) [Vrc QV_SUCCESS, Vpool pool]"
  shows "\<exists>g s'. qv_mpi_scope X M P (Some c) iscope flags True s = (Inr (g, pool), s') \<and> group_stands s' (P_me P) procs (gm_mpi_group g) \<and>
    bind_top (gm_task g) = Inr b \<and> gm_created_mpi_ctx g"
proof -
  have w: "st_world s1 = st_world s" using qvi_mpi_new_world [OF assms(1,2)] .
  have env: "env_ok (x_rmi X)" "w_running (st_world s)" "x_sock X = server_socket (x_rmi X) srv" using assms(3) by (auto simp: connectable_def)
  obtain t where t: "mpi_connect_task X flags s1 = (Inr t, s1)" "cl_hwloc (m_rmi t) = h" "m_stack t = [b]"
    using mpi_connect_ok [of X srv flags h b s1] assms(3) w by auto
  have "gid \<in> {QVI_MPI_GROUP_SELF, QVI_MPI_GROUP_NODE, QVI_MPI_GROUP_WORLD}" using assms(5) by (cases iscope) auto
  from context_groups [OF assms(1,2) this] obtain g
    where g: "group_from_group_id gid s1 = (Inr g, s1)" "group_stands s1 (P_me P) procs g" using assms(6) by blast
  have "mpi_allgather M procs (P_pid P) = Some (map (P_pid P) procs)"
    using assms(1,7) mpi_lawsD(4) [of M node procs "P_pid P"] by (auto simp: mpi_start_ok_def)
  then have pids: "mpi_group_pids M P g s1 = (Inr (map (P_pid P) procs), s1)"
    using g(2) by (auto simp: mpi_group_pids_def sbind_Inr_iff group_stands_def)
  have "client_get_intrinsic_hwpool (x_rmi X) (x_sock X) (m_rmi t) (map (P_pid P) procs) iscope flags (st_world s1) = (Inr pool, st_world s1)"
    using client_get_intrinsic_hwpool_eq [OF env(1,2)] env(3) t(2) assms(8-10) w by auto
  then have "qv_mpi_scope X M P (Some c) iscope flags True s =
      (Inr (\<lparr>gm_flags = flags, gm_task = t, gm_created_mpi_ctx = True, gm_mpi_group = g\<rparr>, pool), s1)"
    using assms(2,4,5) t(1) g(1) pids
    by (simp add: qv_mpi_scope_def MPI_COMM_NULL_def scatch_Inr_iff sbind_Inr_iff qvi_group_mpi_new_def sret_def mpi_make_intrinsic_def
        group_mpi_make_intrinsic_def mpi_world_def)
  then show ?thesis using g(2) t(3) by (auto simp: bind_top_def)
qed

section \<open>Witnesses\<close>

theorem one_daemon_per_node_witness:
  "\<exists>s'. qvi_mpi_new demo_job (demo_mpi_proc 0) (Some 1) (demo_mpi_state 0 [0, 1, 2, 3]) = (Inr (), s') \<and>
     st_daemons s' = [qvi_start_quo_vadisd_argss 57550]"
proof -
  obtain s' where s': "qvi_mpi_new demo_job (demo_mpi_proc 0) (Some 1) (demo_mpi_state 0 [0, 1, 2, 3]) = (Inr (), s')" using demo_context by blast
  have "0 = hd (node_procs demo_node 0 [0, 1, 2, 3])" by (simp add: node_procs_def demo_node_def)
  then have "st_daemons s' = [qvi_start_quo_vadisd_argss 57550]"
    using one_daemon_per_node [OF demo_mpi_start s']
    by (simp add: demo_proc_simps demo_no_session qvi_port_from_env_def demo_mpi_state_def Let_def)
  then show ?thesis using s' by blast
qed

theorem mpi_context_frees_all_witness:
  "\<exists>(s :: rmi_world mpi_state) s'. ctx_reachable demo_job (demo_mpi_proc 0) [0 \<mapsto> [0], 1 \<mapsto> [0, 1, 2, 3]] s \<and> tab_comms (st_ctx s) \<noteq> [] \<and>
     qvi_mpi_delete s = (Inr (), s') \<and> st_live s' = [0 \<mapsto> [0], 1 \<mapsto> [0, 1, 2, 3]]"
proof -
  obtain s where s: "qvi_mpi_new demo_job (demo_mpi_proc 0) (Some 1) (demo_mpi_state 0 [0, 1, 2, 3]) = (Inr (), s)" using demo_context by blast
  have "ctx_reachable demo_job (demo_mpi_proc 0) (st_live (demo_mpi_state 0 [0, 1, 2, 3])) s"
    by (rule ctx_reachable.created [OF demo_mpi_start s])
  then have r: "ctx_reachable demo_job (demo_mpi_proc 0) [0 \<mapsto> [0], 1 \<mapsto> [0, 1, 2, 3]] s" by (simp add: demo_mpi_state_def)
  moreover have "tab_comms (st_ctx s) \<noteq> []"
    using context_groups [OF demo_mpi_start s, of QVI_MPI_GROUP_SELF] by (auto simp: group_from_group_id_def tab_comms_def split: option.splits)
  ultimately show ?thesis using mpi_context_frees_all [OF r] by blast
qed

theorem mpi_split_children_witness:
  "\<exists>(s' :: rmi_world mpi_state) g. group_from_split demo_job 0 (\<lambda>q. Some (if q = 3 then 1 else 0)) int \<lparr>qvcomm = \<lparr>m_mpi_comm = Some 1, m_size = 4, m_rank = 0\<rparr>\<rparr>
       (demo_mpi_state 0 [0, 1, 2, 3]) = (Inr g, s') \<and> group_stands s' 0 [0, 1] g"
proof -
  let ?c = "\<lambda>q :: nat. Some (if q = 3 then 1 else 0 :: int)" and ?g = "\<lparr>qvcomm = \<lparr>m_mpi_comm = Some 1, m_size = 4, m_rank = 0\<rparr>\<rparr>"
  let ?s = "demo_mpi_state 0 [0, 1, 2, 3]"
  have g: "m_mpi_comm (qvcomm ?g) = Some 1" "st_live ?s 1 = Some [0, 1, 2, 3]" by (simp_all add: demo_mpi_state_def)
  obtain g s' where run: "group_from_split demo_job 0 ?c int ?g ?s = (Inr g, s')"
    by (simp add: group_from_split_def g sbind_def comm_at_def mpi_or_def sres_def new_comm_def on_rc_def group_from_mpi_comm_def
        mpi_comm_to_new_node_comm_def group_init_from_mpi_comm_def qvi_mpi_comm_new_def sret_def add_group_def next_id_def upd_ctx_def
        QVI_MPI_GROUP_NULL_def demo_job_def demo_mpi_state_def group_id_init_def SIZE_MAX_def)
  have keys: "\<forall>i < length [0, 1, 2, 3 :: nat]. int ([0, 1, 2, 3] ! i) = int i" by (simp add: numeral_eq_Suc less_Suc_eq all_conj_distrib)
  have "group_stands s' 0 (filter (\<lambda>q. ?c q = ?c 0 \<and> demo_node q = demo_node 0) [0, 1, 2, 3]) g"
    using mpi_split_children [OF demo_job_laws g, where p = 0 and colors = ?c and ckeys = int and g = g and s' = s'] run keys
    by (simp add: demo_mpi_state_def qvi_mpi_empty_def)
  then have "group_stands s' 0 [0, 1] g" by (simp add: demo_node_def)
  then show ?thesis using run by blast
qed

theorem mpi_scope_created_witness:
  "\<exists>g s'. qv_mpi_scope demo_X demo_job (demo_mpi_proc 0) (Some 1) QV_SCOPE_USER 0 True (demo_mpi_state 0 [0, 1, 2, 3]) =
       (Inr (g, qvi_hwpool_new {0..<4}), s') \<and> group_stands s' 0 [0, 1] (gm_mpi_group g)"
proof -
  obtain s1 where s1: "qvi_mpi_new demo_job (demo_mpi_proc 0) (Some 1) (demo_mpi_state 0 [0, 1, 2, 3]) = (Inr (), s1)" using demo_context by blast
  have procs: "intrinsic_procs demo_node (P_me (demo_mpi_proc 0)) [0, 1, 2, 3] QVI_MPI_GROUP_NODE = [0, 1]"
    by (simp add: intrinsic_procs_def QVI_MPI_GROUP_NODE_def QVI_MPI_GROUP_SELF_def node_procs_def demo_node_def demo_proc_simps)
  have pids: "map (P_pid (demo_mpi_proc 0)) [0, 1] = [42, 43]" by (simp add: demo_mpi_proc_def)
  have "sendable (demo_rmi_env demo_tab) [Vflags 1, Vpids [42, 43], Viscope QV_SCOPE_USER, Vflags 0]"
    "sendable (demo_rmi_env demo_tab) [Vrc QV_SUCCESS, Vpool (qvi_hwpool_new {0..<4})]"
    by (rule demo_sendable; simp add: demo_tab_def)+
  moreover have "mpi_allgather demo_job [0, 1] f \<noteq> None" for f by (simp add: demo_job_def)
  ultimately have "\<exists>g s'. qv_mpi_scope demo_X demo_job (demo_mpi_proc 0) (Some 1) QV_SCOPE_USER 0 True (demo_mpi_state 0 [0, 1, 2, 3]) =
       (Inr (g, qvi_hwpool_new {0..<4}), s') \<and> group_stands s' (P_me (demo_mpi_proc 0)) [0, 1] (gm_mpi_group g) \<and>
       bind_top (gm_task g) = Inr {0, 2, 3} \<and> gm_created_mpi_ctx g"
    using demo_connectable demo_intrinsic demo_task_facts(3) pids
    by (intro mpi_scope_created [OF demo_mpi_start s1, where srv = demo_server and h = "demo_hwloc 4" and gid = QVI_MPI_GROUP_NODE])
      (simp_all add: procs [simplified] demo_mpi_state_def demo_X_def del: demo_rmi_env_simps)
  then show ?thesis by (auto simp: demo_proc_simps)
qed

end
