(* ===== verification/QV_Mpi_Scope.thy ===== *)
theory QV_Mpi_Scope
  imports QV_Mpi
begin

text \<open>
  Splitting the scope of an MPI group (\<^verbatim>\<open>qv_scope::split\<close> on a \<^verbatim>\<open>qvi_group_mpi\<close>): the
  collective split of the hardware, then the split of the communicator by the colours it returned. This
  composes \<open>QV_Split\<close>, which sees all members at once, with \<open>QV_Mpi\<close>, which follows one process.
\<close>

section \<open>The operation\<close>

text \<open>
  The colour and the key that each process of the group passes on: its new colour and its rank. \<open>members\<close> is
  what the processes bring to the call, in rank order.
\<close>

definition split_color :: "nat list \<Rightarrow> (int \<times> qvi_hwpool) list \<Rightarrow> nat \<Rightarrow> int option" where
  "split_color procs cps = map_of (zip procs (map fst cps))"

definition split_key :: "nat list \<Rightarrow> nat \<Rightarrow> int" where
  "split_key procs q = int (length (takeWhile (\<lambda>q'. q' \<noteq> q) procs))"

definition mpi_scope_split ::
  "'w scope_env \<Rightarrow> mpi_env \<Rightarrow> mpi_proc \<Rightarrow> split_group \<Rightarrow> split_member list \<Rightarrow> qvi_group_mpi \<Rightarrow> ('w, qvi_group_mpi \<times> qvi_hwpool) mpi_op" where
  "mpi_scope_split X M P G members g =
     sbind (comm_at (m_mpi_comm (qvcomm (gm_mpi_group g)))) (\<lambda>procs.
       case hwsplit_split (x_rmi X) (cl_hwloc (m_rmi (gm_task g))) G members of
         Split_broken f \<Rightarrow> sres (Inl f)
       | Split_error c \<Rightarrow> sres (Inl (Rc c))
       | Split_ok cps \<Rightarrow>
           sbind (sres (vec_ix cps (nat (m_rank (qvcomm (gm_mpi_group g)))))) (\<lambda>(colorp, hwpool).
           sbind (group_mpi_split X M P (split_color procs cps) (split_key procs) g) (\<lambda>child.
             if x_mem X 0 then sret (child, hwpool) else sres (Inl (Rc QV_ERR)))))"

section \<open>Lemmas\<close>

text \<open>A request that the collective split accepts (for the exact conditions see \<open>QV_Split\<close>).\<close>

definition split_request ::
  "mpi_lib \<Rightarrow> rmi_env \<Rightarrow> qvi_hwloc \<Rightarrow> split_member list \<Rightarrow> bitmap list \<Rightarrow> qvi_hwpool \<Rightarrow> bitmap \<Rightarrow> nat \<Rightarrow> bool" where
  "split_request C E h ms affs u b k \<longleftrightarrow>
     mpi_laws C \<and> env_ok E \<and> bitmap_laws (e_lib E) \<and> topology_laws (m_topo h) \<and> map sm_bind_top ms = map Inr affs \<and>
     (\<forall>m \<in> set ms. hwpool_ok (sm_hwpool m)) \<and> (\<forall>xs \<in> set (split_messages (e_lib E) h ms affs). transferable E xs) \<and>
     set_union (e_lib E) (map sm_hwpool ms) = Inr u \<and> (\<forall>t. length (hwpool_devices u t) < 2 ^ 31) \<and>
     (\<exists>t'. m_primary_cpuset_for_split (e_lib E) (root_hwsplit ms affs u) (sm_type (hd ms)) = Inr (t', b)) \<and>
     k = min (sm_npieces (hd ms)) (length ms) \<and> 0 < k \<and> k \<le> length (pus_inside h b) \<and> length (pus_inside h b) < 2 ^ 31 \<and>
     length ms < 2 ^ 31 \<and> valid_coloring k (map sm_color ms)"

lemma split_request_result:
  assumes "split_request C E h ms affs u b k"
  shows "\<exists>colors pools. hwsplit_split E h (mpi_split_group C (Inr ()) E) ms = Split_ok (zip colors pools) \<and>
    split_result_ok (length ms) u (map (split_piece h b k) [0..<k]) colors pools"
proof -
  obtain t' where "m_primary_cpuset_for_split (e_lib E) (root_hwsplit ms affs u) (sm_type (hd ms)) = Inr (t', b)"
    using assms by (auto simp: split_request_def)
  with assms show ?thesis
    by (intro collective_split_result [where affs = affs and t' = t' and n = "length ms"]) (auto simp: split_request_def)
qed

lemma pieces_equal_iff:
  assumes "topology_laws (m_topo h)" "0 < k" "k \<le> length (pus_inside h b)" "i < k" "j < k"
  shows "(split_piece h b k i = split_piece h b k j \<longleftrightarrow> i = j) \<and> (i \<noteq> j \<longrightarrow> split_piece h b k i \<inter> split_piece h b k j = {})"
  using split_piece_disjoint [OF assms(1,2,4,5)] split_piece_nonempty [OF assms(2,3,4)] by auto

text \<open>Every call of MPI succeeds.\<close>

definition mpi_succeeds :: "mpi_env \<Rightarrow> bool" where
  "mpi_succeeds M \<longleftrightarrow> (\<forall>ms. mpi_size M ms \<noteq> None) \<and> (\<forall>p ms. mpi_rank M p ms \<noteq> None) \<and>
     (\<forall>ms colors ckeys p. mpi_split M ms colors ckeys p \<noteq> None) \<and> (\<forall>ms p. mpi_split_shared M ms p \<noteq> None)"

lemma group_from_split_run:
  assumes "mpi_comm_laws M node" "mpi_succeeds M" "m_mpi_comm (qvcomm parent) = Some c" "st_live s c = Some ms" "p \<in> set ms"
    and "colors p \<noteq> None" "st_gid s \<noteq> SIZE_MAX"
  shows "\<exists>g s'. group_from_split M p colors ckeys parent s = (Inr g, s')"
proof -
  let ?ms1 = "sort_key ckeys (filter (\<lambda>q. colors q = colors p) ms)"
  obtain r where "mpi_split M ms colors ckeys p = Some r" using assms(2) by (force simp: mpi_succeeds_def)
  then have split: "mpi_split M ms colors ckeys p = Some (Some ?ms1)" using mpi_lawsD(3) [OF assms(1,5)] assms(6) by fastforce
  obtain ms2 where shared: "mpi_split_shared M ?ms1 p = Some ms2" using assms(2) by (force simp: mpi_succeeds_def)
  have "ranked M p ms2" using assms(2) by (simp add: mpi_succeeds_def ranked_def)
  then show ?thesis
    using split shared assms(3,4,7)
    by (simp add: group_from_split_def sbind_Inr_iff on_rc_Inr_iff group_from_mpi_comm_def mpi_comm_to_new_node_comm_def
        group_init_from_mpi_comm_def comm_new_ok add_group_ok QVI_MPI_GROUP_NULL_def sret_def)
qed

lemma split_key_nth: "distinct procs \<Longrightarrow> i < length procs \<Longrightarrow> split_key procs (procs ! i) = int i"
proof (induction procs arbitrary: i)
  case (Cons p procs)
  then show ?case by (cases i) (auto simp: split_key_def)
qed (simp add: split_key_def)

lemma split_color_nth:
  "distinct procs \<Longrightarrow> length cps = length procs \<Longrightarrow> i < length procs \<Longrightarrow> split_color procs cps (procs ! i) = Some (fst (cps ! i))"
  by (simp add: split_color_def map_of_zip_nth)

text \<open>Two processes pass on the same colour exactly when they have received the same piece.\<close>

lemma split_color_piece:
  assumes "split_result_ok n u (map (split_piece h b k) [0..<k]) colors pools" "distinct procs" "length procs = n"
    and "topology_laws (m_topo h)" "0 < k" "k \<le> length (pus_inside h b)" "i < n" "r < n"
  defines "cps \<equiv> zip colors pools"
  shows "(split_color procs cps (procs ! i) = split_color procs cps (procs ! r) \<longleftrightarrow>
      hwpool_cpuset (snd (cps ! i)) = hwpool_cpuset (snd (cps ! r))) \<and>
    (split_color procs cps (procs ! i) \<noteq> split_color procs cps (procs ! r) \<longrightarrow>
      hwpool_cpuset (snd (cps ! i)) \<inter> hwpool_cpuset (snd (cps ! r)) = {})"
proof -
  have len: "length colors = n" "length pools = n" "length cps = length procs" using assms(1,3) by (simp_all add: split_result_ok_def cps_def)
  have "\<exists>c < k. fst (cps ! j) = int c \<and> hwpool_cpuset (snd (cps ! j)) = split_piece h b k c" if "j < n" for j
    using assms(1) that len by (auto simp: split_result_ok_def cps_def)
  from this [OF assms(7)] this [OF assms(8)] obtain ci cr
    where cc: "ci < k" "fst (cps ! i) = int ci" "hwpool_cpuset (snd (cps ! i)) = split_piece h b k ci"
      "cr < k" "fst (cps ! r) = int cr" "hwpool_cpuset (snd (cps ! r)) = split_piece h b k cr" by blast
  have "split_color procs cps (procs ! i) = Some (int ci)" "split_color procs cps (procs ! r) = Some (int cr)"
    using split_color_nth [OF assms(2) len(3)] assms(3,7,8) cc by metis+
  then show ?thesis using pieces_equal_iff [OF assms(4-6) cc(1,4)] cc by simp
qed

section \<open>Properties\<close>

text \<open>C2: After the split of an MPI scope, the group of a process is exactly the set of processes that have received
  the same CPU set, and the CPU sets of the other processes are disjoint from it. The collective split of the
  hardware and the split of the communicator agree: for an accepted request on a node's group, the call
  returns the new scope, its group stands for the processes with the same piece, and its pool is that piece.\<close>

theorem mpi_scope_split_pieces:
  assumes "split_request C (x_rmi X) h members affs u b k" "cl_hwloc (m_rmi (gm_task g)) = h" "length members = length procs"
    and "mpi_comm_laws M node" "mpi_succeeds M" "group_stands s (P_me P) procs (gm_mpi_group g)" "distinct procs"
    and "\<forall>q \<in> set procs. node q = node (P_me P)" "connectable X srv (gm_flags g) h' bb (st_world s)" "x_mem X 0"
    and "\<forall>c. st_live s c \<noteq> None \<longrightarrow> c < st_next s" "\<forall>i \<in> set (om_keys (m_group_tab (st_ctx s))). i < st_gid s" "st_gid s \<noteq> SIZE_MAX"
  shows "\<exists>cps child pool procs' s'. hwsplit_split (x_rmi X) h (mpi_split_group C (Inr ()) (x_rmi X)) members = Split_ok cps \<and>
    mpi_scope_split X M P (mpi_split_group C (Inr ()) (x_rmi X)) members g s = (Inr (child, pool), s') \<and>
    length cps = length procs \<and> pool = snd (cps ! nat (m_rank (qvcomm (gm_mpi_group g)))) \<and>
    group_stands s' (P_me P) procs' (gm_mpi_group child) \<and>
    set procs' = {procs ! i |i. i < length procs \<and> hwpool_cpuset (snd (cps ! i)) = hwpool_cpuset pool} \<and>
    (\<forall>i < length procs. procs ! i \<notin> set procs' \<longrightarrow> hwpool_cpuset (snd (cps ! i)) \<inter> hwpool_cpuset pool = {})"
proof -
  let ?p = "P_me P" and ?rk = "nat (m_rank (qvcomm (gm_mpi_group g)))" and ?n = "length procs"
  let ?G = "mpi_split_group C (Inr ()) (x_rmi X)"
  obtain colors pools where split: "hwsplit_split (x_rmi X) h ?G members = Split_ok (zip colors pools)"
    and res: "split_result_ok ?n u (map (split_piece h b k) [0..<k]) colors pools"
    using split_request_result [OF assms(1)] assms(3) by auto
  define cps where "cps = zip colors pools"
  have len: "length colors = ?n" "length pools = ?n" "length cps = ?n" using res by (simp_all add: split_result_ok_def cps_def)
  have req: "topology_laws (m_topo h)" "0 < k" "k \<le> length (pus_inside h b)"
    using assms(1) unfolding split_request_def by blast+
  obtain c where c: "m_mpi_comm (qvcomm (gm_mpi_group g)) = Some c" "st_live s c = Some procs" and rk: "?rk < ?n" "procs ! ?rk = ?p"
    using assms(6) by (auto simp: group_stands_def)
  have pin: "?p \<in> set procs" using rk nth_mem by fastforce
  have same: "split_color procs cps (procs ! i) = split_color procs cps ?p \<longleftrightarrow> hwpool_cpuset (snd (cps ! i)) = hwpool_cpuset (snd (cps ! ?rk))"
    and disj: "split_color procs cps (procs ! i) \<noteq> split_color procs cps ?p \<Longrightarrow> hwpool_cpuset (snd (cps ! i)) \<inter> hwpool_cpuset (snd (cps ! ?rk)) = {}"
    if "i < ?n" for i
    using split_color_piece [OF res assms(7) refl req that rk(1), folded cps_def] rk(2) by simp_all
  have col: "split_color procs cps ?p \<noteq> None" using split_color_nth [OF assms(7) len(3) rk(1)] rk(2) by simp
  obtain t where t: "mpi_connect_task X (gm_flags g) s = (Inr t, s)" using mpi_connect_ok [OF assms(9)] by blast
  obtain grp s' where run: "group_from_split M ?p (split_color procs cps) (split_key procs) (gm_mpi_group g) s = (Inr grp, s')"
    using group_from_split_run [where colors = "split_color procs cps", OF assms(4,5) c pin col assms(13)] by blast
  let ?procs' = "filter (\<lambda>q. split_color procs cps q = split_color procs cps ?p \<and> node q = node ?p) procs"
  have fresh: "st_live s (st_next s) = None" "st_live s (Suc (st_next s)) = None" using assms(11) by (metis less_irrefl, metis Suc_n_not_le_n less_imp_le)
  have stands: "group_stands s' ?p ?procs' grp"
    using split_children [where colors = "split_color procs cps", OF assms(4) c pin col _ fresh assms(12) run] split_key_nth [OF assms(7)] by blast
  have op: "mpi_scope_split X M P ?G members g s =
      (Inr (\<lparr>gm_flags = gm_flags g, gm_task = t, gm_created_mpi_ctx = False, gm_mpi_group = grp\<rparr>, snd (cps ! ?rk)), s')"
    using split c rk(1) len(3) t run assms(2,10)
    by (simp add: mpi_scope_split_def sbind_Inr_iff sres_def vec_ix_def group_mpi_split_def qvi_group_mpi_child_def scatch_Inr_iff sret_def
        flip: cps_def split: prod.splits)
  have nd: "node (procs ! i) = node ?p" if "i < ?n" for i using assms(8) nth_mem [OF that] by blast
  have set: "set ?procs' = {procs ! i |i. i < ?n \<and> hwpool_cpuset (snd (cps ! i)) = hwpool_cpuset (snd (cps ! ?rk))}"
    using same nd by (auto simp: in_set_conv_nth)
  have rest: "\<forall>i < ?n. procs ! i \<notin> set ?procs' \<longrightarrow> hwpool_cpuset (snd (cps ! i)) \<inter> hwpool_cpuset (snd (cps ! ?rk)) = {}"
    using disj nd by auto
  show ?thesis
    using split [folded cps_def] op len(3) refl stands set rest
    by (intro exI [of _ cps] exI [of _ "\<lparr>gm_flags = gm_flags g, gm_task = t, gm_created_mpi_ctx = False, gm_mpi_group = grp\<rparr>"]
        exI [of _ "snd (cps ! ?rk)"] exI [of _ ?procs'] exI [of _ s'] conjI) (simp_all only: qvi_group_mpi.simps)
qed

section \<open>Witness\<close>

text \<open>Two processes on one node ask for two pieces of four processing units.\<close>

definition demo_members :: "split_member list" where
  "demo_members = map (demo_member 4 2) [7, 3]"

definition demo_mpi_tab :: "rpc_val list list" where
  "demo_mpi_tab = map (\<lambda>x. [x]) (concat (split_messages (e_lib (demo_rmi_env [])) (demo_hwloc 4) demo_members [{}, {}])) @ demo_tab"

definition demo_mpi_X :: "rmi_world scope_env" where
  "demo_mpi_X = demo_X\<lparr>x_rmi := demo_rmi_env demo_mpi_tab, x_sock := server_socket (demo_rmi_env demo_mpi_tab) demo_server\<rparr>"

definition demo_mpi_group :: qvi_group_mpi where
  "demo_mpi_group = \<lparr>gm_flags = 0, gm_task = \<lparr>m_rmi = demo_client, m_stack = []\<rparr>, gm_created_mpi_ctx = True,
     gm_mpi_group = \<lparr>qvcomm = \<lparr>m_mpi_comm = Some 1, m_size = 2, m_rank = 0\<rparr>\<rparr>\<rparr>"

lemma e_lib_demo: "e_lib (demo_rmi_env tab) = e_lib (demo_rmi_env [])"
  by (simp add: demo_rmi_env_def demo_env_def)

lemma transferable_demo: "transferable (demo_rmi_env tab) xs = transferable (demo_env tab) xs"
proof -
  have "e_archive (demo_rmi_env tab) = e_archive (demo_env tab)" by (simp add: demo_rmi_env_def)
  then show ?thesis by (simp add: transferable_def put_val_def)
qed

lemma demo_split_request:
  "split_request demo_mpi (demo_rmi_env demo_mpi_tab) (demo_hwloc 4) demo_members [{}, {}] (qvi_hwpool_new {0..<4}) {0..<4} 2 \<and>
   length demo_mpi_tab < 1000"
proof -
  let ?L = "e_lib (demo_rmi_env [])" and ?u = "qvi_hwpool_new {0..<4}" and ?affs = "[{}, {}] :: bitmap list"
  have laws: "bitmap_laws ?L" by (rule demo_laws)
  have p: "length (pus_inside (demo_hwloc 4) {0..<4}) = 4" using demo_pus [of 4 4] by simp
  have v: "valid_coloring 2 (map sm_color demo_members)"
    by (auto simp: valid_coloring_def demo_members_def demo_member_def card_insert_if)
  have un: "set_union ?L (map sm_hwpool demo_members) = Inr ?u"
    "m_primary_cpuset_for_split ?L (root_hwsplit demo_members ?affs ?u) (sm_type (hd demo_members)) = Inr (QV_HW_OBJ_PU, {0..<4})"
    by (rule member_union [OF laws, of _ 4 2 7 "[3]"]; simp add: demo_members_def)+
  have mem: "length demo_members = 2" "sm_npieces (hd demo_members) = 2" "map sm_bind_top demo_members = map Inr ?affs"
    "\<forall>m \<in> set demo_members. hwpool_ok (sm_hwpool m)"
    by (simp_all add: demo_members_def demo_member_def)
  have "length (m_colors hs') = 2 \<and> length (m_hwpools hs') = 2" if "m_split ?L (demo_hwloc 4) (root_hwsplit demo_members ?affs ?u) = Inr hs'" for hs'
  proof -
    have "\<exists>hs'. m_split ?L (demo_hwloc 4) (root_hwsplit demo_members ?affs ?u) = Inr hs' \<and>
        split_result_ok 2 (m_base_hwpool (root_hwsplit demo_members ?affs ?u)) (map (split_piece (demo_hwloc 4) {0..<4} 2) [0..<2])
          (m_colors hs') (m_hwpools hs')"
      by (rule m_split_correct [OF laws demo_topology_laws [of 4], of _ QV_HW_OBJ_PU])
        (use un p v mem in \<open>simp_all add: root_hwsplit_def\<close>)
    then show ?thesis using that by (auto simp: split_result_ok_def)
  qed
  then have len: "length (concat (split_messages ?L (demo_hwloc 4) demo_members ?affs)) < 900"
    using un(1) mem by (auto simp: split_messages_def split: sum.splits fail.splits)
  then have tab: "length demo_mpi_tab < 1000" by (simp add: demo_mpi_tab_def demo_tab_def)
  have "transferable (demo_env demo_mpi_tab) xs" if "xs \<in> set (split_messages ?L (demo_hwloc 4) demo_members ?affs)" for xs
    using that message_bounds [OF that len] tab by (intro table_transferable) (auto simp: demo_mpi_tab_def)
  then have "transferable (demo_rmi_env demo_mpi_tab) xs" if "xs \<in> set (split_messages ?L (demo_hwloc 4) demo_members ?affs)" for xs
    using that by (simp add: transferable_demo)
  then show ?thesis
    using un mem p v laws tab demo_mpi_laws demo_topology_laws [of 4]
    by (simp add: split_request_def e_lib_demo [of demo_mpi_tab])
qed

lemma demo_mpi_connectable: "connectable demo_mpi_X demo_server 0 (demo_hwloc 4) {0, 2, 3} demo_world"
proof -
  have "sendable (demo_rmi_env demo_mpi_tab) vs" if "vs \<in> set demo_tab" for vs
    using that demo_split_request sendable_demo [of vs demo_mpi_tab] by (simp add: demo_mpi_tab_def)
  then have "\<forall>vs \<in> set (connection_messages (demo_rmi_env demo_mpi_tab) demo_server 0 42 (demo_hwloc 4) {0, 2, 3}).
      sendable (demo_rmi_env demo_mpi_tab) vs"
    unfolding demo_connection_messages by (auto simp del: demo_rmi_env_simps simp: demo_tab_def)
  then show ?thesis
    using demo_connectable demo_client_topology [of demo_mpi_tab] by (auto simp: connectable_def demo_mpi_X_def demo_X_def)
qed

theorem mpi_scope_split_pieces_witness:
  "\<exists>child pool s'. mpi_scope_split demo_mpi_X demo_job (demo_mpi_proc 0) (mpi_split_group demo_mpi (Inr ()) (x_rmi demo_mpi_X)) demo_members
       demo_mpi_group (demo_mpi_state 0 [0, 1]) = (Inr (child, pool), s') \<and> m_mpi_comm (qvcomm (gm_mpi_group child)) \<noteq> None"
proof -
  have X: "x_rmi demo_mpi_X = demo_rmi_env demo_mpi_tab" "x_mem demo_mpi_X 0" by (simp_all add: demo_mpi_X_def demo_X_def)
  have g: "cl_hwloc (m_rmi (gm_task demo_mpi_group)) = demo_hwloc 4" "gm_flags demo_mpi_group = 0" by (simp_all add: demo_mpi_group_def demo_client_def)
  have st: "group_stands (demo_mpi_state 0 [0, 1]) (P_me (demo_mpi_proc 0)) [0, 1] (gm_mpi_group demo_mpi_group)"
    by (simp add: group_stands_def demo_mpi_state_def demo_mpi_proc_def demo_mpi_group_def)
  have len: "length demo_members = length [0, 1 :: nat]" by (simp add: demo_members_def)
  have ok: "mpi_succeeds demo_job" by (simp add: mpi_succeeds_def demo_job_def)
  have rest: "\<forall>q \<in> set [0, 1]. demo_node q = demo_node (P_me (demo_mpi_proc 0))"
    "\<forall>c. st_live (demo_mpi_state 0 [0, 1]) c \<noteq> None \<longrightarrow> c < st_next (demo_mpi_state 0 [0, 1])"
    "\<forall>i \<in> set (om_keys (m_group_tab (st_ctx (demo_mpi_state 0 [0, 1])))). i < st_gid (demo_mpi_state 0 [0, 1])"
    "st_gid (demo_mpi_state 0 [0, 1]) \<noteq> SIZE_MAX" "distinct [0, 1 :: nat]"
    by (auto simp: demo_mpi_state_def demo_mpi_proc_def demo_node_def qvi_mpi_empty_def group_id_init_def SIZE_MAX_def split: if_splits)
  have req: "split_request demo_mpi (x_rmi demo_mpi_X) (demo_hwloc 4) demo_members [{}, {}] (qvi_hwpool_new {0..<4}) {0..<4} 2"
    using demo_split_request X by simp
  have con: "connectable demo_mpi_X demo_server (gm_flags demo_mpi_group) (demo_hwloc 4) {0, 2, 3} (st_world (demo_mpi_state 0 [0, 1]))"
    using demo_mpi_connectable g(2) by (simp add: demo_mpi_state_def)
  obtain child pool procs' s' where "mpi_scope_split demo_mpi_X demo_job (demo_mpi_proc 0) (mpi_split_group demo_mpi (Inr ()) (x_rmi demo_mpi_X))
      demo_members demo_mpi_group (demo_mpi_state 0 [0, 1]) = (Inr (child, pool), s')"
    "group_stands s' (P_me (demo_mpi_proc 0)) procs' (gm_mpi_group child)"
    using mpi_scope_split_pieces [OF req g(1) len demo_job_laws ok st rest(5,1) con X(2) rest(2-4)] by blast
  then show ?thesis by (auto simp: group_stands_def)
qed

end
