(* ===== verification/QV_Bitmap.thy ===== *)
theory QV_Bitmap
  imports QV_Hwloc
begin

text \<open>
  The objects of the class \<^verbatim>\<open>qvi_hwloc_bitmap\<close> (\<^verbatim>\<open>qvi-hwloc.h\<close>) and the allocation helpers
  under them (\<^verbatim>\<open>qvi_hwloc::bitmap_calloc\<close> and the following functions of \<^verbatim>\<open>qvi-hwloc.cc\<close>), on
  an explicit heap. Each object owns one bitmap of hwloc through a pointer. The other theories take these
  objects as values, sets of processing units; the refinement proved here is what justifies that.

  hwloc is a parameter: which block the allocator returns, with which contents, and which copies succeed.
\<close>

section \<open>Memory\<close>

type_synonym bm_heap = "nat \<rightharpoonup> bitmap"

text \<open>\<open>hwloc_bitmap_copy\<close> maps the old contents of the destination and those of the source to the success of
  the call and the new contents of the destination.\<close>

record hwloc_mem =
  hwloc_bitmap_alloc :: "bm_heap \<Rightarrow> (nat \<times> bitmap) option"
  hwloc_bitmap_copy :: "bitmap \<Rightarrow> bitmap \<Rightarrow> bool \<times> bitmap"

definition mem_laws :: "hwloc_mem \<Rightarrow> bool" where
  "mem_laws M \<longleftrightarrow>
     (\<forall>h a b. hwloc_bitmap_alloc M h = Some (a, b) \<longrightarrow> h a = None) \<and>
     (\<forall>old src b. hwloc_bitmap_copy M old src = (True, b) \<longrightarrow> b = src)"

definition bitmap_calloc :: "hwloc_mem \<Rightarrow> bm_heap \<Rightarrow> qv_rc \<times> nat option \<times> bm_heap" where
  "bitmap_calloc M h =
     (case hwloc_bitmap_alloc M h of
        None \<Rightarrow> (QV_ERR_OOR, None, h)
      | Some (cpuset, b) \<Rightarrow> (QV_SUCCESS, Some cpuset, h(cpuset \<mapsto> {})))"

definition bitmap_delete :: "nat option \<Rightarrow> bm_heap \<Rightarrow> nat option \<times> bm_heap" where
  "bitmap_delete cpuset h = (None, case cpuset of None \<Rightarrow> h | Some a \<Rightarrow> h(a := None))"

text \<open>Null pointers fail the assertion; a dangling pointer is undefined behaviour.\<close>

definition bitmap_copy :: "hwloc_mem \<Rightarrow> nat option \<Rightarrow> nat option \<Rightarrow> bm_heap \<Rightarrow> qv_rc res \<times> bm_heap" where
  "bitmap_copy M src dest h =
     (case (src, dest) of
        (Some s, Some d) \<Rightarrow>
          (case (h s, h d) of
             (Some bs, Some bd) \<Rightarrow>
               (case hwloc_bitmap_copy M bd bs of (ok, b) \<Rightarrow> (Inr (if ok then QV_SUCCESS else QV_ERR_HWLOC), h(d \<mapsto> b)))
           | _ \<Rightarrow> (Inl Undef, h))
      | _ \<Rightarrow> (Inl Abort, h))"

definition bitmap_dup :: "hwloc_mem \<Rightarrow> nat option \<Rightarrow> bm_heap \<Rightarrow> (qv_rc \<times> nat option) res \<times> bm_heap" where
  "bitmap_dup M src h =
     (case bitmap_calloc M h of (rc, idest, h1) \<Rightarrow>
        if rc \<noteq> QV_SUCCESS then (case bitmap_delete idest h1 of (idest', h2) \<Rightarrow> (Inr (rc, idest'), h2))
        else case bitmap_copy M src idest h1 of
               (Inl f, h2) \<Rightarrow> (Inl f, h2)
             | (Inr rc, h2) \<Rightarrow>
                 if rc \<noteq> QV_SUCCESS then (case bitmap_delete idest h2 of (idest', h3) \<Rightarrow> (Inr (rc, idest'), h3))
                 else (Inr (rc, idest), h2))"

text \<open>\<open>last_bit\<close> is what \<^verbatim>\<open>hwloc_bitmap_last\<close> returns: \<open>-1\<close> for an empty and for an infinite bitmap.\<close>

definition qvi_hwloc_bitmap_nbits :: "(bitmap \<Rightarrow> int) \<Rightarrow> bitmap \<Rightarrow> qv_rc \<times> nat" where
  "qvi_hwloc_bitmap_nbits last_bit cpuset =
     (let inbits = last_bit cpuset in if inbits = -1 then (QV_ERR_HWLOC, 0) else (QV_SUCCESS, nat inbits + 1))"

section \<open>Objects\<close>

text \<open>The live objects, each with its pointer \<^verbatim>\<open>m_data\<close>, and the heap. Objects are named by numbers.\<close>

record bm_state =
  bm_heap :: bm_heap
  bm_objs :: "nat \<rightharpoonup> nat"

text \<open>A constructor that returns makes the object live; one that throws does not, and its destructor never runs.\<close>

definition bm_construct :: "nat \<Rightarrow> nat option \<Rightarrow> bm_state \<Rightarrow> bm_state" where
  "bm_construct x m_data s = s\<lparr>bm_objs := (bm_objs s)(x := m_data)\<rparr>"

definition bm_new :: "hwloc_mem \<Rightarrow> nat \<Rightarrow> (bm_state, unit) st_op" where
  "bm_new M x s =
     (case bitmap_calloc M (bm_heap s) of (rc, m_data, h) \<Rightarrow>
        if rc \<noteq> QV_SUCCESS then (Inl (Rterror rc), s\<lparr>bm_heap := h\<rparr>)
        else (Inr (), bm_construct x m_data (s\<lparr>bm_heap := h\<rparr>)))"

text \<open>The constructors from a bitmap of hwloc and from an object have the same body, with the pointer to copy from.\<close>

definition bm_new_from :: "hwloc_mem \<Rightarrow> nat \<Rightarrow> nat option \<Rightarrow> (bm_state, unit) st_op" where
  "bm_new_from M x src s =
     (case bitmap_calloc M (bm_heap s) of (rc, m_data, h) \<Rightarrow>
        if rc \<noteq> QV_SUCCESS then (Inl (Rterror rc), s\<lparr>bm_heap := h\<rparr>)
        else case bitmap_copy M src m_data h of
               (Inl f, h') \<Rightarrow> (Inl f, s\<lparr>bm_heap := h'\<rparr>)
             | (Inr rc, h') \<Rightarrow>
                 if rc \<noteq> QV_SUCCESS then (Inl (Rterror rc), s\<lparr>bm_heap := h'\<rparr>)
                 else (Inr (), bm_construct x m_data (s\<lparr>bm_heap := h'\<rparr>)))"

definition bm_copy_new :: "hwloc_mem \<Rightarrow> nat \<Rightarrow> nat \<Rightarrow> (bm_state, unit) st_op" where
  "bm_copy_new M x y s = (case bm_objs s y of None \<Rightarrow> (Inl Undef, s) | Some m_data \<Rightarrow> bm_new_from M x (Some m_data) s)"

definition bm_delete :: "nat \<Rightarrow> (bm_state, unit) st_op" where
  "bm_delete x s =
     (case bm_objs s x of
        None \<Rightarrow> (Inl Undef, s)
      | Some m_data \<Rightarrow> (Inr (), \<lparr>bm_heap = snd (bitmap_delete (Some m_data) (bm_heap s)), bm_objs = (bm_objs s)(x := None)\<rparr>))"

definition bm_set :: "hwloc_mem \<Rightarrow> nat \<Rightarrow> nat option \<Rightarrow> bm_state \<Rightarrow> qv_rc res \<times> bm_state" where
  "bm_set M x src s =
     (case bm_objs s x of
        None \<Rightarrow> (Inl Undef, s)
      | Some m_data \<Rightarrow> (case bitmap_copy M src (Some m_data) (bm_heap s) of (r, h) \<Rightarrow> (r, s\<lparr>bm_heap := h\<rparr>)))"

definition bm_assign :: "hwloc_mem \<Rightarrow> nat \<Rightarrow> nat \<Rightarrow> (bm_state, unit) st_op" where
  "bm_assign M x y s =
     (case bm_objs s y of
        None \<Rightarrow> (Inl Undef, s)
      | Some src \<Rightarrow>
          (case bm_set M x (Some src) s of
             (Inl f, s') \<Rightarrow> (Inl f, s')
           | (Inr rc, s') \<Rightarrow> (if rc \<noteq> QV_SUCCESS then Inl (Rterror rc) else Inr (), s')))"

text \<open>\<open>bitmap_compare\<close> stands for \<^verbatim>\<open>hwloc_bitmap_compare\<close>.\<close>

definition bm_equal :: "(bitmap \<Rightarrow> bitmap \<Rightarrow> int) \<Rightarrow> nat \<Rightarrow> nat \<Rightarrow> bm_state \<Rightarrow> bool res" where
  "bm_equal bitmap_compare x y s =
     (case (Option.bind (bm_objs s x) (bm_heap s), Option.bind (bm_objs s y) (bm_heap s)) of
        (Some a, Some b) \<Rightarrow> Inr (bitmap_compare a b = 0)
      | _ \<Rightarrow> Inl Undef)"

section \<open>Programs over the objects\<close>

datatype bm_op = New nat | Copy_new nat nat | Assign nat nat | Delete nat

text \<open>A new object has a name that is not in use.\<close>

fun bm_step :: "hwloc_mem \<Rightarrow> bm_op \<Rightarrow> (bm_state, unit) st_op" where
  "bm_step M (New x) s = (if bm_objs s x = None then bm_new M x s else (Inl Undef, s))"
| "bm_step M (Copy_new x y) s = (if bm_objs s x = None then bm_copy_new M x y s else (Inl Undef, s))"
| "bm_step M (Assign x y) s = bm_assign M x y s"
| "bm_step M (Delete x) s = bm_delete x s"

fun bm_run :: "hwloc_mem \<Rightarrow> bm_op list \<Rightarrow> (bm_state, unit) st_op" where
  "bm_run M [] s = (Inr (), s)"
| "bm_run M (p # ps) s = sbind (bm_step M p) (\<lambda>_. bm_run M ps) s"

text \<open>The same programs over values.\<close>

fun val_step :: "bm_op \<Rightarrow> (nat \<rightharpoonup> bitmap) \<Rightarrow> (nat \<rightharpoonup> bitmap)" where
  "val_step (New x) v = v(x \<mapsto> {})"
| "val_step (Copy_new x y) v = v(x := v y)"
| "val_step (Assign x y) v = v(x := v y)"
| "val_step (Delete x) v = v(x := None)"

definition bm_vals :: "bm_state \<Rightarrow> (nat \<rightharpoonup> bitmap)" where
  "bm_vals s x = Option.bind (bm_objs s x) (bm_heap s)"

text \<open>No two objects share a bitmap, and no pointer dangles.\<close>

definition bm_inv :: "bm_state \<Rightarrow> bool" where
  "bm_inv s \<longleftrightarrow> inj_on (bm_objs s) (dom (bm_objs s)) \<and> ran (bm_objs s) \<subseteq> dom (bm_heap s)"

text \<open>Bitmaps that no object owns.\<close>

definition bm_leaked :: "bm_state \<Rightarrow> nat set" where
  "bm_leaked s = dom (bm_heap s) - ran (bm_objs s)"

section \<open>Lemmas\<close>

lemma calloc_cases:
  assumes "mem_laws M" "bitmap_calloc M h = (rc, c, h')"
  shows "(rc = QV_ERR_OOR \<and> c = None \<and> h' = h) \<or> (rc = QV_SUCCESS \<and> (\<exists>a. c = Some a \<and> h a = None \<and> h' = h(a \<mapsto> {})))"
  using assms by (auto simp: bitmap_calloc_def mem_laws_def split: option.splits)

lemma copy_cases:
  assumes "mem_laws M" "h s = Some bs" "h d = Some bd"
  shows "\<exists>ok b. bitmap_copy M (Some s) (Some d) h = (Inr (if ok then QV_SUCCESS else QV_ERR_HWLOC), h(d \<mapsto> b)) \<and> (ok \<longrightarrow> b = bs)"
proof -
  obtain ok b where c: "hwloc_bitmap_copy M bd bs = (ok, b)" by fastforce
  have "ok \<longrightarrow> b = bs" using assms(1) c unfolding mem_laws_def by metis
  then show ?thesis using assms(2,3) c by (intro exI [of _ ok] exI [of _ b]) (simp add: bitmap_copy_def)
qed

text \<open>An object with a fresh bitmap.\<close>

lemma construct_fresh:
  assumes "bm_inv s" "bm_objs s x = None" "bm_heap s a = None"
  fixes b :: bitmap
  defines "s' \<equiv> bm_construct x (Some a) (s\<lparr>bm_heap := (bm_heap s)(a \<mapsto> b)\<rparr>)"
  shows "bm_inv s' \<and> bm_vals s' = (bm_vals s)(x \<mapsto> b) \<and> bm_leaked s' = bm_leaked s"
proof -
  have a: "bm_objs s y \<noteq> Some a" for y using assms(1,3) by (auto simp: bm_inv_def ran_def dom_def)
  have "bm_vals s' = (bm_vals s)(x \<mapsto> b)"
    using a by (auto simp: fun_eq_iff bm_vals_def s'_def bm_construct_def split: bind_splits)
  moreover have "ran (bm_objs s') = insert a (ran (bm_objs s))" using assms(2) by (simp add: s'_def bm_construct_def)
  moreover have "inj_on (bm_objs s') (dom (bm_objs s'))"
    using assms(1) a by (auto simp: s'_def bm_construct_def bm_inv_def inj_on_def dom_def)
  ultimately show ?thesis
    using assms(1,3) a by (auto simp: bm_inv_def bm_leaked_def s'_def bm_construct_def)
qed

text \<open>Writing through the pointer of one object.\<close>

lemma write_object:
  assumes "bm_inv s" "bm_objs s x = Some a"
  fixes b :: bitmap
  defines "s' \<equiv> s\<lparr>bm_heap := (bm_heap s)(a \<mapsto> b)\<rparr>"
  shows "bm_inv s' \<and> bm_vals s' = (bm_vals s)(x \<mapsto> b) \<and> bm_leaked s' = bm_leaked s"
proof -
  have "bm_objs s y \<noteq> Some a" if "y \<noteq> x" for y using assms(1,2) that by (auto simp: bm_inv_def inj_on_def dom_def)
  then have "bm_vals s' y = ((bm_vals s)(x \<mapsto> b)) y" for y using assms(2) by (cases "bm_objs s y") (auto simp: bm_vals_def s'_def)
  then have "bm_vals s' = (bm_vals s)(x \<mapsto> b)" by (rule ext)
  then show ?thesis
    using assms(1,2) by (auto simp: bm_inv_def bm_leaked_def s'_def ran_def)
qed

lemma delete_object:
  assumes "bm_inv s" "bm_objs s x = Some a"
  defines "s' \<equiv> \<lparr>bm_heap = (bm_heap s)(a := None), bm_objs = (bm_objs s)(x := None)\<rparr>"
  shows "bm_inv s' \<and> bm_vals s' = (bm_vals s)(x := None) \<and> bm_leaked s' = bm_leaked s"
proof -
  have uniq: "bm_objs s y \<noteq> Some a" if "y \<noteq> x" for y using assms(1,2) that by (auto simp: bm_inv_def inj_on_def dom_def)
  then have "bm_vals s' y = ((bm_vals s)(x := None)) y" for y by (cases "bm_objs s y") (auto simp: bm_vals_def s'_def)
  then have "bm_vals s' = (bm_vals s)(x := None)" by (rule ext)
  moreover have "ran (bm_objs s') = ran (bm_objs s) - {a}"
    using uniq assms(2) by (auto simp: s'_def ran_def split: if_splits) (metis option.inject)
  moreover have "inj_on (bm_objs s') (dom (bm_objs s'))" using assms(1) by (auto simp: s'_def bm_inv_def inj_on_def dom_def)
  ultimately show ?thesis using assms(1,2) by (auto simp: bm_inv_def bm_leaked_def s'_def ran_def)
qed

lemma object_value: "bm_inv s \<Longrightarrow> bm_objs s x = Some a \<Longrightarrow> \<exists>b. bm_heap s a = Some b \<and> bm_vals s x = Some b"
  by (force simp: bm_inv_def bm_vals_def ran_def)

text \<open>Copy construction: on success a copy with a bitmap of its own, on failure no object, and the new bitmap lost.\<close>

lemma copy_new_cases:
  assumes "mem_laws M" "bm_inv s" "bm_objs s x = None" "bm_objs s y = Some a" "bm_copy_new M x y s = (r, s')"
  shows "(r = Inr () \<and> bm_inv s' \<and> bm_vals s' = (bm_vals s)(x := bm_vals s y) \<and> bm_leaked s' = bm_leaked s) \<or>
    (r = Inl (Rterror QV_ERR_OOR) \<and> s' = s) \<or>
    (r = Inl (Rterror QV_ERR_HWLOC) \<and> bm_inv s' \<and> bm_vals s' = bm_vals s \<and> (\<exists>d. d \<notin> dom (bm_heap s) \<and> bm_leaked s' = insert d (bm_leaked s)))"
proof -
  obtain b where b: "bm_heap s a = Some b" "bm_vals s y = Some b" using object_value [OF assms(2,4)] by blast
  obtain rc c h where c: "bitmap_calloc M (bm_heap s) = (rc, c, h)" using prod_cases3 by blast
  from calloc_cases [OF assms(1) c] consider "rc = QV_ERR_OOR" "c = None" "h = bm_heap s"
    | d where "rc = QV_SUCCESS" "c = Some d" "bm_heap s d = None" "h = (bm_heap s)(d \<mapsto> {})" by blast
  then show ?thesis
  proof cases
    case 1
    then show ?thesis using assms(4,5) c by (auto simp: bm_copy_new_def bm_new_from_def)
  next
    case 2
    have ad: "a \<noteq> d" using b(1) 2(3) by auto
    have "h a = Some b" "h d = Some {}" using b(1) 2(4) ad by auto
    from copy_cases [where M = M, OF assms(1) this] obtain ok b'
      where cp: "bitmap_copy M (Some a) (Some d) h = (Inr (if ok then QV_SUCCESS else QV_ERR_HWLOC), (bm_heap s)(d \<mapsto> b'))" "ok \<longrightarrow> b' = b"
      using 2(4) fun_upd_upd by metis
    have free: "bm_objs s z \<noteq> Some d" for z using assms(2) 2(3) by (auto simp: bm_inv_def ran_def dom_def)
    show ?thesis
    proof (cases ok)
      case True
      then have "r = Inr ()" "s' = bm_construct x (Some d) (s\<lparr>bm_heap := (bm_heap s)(d \<mapsto> b)\<rparr>)"
        using assms(4,5) c 2 cp by (auto simp: bm_copy_new_def bm_new_from_def)
      then show ?thesis using construct_fresh [OF assms(2,3) 2(3), of b] b(2) by simp
    next
      case False
      then have r: "r = Inl (Rterror QV_ERR_HWLOC)" "s' = s\<lparr>bm_heap := (bm_heap s)(d \<mapsto> b')\<rparr>"
        using assms(4,5) c 2 cp by (auto simp: bm_copy_new_def bm_new_from_def)
      have "bm_vals s' = bm_vals s" using free r(2) by (auto simp: bm_vals_def fun_eq_iff split: bind_splits)
      moreover have "bm_leaked s' = insert d (bm_leaked s)" using free r(2) by (auto simp: bm_leaked_def ran_def)
      moreover have "bm_inv s'" using assms(2) r(2) by (auto simp: bm_inv_def)
      ultimately show ?thesis using r(1) 2(3) by blast
    qed
  qed
qed

lemma bm_step_refines:
  assumes "mem_laws M" "bm_inv s" "bm_step M p s = (Inr (), s')"
  shows "bm_inv s' \<and> bm_vals s' = val_step p (bm_vals s) \<and> bm_leaked s' = bm_leaked s"
proof (cases p)
  case (New x)
  then have new: "bm_objs s x = None" "bm_new M x s = (Inr (), s')" using assms(3) by (auto split: if_splits)
  obtain rc c h where c: "bitmap_calloc M (bm_heap s) = (rc, c, h)" using prod_cases3 by blast
  with new(2) calloc_cases [OF assms(1) c] obtain a where "bm_heap s a = None" "s' = bm_construct x (Some a) (s\<lparr>bm_heap := (bm_heap s)(a \<mapsto> {})\<rparr>)"
    by (auto simp: bm_new_def)
  then show ?thesis using construct_fresh [OF assms(2) new(1), of a "{}"] New by simp
next
  case (Copy_new x y)
  then obtain a where "bm_objs s x = None" "bm_objs s y = Some a" "bm_copy_new M x y s = (Inr (), s')"
    using assms(3) by (auto simp: bm_copy_new_def split: if_splits option.splits)
  from copy_new_cases [OF assms(1,2) this] Copy_new show ?thesis by simp
next
  case (Assign x y)
  then obtain a d where ad: "bm_objs s y = Some a" "bm_objs s x = Some d"
    using assms(3) by (auto simp: bm_assign_def bm_set_def split: option.splits prod.splits sum.splits)
  obtain b b' where b: "bm_heap s a = Some b" "bm_vals s y = Some b" "bm_heap s d = Some b'"
    using object_value [OF assms(2) ad(1)] object_value [OF assms(2) ad(2)] by auto
  from copy_cases [where M = M, OF assms(1) b(1,3)] obtain ok c
    where "bitmap_copy M (Some a) (Some d) (bm_heap s) = (Inr (if ok then QV_SUCCESS else QV_ERR_HWLOC), (bm_heap s)(d \<mapsto> c))" "ok \<longrightarrow> c = b" by blast
  then have "s' = s\<lparr>bm_heap := (bm_heap s)(d \<mapsto> b)\<rparr>"
    using assms(3) Assign ad by (auto simp: bm_assign_def bm_set_def split: if_splits)
  then show ?thesis using write_object [OF assms(2) ad(2), of b] b(2) Assign by simp
next
  case (Delete x)
  then obtain a where "bm_objs s x = Some a" "s' = \<lparr>bm_heap = (bm_heap s)(a := None), bm_objs = (bm_objs s)(x := None)\<rparr>"
    using assms(3) by (auto simp: bm_delete_def bitmap_delete_def split: option.splits)
  then show ?thesis using delete_object [OF assms(2)] Delete by simp
qed

section \<open>Properties\<close>


text \<open>Failed copies. When hwloc cannot copy, \<^verbatim>\<open>bitmap_dup\<close> frees the bitmap that it has allocated and
  returns the code with a null pointer; the copy constructor throws the same code but its new bitmap stays
  allocated with no owner, because the destructor does not run for an object under construction. In both
  cases the values of all objects are unchanged.\<close>

theorem bitmap_copy_failures:
  assumes "mem_laws M" "bm_inv s" "bm_objs s y = Some a" "bm_objs s x = None"
    and "hwloc_bitmap_alloc M (bm_heap s) = Some (d, b0)" "\<And>old src. \<not> fst (hwloc_bitmap_copy M old src)"
  shows "(\<exists>h. bitmap_dup M (Some a) (bm_heap s) = (Inr (QV_ERR_HWLOC, None), h) \<and> h = bm_heap s) \<and>
    (\<exists>s'. bm_copy_new M x y s = (Inl (Rterror QV_ERR_HWLOC), s') \<and> bm_vals s' = bm_vals s \<and> bm_leaked s' = insert d (bm_leaked s) \<and> d \<notin> bm_leaked s)"
proof -
  have d: "bm_heap s d = None" using assms(1,5) by (auto simp: mem_laws_def)
  obtain b where b: "bm_heap s a = Some b" using object_value [OF assms(2,3)] by blast
  obtain c where c: "hwloc_bitmap_copy M {} b = (False, c)" using assms(6) by (metis prod.collapse)
  have ad: "a \<noteq> d" using b d by auto
  have cp: "bitmap_copy M (Some a) (Some d) ((bm_heap s)(d \<mapsto> {})) = (Inr QV_ERR_HWLOC, (bm_heap s)(d \<mapsto> c))"
    using b ad c by (simp add: bitmap_copy_def)
  have "bitmap_dup M (Some a) (bm_heap s) = (Inr (QV_ERR_HWLOC, None), bm_heap s)"
    using assms(5) cp d by (simp add: bitmap_dup_def bitmap_calloc_def bitmap_delete_def fun_upd_idem)
  moreover have "bm_copy_new M x y s = (Inl (Rterror QV_ERR_HWLOC), s\<lparr>bm_heap := (bm_heap s)(d \<mapsto> c)\<rparr>)"
    using assms(3,5) cp by (simp add: bm_copy_new_def bm_new_from_def bitmap_calloc_def)
  moreover have free: "bm_objs s z \<noteq> Some d" for z using assms(2) d by (auto simp: bm_inv_def ran_def dom_def)
  moreover have "bm_vals (s\<lparr>bm_heap := (bm_heap s)(d \<mapsto> c)\<rparr>) = bm_vals s"
    using free by (auto simp: bm_vals_def fun_eq_iff split: bind_splits)
  moreover have "bm_leaked (s\<lparr>bm_heap := (bm_heap s)(d \<mapsto> c)\<rparr>) = insert d (bm_leaked s)" "d \<notin> bm_leaked s"
    using free d by (auto simp: bm_leaked_def ran_def)
  ultimately show ?thesis by blast
qed

section \<open>Witnesses\<close>

text \<open>Blocks numbered by the bitmaps in use; copies succeed or fail.\<close>

definition demo_mem :: "bool \<Rightarrow> hwloc_mem" where
  "demo_mem works =
     \<lparr>hwloc_bitmap_alloc = \<lambda>h. if h 0 = None then Some (0, {}) else if h 1 = None then Some (1, {3}) else None,
      hwloc_bitmap_copy = \<lambda>old src. if works then (True, src) else (False, old)\<rparr>"

lemma demo_mem_laws: "mem_laws (demo_mem works)"
  by (auto simp: mem_laws_def demo_mem_def split: if_splits)

lemmas demo_bm_simps = demo_mem_def bm_new_def bm_copy_new_def bm_new_from_def bm_delete_def bm_assign_def bm_set_def
  bitmap_calloc_def bitmap_copy_def bitmap_delete_def bm_construct_def sbind_def


theorem bitmap_copy_failures_witness:
  "\<exists>s'. bm_copy_new (demo_mem False) 8 7 \<lparr>bm_heap = [0 \<mapsto> {2}], bm_objs = [7 \<mapsto> 0]\<rparr> = (Inl (Rterror QV_ERR_HWLOC), s') \<and> 1 \<in> bm_leaked s'"
proof -
  have inv: "bm_inv \<lparr>bm_heap = [0 \<mapsto> {2}], bm_objs = [7 \<mapsto> 0]\<rparr>" by (simp add: bm_inv_def)
  show ?thesis
    using bitmap_copy_failures [OF demo_mem_laws inv, of 7 0 8 False 1 "{3}"] by (force simp: demo_mem_def)
qed

end
