(* ===== verification/QV_Serial.thy ===== *)
theory QV_Serial
  imports QV_Hwpool
begin

text \<open>
  How hardware pools travel between processes (the \<^verbatim>\<open>serialize\<close>, \<^verbatim>\<open>save\<close> and \<^verbatim>\<open>load\<close> members in
  \<^verbatim>\<open>qvi-hwpool.h\<close> and \<^verbatim>\<open>qvi-hwloc.h\<close>). Each class hands its members to a cereal archive, in the same order
  when it is written and when it is read; a bitmap is handed over as the text that hwloc prints for it.

  The tree of the values that are handed to the archive is explicit here. What cereal does with such a tree is
  not part of the repository; \<open>QV_Bbuff\<close> and \<open>QV_Rmi\<close> carry it as the archive parameter of messages.
\<close>

section \<open>Values handed to an archive\<close>

datatype cval =
    Cint int
  | Cstr string
  | Ctype qv_hw_obj_type_t
  | Cobj "cval list" \<comment> \<open>the members of a class\<close>
  | Cvec "cval list" \<comment> \<open>the elements of a vector\<close>
  | Cmap "(cval \<times> cval) list" \<comment> \<open>the entries of a map\<close>

section \<open>Writing\<close>

definition save_bitmap :: "hwloc_lib \<Rightarrow> bitmap \<Rightarrow> cval res" where
  "save_bitmap L b = rbind (bitmap_save L b) (\<lambda>s. Inr (Cobj [Cstr s]))"

definition save_res :: "hwloc_lib \<Rightarrow> qvi_hwpool_res \<Rightarrow> cval res" where
  "save_res L r = rbind (save_bitmap L (res_affinity r)) (\<lambda>a. Inr (Cobj [Cint (res_flags r), a]))"

definition save_dev :: "hwloc_lib \<Rightarrow> qvi_hwpool_dev \<Rightarrow> cval res" where
  "save_dev L d =
     rbind (save_bitmap L (res_affinity d)) (\<lambda>a.
       Inr (Cobj [Cint (res_flags d), a, Ctype (m_type d), Cint (m_id d), Cstr (m_pci_bus_id d), Cstr (m_uuid d)]))"

definition save_dev_map :: "hwloc_lib \<Rightarrow> (qv_hw_obj_type_t, qvi_hwpool_dev list) omap \<Rightarrow> cval res" where
  "save_dev_map L m =
     rbind (rmap (\<lambda>(t, devs). rbind (rmap (save_dev L) devs) (\<lambda>vs. Inr (Ctype t, Cvec vs))) m) (\<lambda>es. Inr (Cmap es))"

definition save_hwpool :: "hwloc_lib \<Rightarrow> qvi_hwpool \<Rightarrow> cval res" where
  "save_hwpool L p = rbind (save_res L (m_cpu p)) (\<lambda>c. rbind (save_dev_map L (m_dev_map p)) (\<lambda>m. Inr (Cobj [c, m])))"

section \<open>Reading\<close>

text \<open>A tree of another form makes the archive throw.\<close>

fun load_bitmap :: "hwloc_lib \<Rightarrow> cval \<Rightarrow> bitmap res" where
  "load_bitmap L (Cobj [Cstr s]) = bitmap_load L s"
| "load_bitmap L v = Inl StdExn"

fun load_res :: "hwloc_lib \<Rightarrow> cval \<Rightarrow> qvi_hwpool_res res" where
  "load_res L (Cobj [Cint f, a]) = rbind (load_bitmap L a) (\<lambda>b. Inr \<lparr>res_flags = f, res_affinity = b\<rparr>)"
| "load_res L v = Inl StdExn"

fun load_dev :: "hwloc_lib \<Rightarrow> cval \<Rightarrow> qvi_hwpool_dev res" where
  "load_dev L (Cobj [Cint f, a, Ctype t, Cint i, Cstr bus, Cstr uu]) =
     rbind (load_bitmap L a) (\<lambda>b.
       Inr \<lparr>res_flags = f, res_affinity = b, m_type = t, m_id = i, m_pci_bus_id = bus, m_uuid = uu\<rparr>)"
| "load_dev L v = Inl StdExn"

fun load_entry :: "hwloc_lib \<Rightarrow> cval \<times> cval \<Rightarrow> (qv_hw_obj_type_t \<times> qvi_hwpool_dev list) res" where
  "load_entry L (Ctype t, Cvec vs) = rbind (rmap (load_dev L) vs) (\<lambda>devs. Inr (t, devs))"
| "load_entry L e = Inl StdExn"

text \<open>The entries are inserted into an empty map, one by one.\<close>

fun load_dev_map :: "hwloc_lib \<Rightarrow> cval \<Rightarrow> (qv_hw_obj_type_t, qvi_hwpool_dev list) omap res" where
  "load_dev_map L (Cmap es) = rbind (rmap (load_entry L) es) (\<lambda>kvs. Inr (fold (\<lambda>(k, v). om_insert k v) kvs []))"
| "load_dev_map L v = Inl StdExn"

fun load_hwpool :: "hwloc_lib \<Rightarrow> cval \<Rightarrow> qvi_hwpool res" where
  "load_hwpool L (Cobj [c, m]) = rbind (load_res L c) (\<lambda>cpu. rbind (load_dev_map L m) (\<lambda>dm. Inr \<lparr>m_cpu = cpu, m_dev_map = dm\<rparr>))"
| "load_hwpool L v = Inl StdExn"

section \<open>Lemmas\<close>

text \<open>hwloc reads back the text that it has printed.\<close>

definition text_laws :: "hwloc_lib \<Rightarrow> bool" where
  "text_laws L \<longleftrightarrow> (\<forall>b s. bitmap_asprintf L b = Some s \<longrightarrow> bitmap_scan L s = Some b)"

lemma load_save_bitmap: "text_laws L \<Longrightarrow> save_bitmap L b = Inr v \<Longrightarrow> load_bitmap L v = Inr b"
  by (auto simp: text_laws_def save_bitmap_def bitmap_save_def bitmap_string_def bitmap_load_def bitmap_sscanf_def split: option.splits)

lemma load_save_res: "text_laws L \<Longrightarrow> save_res L r = Inr v \<Longrightarrow> load_res L v = Inr r"
  by (auto simp: save_res_def rbind_Inr_iff load_save_bitmap)

lemma load_save_dev: "text_laws L \<Longrightarrow> save_dev L d = Inr v \<Longrightarrow> load_dev L v = Inr d"
  by (auto simp: save_dev_def rbind_Inr_iff load_save_bitmap)

text \<open>Element by element.\<close>

lemma load_save_list:
  assumes "rmap f xs = Inr vs" "\<And>x v. x \<in> set xs \<Longrightarrow> f x = Inr v \<Longrightarrow> g v = Inr x"
  shows "rmap g vs = Inr xs"
  using assms by (auto simp: rmap_Inr_iff)

lemma fold_om_insert_sorted:
  "om_ok (m @ kvs) \<Longrightarrow> fold (\<lambda>(k, v). om_insert k v) kvs m = m @ kvs"
proof (induction kvs arbitrary: m)
  case (Cons e kvs)
  obtain k v where e: "e = (k, v)" by (cases e)
  have "\<forall>k' \<in> set (om_keys m). k' < k" using Cons.prems e by (auto simp: om_ok_def sorted_wrt_append)
  moreover from this have "map_of m k = None" by (auto simp: map_of_eq_None_iff)
  ultimately have "om_insert k v m = m @ [(k, v)]" using om_put_last [of m k v] by (simp add: om_insert_def)
  then show ?case using Cons e by simp
qed simp

lemma load_save_dev_map: "text_laws L \<Longrightarrow> om_ok m \<Longrightarrow> save_dev_map L m = Inr v \<Longrightarrow> load_dev_map L v = Inr m"
  using fold_om_insert_sorted [of "[]" m]
  by (auto simp: save_dev_map_def rbind_Inr_iff intro!: exI [of _ m] load_save_list load_save_dev elim!: load_save_list)

section \<open>Properties\<close>

text \<open>C31: A hardware pool that was serialised is read back as the same pool, with its CPU set, its flags and all its
  devices under their types and in their order. A bitmap text that hwloc cannot parse makes the reader throw
  \<^verbatim>\<open>QV_ERR_HWLOC\<close>.\<close>

theorem hwpool_serialization_roundtrip:
  assumes "text_laws L" "om_ok (m_dev_map p)" "save_hwpool L p = Inr v"
  shows "load_hwpool L v = Inr p \<and> (\<forall>s f m. bitmap_scan L s = None \<longrightarrow> load_hwpool L (Cobj [Cobj [Cint f, Cobj [Cstr s]], m]) = Inl (Rterror QV_ERR_HWLOC))"
  using assms load_save_res [OF assms(1)] load_save_dev_map [OF assms(1,2)]
  by (auto simp: save_hwpool_def rbind_Inr_iff bitmap_load_def bitmap_sscanf_def)

section \<open>Witness\<close>

text \<open>A library that prints and reads single numbers below ten, and a pool with one device.\<close>

definition demo_text_lib :: hwloc_lib where
  "demo_text_lib = demo_lib\<lparr>
     bitmap_asprintf := \<lambda>b. if b = {0} then Some ''0'' else if b = {3} then Some ''3'' else None,
     bitmap_scan := \<lambda>s. if s = ''0'' then Some {0} else if s = ''3'' then Some {3} else None\<rparr>"

definition demo_dev_pool :: qvi_hwpool where
  "demo_dev_pool = \<lparr>m_cpu = qvi_hwpool_cpu_new {0},
     m_dev_map = [(QV_HW_OBJ_GPU, [\<lparr>res_flags = 0, res_affinity = {3}, m_type = QV_HW_OBJ_GPU, m_id = 1, m_pci_bus_id = ''b'', m_uuid = ''u''\<rparr>])]\<rparr>"

theorem hwpool_serialization_roundtrip_witness:
  "\<exists>v. save_hwpool demo_text_lib demo_dev_pool = Inr v \<and> load_hwpool demo_text_lib v = Inr demo_dev_pool"
proof -
  have laws: "text_laws demo_text_lib" by (auto simp: text_laws_def demo_text_lib_def)
  have ok: "om_ok (m_dev_map demo_dev_pool)" by (simp add: demo_dev_pool_def om_ok_def)
  obtain v where v: "save_hwpool demo_text_lib demo_dev_pool = Inr v"
    by (simp add: save_hwpool_def save_res_def save_dev_map_def save_dev_def save_bitmap_def bitmap_save_def bitmap_string_def
        demo_text_lib_def demo_dev_pool_def qvi_hwpool_cpu_new_def)
  then show ?thesis using hwpool_serialization_roundtrip [OF laws ok v] by blast
qed

end
