(* ===== verification/QV_Conn.thy ===== *)
theory QV_Conn
  imports QV_Daemon
begin

text \<open>
  The ZeroMQ contexts, sockets and messages behind a connection (the first part of \<^verbatim>\<open>qvi-rmi.cc\<close>, the
  constructors and destructors of the client and of the server, \<^verbatim>\<open>qvi_rmi_client::connect\<close> and
  \<^verbatim>\<open>qvi_rmi_server::start\<close>): which of them are alive after every operation. \<open>QV_Rmi\<close> abstracts them
  to the calls that succeed; here every call acts on the library's state.

  ZeroMQ is a parameter (\<open>zmq\<close>) over a state of any type \<open>'z\<close>. What its manual says about the lifetime of
  contexts and sockets is the hypothesis \<open>zmq_laws\<close>.
\<close>

section \<open>The library\<close>

datatype zsock_type = ZMQ_REQ | ZMQ_REP

datatype zsock_opt = ZMQ_RCVTIMEO | ZMQ_LINGER

text \<open>\<open>None\<close> as the result of \<open>zmq_ctx_destroy\<close> means that the call blocks forever.\<close>

record 'z zmq =
  zmq_ctx_new :: "'z \<Rightarrow> nat option \<times> 'z"
  zmq_socket :: "nat \<Rightarrow> zsock_type \<Rightarrow> 'z \<Rightarrow> nat option \<times> 'z"
  zmq_connect :: "nat \<Rightarrow> string \<Rightarrow> 'z \<Rightarrow> bool \<times> 'z"
  zmq_bind :: "nat \<Rightarrow> string \<Rightarrow> 'z \<Rightarrow> bool \<times> 'z"
  zmq_setsockopt :: "nat \<Rightarrow> zsock_opt \<Rightarrow> int \<Rightarrow> 'z \<Rightarrow> bool \<times> 'z"
  zmq_close :: "nat \<Rightarrow> 'z \<Rightarrow> bool \<times> 'z"
  zmq_ctx_destroy :: "nat \<Rightarrow> 'z \<Rightarrow> (bool \<times> 'z) option"

text \<open>
  The live contexts and the live sockets, each with its context. A new context or socket has a handle that is
  not in use; connecting, binding and setting options keep both; closing removes the socket; destroying a
  context blocks as long as one of its sockets is open.
\<close>

definition zmq_laws :: "'z zmq \<Rightarrow> ('z \<Rightarrow> nat set) \<Rightarrow> ('z \<Rightarrow> nat \<rightharpoonup> nat) \<Rightarrow> bool" where
  "zmq_laws Z ctxs socks \<longleftrightarrow>
     (\<forall>z z'. zmq_ctx_new Z z = (None, z') \<longrightarrow> ctxs z' = ctxs z \<and> socks z' = socks z) \<and>
     (\<forall>z c z'. zmq_ctx_new Z z = (Some c, z') \<longrightarrow>
        c \<notin> ctxs z \<and> c \<notin> ran (socks z) \<and> ctxs z' = insert c (ctxs z) \<and> socks z' = socks z) \<and>
     (\<forall>c t z z'. zmq_socket Z c t z = (None, z') \<longrightarrow> ctxs z' = ctxs z \<and> socks z' = socks z) \<and>
     (\<forall>c t z s z'. zmq_socket Z c t z = (Some s, z') \<longrightarrow> socks z s = None \<and> ctxs z' = ctxs z \<and> socks z' = (socks z)(s \<mapsto> c)) \<and>
     (\<forall>s a z ok z'. zmq_connect Z s a z = (ok, z') \<longrightarrow> ctxs z' = ctxs z \<and> socks z' = socks z) \<and>
     (\<forall>s a z ok z'. zmq_bind Z s a z = (ok, z') \<longrightarrow> ctxs z' = ctxs z \<and> socks z' = socks z) \<and>
     (\<forall>s p v z ok z'. zmq_setsockopt Z s p v z = (ok, z') \<longrightarrow> ctxs z' = ctxs z \<and> socks z' = socks z) \<and>
     (\<forall>s z ok z'. zmq_close Z s z = (ok, z') \<longrightarrow> ctxs z' = ctxs z \<and> socks z' = (socks z)(s := None)) \<and>
     (\<forall>c z. c \<in> ran (socks z) \<longrightarrow> zmq_ctx_destroy Z c z = None) \<and>
     (\<forall>c z. c \<notin> ran (socks z) \<longrightarrow>
        (\<exists>ok z'. zmq_ctx_destroy Z c z = Some (ok, z') \<and> ctxs z' = ctxs z - {c} \<and> socks z' = socks z))"

section \<open>Sockets and contexts\<close>

text \<open>Failures of closing and destroying are only logged. A null handle is \<open>None\<close>.\<close>

definition zsocket_close :: "'z zmq \<Rightarrow> nat option \<Rightarrow> 'z \<Rightarrow> 'z" where
  "zsocket_close Z sock z = (case sock of None \<Rightarrow> z | Some s \<Rightarrow> snd (zmq_close Z s z))"

text \<open>\<^verbatim>\<open>zctx_destroy\<close> also resets the handle.\<close>

definition zctx_destroy :: "'z zmq \<Rightarrow> nat option \<Rightarrow> 'z \<Rightarrow> (nat option \<times> 'z) option" where
  "zctx_destroy Z ctx z =
     (case ctx of
        None \<Rightarrow> Some (None, z)
      | Some ictx \<Rightarrow> (case zmq_ctx_destroy Z ictx z of None \<Rightarrow> None | Some (ok, z') \<Rightarrow> Some (None, z')))"

definition zsocket_create :: "'z zmq \<Rightarrow> nat \<Rightarrow> zsock_type \<Rightarrow> 'z \<Rightarrow> nat option \<times> 'z" where
  "zsocket_create Z zctx sock_type z = zmq_socket Z zctx sock_type z"

definition zsocket_connect :: "'z zmq \<Rightarrow> nat \<Rightarrow> string \<Rightarrow> 'z \<Rightarrow> qv_rc \<times> 'z" where
  "zsocket_connect Z zsock addr z =
     (case zmq_connect Z zsock addr z of
        (True, z') \<Rightarrow> (QV_SUCCESS, z')
      | (False, z') \<Rightarrow> (QV_ERR_RPC, zsocket_close Z (Some zsock) z'))"

definition zsocket_create_and_bind :: "'z zmq \<Rightarrow> nat \<Rightarrow> zsock_type \<Rightarrow> string \<Rightarrow> 'z \<Rightarrow> nat option \<times> 'z" where
  "zsocket_create_and_bind Z zctx sock_type addr z =
     (case zmq_socket Z zctx sock_type z of
        (None, z') \<Rightarrow> (None, z')
      | (Some zsock, z') \<Rightarrow>
          (case zmq_bind Z zsock addr z' of
             (True, z'') \<Rightarrow> (Some zsock, z'')
           | (False, z'') \<Rightarrow> (None, zsocket_close Z (Some zsock) z'')))"

section \<open>The client\<close>

record zclient =
  zc_zctx :: "nat option"
  zc_zsock :: "nat option"
  zc_rmi :: qvi_rmi_client

text \<open>
  \<^verbatim>\<open>connect\<close> on the library's state \<open>z\<close> and the world \<open>w\<close> on the other side of the socket. The result
  is the returned code or the exception, with the client as the call leaves it in either case.
\<close>

definition zconnect_hello ::
  "rmi_env \<Rightarrow> bool \<Rightarrow> 'w zsock \<Rightarrow> int \<Rightarrow> int \<Rightarrow> string \<Rightarrow> int \<Rightarrow> zclient \<Rightarrow> 'w \<Rightarrow> qv_rc res \<times> zclient \<times> 'w" where
  "zconnect_hello E gpu_support zsock mytid scope_flags curl cportno zc w =
     (let hwloc_flags = (if flag_set scope_flags QV_SCOPE_FLAG_NO_SMT then QVI_HWLOC_FLAG_TOPO_NO_SMT
                         else QVI_HWLOC_FLAG_TOPO_FULL)
      in case m_hello E zsock mytid (e_version E) hwloc_flags w of
           (Inl (Rc rc), w') \<Rightarrow> (Inr rc, zc, w')
         | (Inl f, w') \<Rightarrow> (Inl f, zc, w')
         | (Inr hwtopo_path, w') \<Rightarrow>
             let cl = (zc_rmi zc)\<lparr>cl_connected := True, cl_config := \<lparr>url = curl, portno = cportno\<rparr>\<rparr>
             in (case topology_init (e_lib E) hwloc_flags hwtopo_path (cl_hwloc cl) of
                   Inl (Rc rc) \<Rightarrow> (Inr QV_RES_UNAVAILABLE, zc\<lparr>zc_rmi := cl\<rparr>, w')
                 | Inl f \<Rightarrow> (Inl f, zc\<lparr>zc_rmi := cl\<rparr>, w')
                 | Inr h \<Rightarrow>
                     (case topology_load gpu_support (e_lib E) h of
                        Inl (Rc rc) \<Rightarrow> (Inr QV_RES_UNAVAILABLE, zc\<lparr>zc_rmi := cl\<lparr>cl_hwloc := h\<rparr>\<rparr>, w')
                      | Inl f \<Rightarrow> (Inl f, zc\<lparr>zc_rmi := cl\<lparr>cl_hwloc := h\<rparr>\<rparr>, w')
                      | Inr h' \<Rightarrow> (Inr QV_SUCCESS, zc\<lparr>zc_rmi := cl\<lparr>cl_hwloc := h'\<rparr>\<rparr>, w'))))"

definition zconnect ::
  "'z zmq \<Rightarrow> rmi_env \<Rightarrow> bool \<Rightarrow> 'w zsock \<Rightarrow> int \<Rightarrow> int \<Rightarrow> string \<Rightarrow> int \<Rightarrow> zclient \<Rightarrow> 'z \<Rightarrow> 'w \<Rightarrow>
   qv_rc res \<times> zclient \<times> 'z \<times> 'w" where
  "zconnect Z E gpu_support zsock mytid scope_flags curl cportno zc z w =
     (case zmq_ctx_new Z z of
        (None, z1) \<Rightarrow> (Inr QV_RES_UNAVAILABLE, zc\<lparr>zc_zctx := None\<rparr>, z1, w)
      | (Some c, z1) \<Rightarrow>
          let zc1 = zc\<lparr>zc_zctx := Some c\<rparr>
          in case zsocket_create Z c ZMQ_REQ z1 of
               (None, z2) \<Rightarrow> (Inr QV_RES_UNAVAILABLE, zc1\<lparr>zc_zsock := None\<rparr>, z2, w)
             | (Some s, z2) \<Rightarrow>
                 let zc2 = zc1\<lparr>zc_zsock := Some s\<rparr>
                 in case zsocket_connect Z s curl z2 of (zrc, z3) \<Rightarrow>
                      if zrc \<noteq> QV_SUCCESS then (Inr QV_RES_UNAVAILABLE, zc2, z3, w)
                      else case zmq_setsockopt Z s ZMQ_RCVTIMEO 5000 z3 of
                             (False, z4) \<Rightarrow> (Inr QV_RES_UNAVAILABLE, zc2, z4, w)
                           | (True, z4) \<Rightarrow>
                               (case zconnect_hello E gpu_support zsock mytid scope_flags curl cportno zc2 w of
                                  (r, zc', w') \<Rightarrow> (r, zc', z4, w')))"

definition zclient_delete :: "'z zmq \<Rightarrow> zclient \<Rightarrow> 'z \<Rightarrow> 'z option" where
  "zclient_delete Z zc z =
     (if cl_connected (zc_rmi zc)
      then map_option snd (zctx_destroy Z (zc_zctx zc) (zsocket_close Z (zc_zsock zc) z))
      else Some z)"

text \<open>
  Receiving a reply. A message structure is live after \<^verbatim>\<open>zmq_msg_init\<close> until it is closed;
  closing a closed one only returns an error, closing one that was never initialised reads indeterminate memory.
  \<open>recvd\<close> is what \<^verbatim>\<open>zmq_msg_recv\<close> delivers (\<open>None\<close>: it fails, or times out).
\<close>

datatype zmsg = Msg_uninit | Msg_live "byte list" | Msg_closed

definition zmsg_close :: "zmsg \<Rightarrow> zmsg res" where
  "zmsg_close m = (case m of Msg_uninit \<Rightarrow> Inl Undef | _ \<Rightarrow> Inr Msg_closed)"

definition client_recv_msg :: "bool \<Rightarrow> byte list option \<Rightarrow> qv_rc \<times> zmsg" where
  "client_recv_msg init_works recvd =
     (if \<not> init_works then (QV_ERR_RPC, Msg_uninit)
      else case recvd of None \<Rightarrow> (QV_ERR_RPC, Msg_closed) | Some dat \<Rightarrow> (QV_SUCCESS, Msg_live dat))"

definition zrpc_rep :: "rmi_env \<Rightarrow> rpc_ty list \<Rightarrow> bool \<Rightarrow> byte list option \<Rightarrow> (rpc_val list res \<times> zmsg) res" where
  "zrpc_rep E tys init_works recvd =
     (case client_recv_msg init_works recvd of (rc, msg) \<Rightarrow>
        let r = (case msg of Msg_live dat \<Rightarrow> rpc_unpack E tys dat | _ \<Rightarrow> Inl (Rc rc))
        in rbind (zmsg_close msg) (\<lambda>msg'. Inr (r, msg')))"

section \<open>The server\<close>

record zserver =
  zs_zctx :: "nat option"
  zs_zsock :: "nat option"
  zs_rmi :: qvi_rmi_server

text \<open>The constructor: the context is created last, so that nothing is left when it throws.\<close>

definition zserver_new :: "'z zmq \<Rightarrow> bool \<Rightarrow> hwloc_lib \<Rightarrow> qvi_hwloc \<Rightarrow> 'z \<Rightarrow> zserver res \<times> 'z" where
  "zserver_new Z gpu_support L hwloc0 z =
     (case qvi_rmi_server_new gpu_support L True hwloc0 of
        Inl f \<Rightarrow> (Inl f, z)
      | Inr srv \<Rightarrow>
          (case zmq_ctx_new Z z of
             (None, z') \<Rightarrow> (Inl (Rterror QV_ERR_SYS), z')
           | (Some c, z') \<Rightarrow> (Inr \<lparr>zs_zctx = Some c, zs_zsock = None, zs_rmi = srv\<rparr>, z')))"

text \<open>\<^verbatim>\<open>zmq_socket\<close> refuses a null context.\<close>

definition zserver_start ::
  "'z zmq \<Rightarrow> rmi_env \<Rightarrow> (byte list \<Rightarrow> int) \<Rightarrow> zserver \<Rightarrow> poll_event list \<Rightarrow> cpubinds \<Rightarrow> 'z \<Rightarrow>
   (unit res option \<times> byte list list \<times> cpubinds) \<times> zserver \<times> 'z" where
  "zserver_start Z E zsend zs evs w z =
     (case (case zs_zctx zs of None \<Rightarrow> (None, z)
                             | Some c \<Rightarrow> zsocket_create_and_bind Z c ZMQ_REP (url (srv_config (zs_rmi zs))) z) of
        (None, z1) \<Rightarrow> ((Some (Inl (Rc QV_ERR_SYS)), [], w), zs\<lparr>zs_zsock := None\<rparr>, z1)
      | (Some s, z1) \<Rightarrow>
          (case zmq_setsockopt Z s ZMQ_LINGER 0 z1 of
             (False, z2) \<Rightarrow> ((Some (Inl (Rc QV_ERR_SYS)), [], w), zs\<lparr>zs_zsock := Some s\<rparr>, z2)
           | (True, z2) \<Rightarrow> (m_enter_main_server_loop E zsend (zs_rmi zs) False evs [] w, zs\<lparr>zs_zsock := Some s\<rparr>, z2)))"

definition zserver_delete :: "'z zmq \<Rightarrow> zserver \<Rightarrow> 'z \<Rightarrow> 'z option" where
  "zserver_delete Z zs z = map_option snd (zctx_destroy Z (zs_zctx zs) (zsocket_close Z (zs_zsock zs) z))"

section \<open>Handles\<close>

lemma zmq_lawsD:
  assumes "zmq_laws Z ctxs socks"
  shows "zmq_ctx_new Z z = (None, z') \<Longrightarrow> ctxs z' = ctxs z \<and> socks z' = socks z"
    and "zmq_ctx_new Z z = (Some c, z') \<Longrightarrow> c \<notin> ctxs z \<and> c \<notin> ran (socks z) \<and> ctxs z' = insert c (ctxs z) \<and> socks z' = socks z"
    and "zmq_socket Z c t z = (None, z') \<Longrightarrow> ctxs z' = ctxs z \<and> socks z' = socks z"
    and "zmq_socket Z c t z = (Some s, z') \<Longrightarrow> socks z s = None \<and> ctxs z' = ctxs z \<and> socks z' = (socks z)(s \<mapsto> c)"
    and "zmq_connect Z s a z = (ok, z') \<Longrightarrow> ctxs z' = ctxs z \<and> socks z' = socks z"
    and "zmq_bind Z s a z = (ok, z') \<Longrightarrow> ctxs z' = ctxs z \<and> socks z' = socks z"
    and "zmq_setsockopt Z s p v z = (ok, z') \<Longrightarrow> ctxs z' = ctxs z \<and> socks z' = socks z"
    and "zmq_close Z s z = (ok, z') \<Longrightarrow> ctxs z' = ctxs z \<and> socks z' = (socks z)(s := None)"
    and "c \<notin> ran (socks z) \<Longrightarrow> \<exists>ok z'. zmq_ctx_destroy Z c z = Some (ok, z') \<and> ctxs z' = ctxs z - {c} \<and> socks z' = socks z"
  using assms unfolding zmq_laws_def by (elim conjE, meson)+

text \<open>
  The handles that an object keeps: \<open>ctx\<close> and \<open>sock\<close> are its fields, \<open>z0\<close> is the state before they were
  created and \<open>z\<close> the state now. Besides a new context, there is at most a new socket in it.
\<close>

definition holds ::
  "('z \<Rightarrow> nat set) \<Rightarrow> ('z \<Rightarrow> nat \<rightharpoonup> nat) \<Rightarrow> 'z \<Rightarrow> nat \<Rightarrow> nat option \<Rightarrow> 'z \<Rightarrow> bool" where
  "holds ctxs socks z0 c sock z \<longleftrightarrow>
     c \<notin> ctxs z0 \<and> c \<notin> ran (socks z0) \<and> ctxs z = insert c (ctxs z0) \<and>
     (case sock of None \<Rightarrow> socks z = socks z0 | Some s \<Rightarrow> socks z0 s = None \<and> socks z = (socks z0)(s \<mapsto> c))"

lemma holds_new:
  "zmq_laws Z ctxs socks \<Longrightarrow> zmq_ctx_new Z z0 = (Some c, z) \<Longrightarrow> holds ctxs socks z0 c None z"
  by (simp add: holds_def zmq_lawsD(2))

lemma holds_socket:
  "zmq_laws Z ctxs socks \<Longrightarrow> holds ctxs socks z0 c None z \<Longrightarrow> zmq_socket Z c t z = (sock, z') \<Longrightarrow> holds ctxs socks z0 c sock z'"
  by (cases sock) (auto simp: holds_def dest: zmq_lawsD(3,4))

lemma holds_keep:
  "holds ctxs socks z0 c sock z \<Longrightarrow> ctxs z' = ctxs z \<and> socks z' = socks z \<Longrightarrow> holds ctxs socks z0 c sock z'"
  by (cases sock) (simp_all add: holds_def)

lemma holds_close:
  assumes "zmq_laws Z ctxs socks" "holds ctxs socks z0 c sock z"
  shows "holds ctxs socks z0 c None (zsocket_close Z sock z)"
proof (cases sock)
  case (Some s)
  obtain ok z' where cl: "zmq_close Z s z = (ok, z')" by fastforce
  then show ?thesis using zmq_lawsD(8) [OF assms(1) cl] assms(2) Some by (auto simp: holds_def zsocket_close_def)
qed (use assms(2) in \<open>simp add: zsocket_close_def\<close>)

lemma holds_destroy:
  assumes "zmq_laws Z ctxs socks" "holds ctxs socks z0 c None z"
  shows "\<exists>z'. zctx_destroy Z (Some c) z = Some (None, z') \<and> ctxs z' = ctxs z0 \<and> socks z' = socks z0"
  using zmq_lawsD(9) [OF assms(1), of c z] assms(2) by (force simp: holds_def zctx_destroy_def)

lemma holds_connect:
  assumes "zmq_laws Z ctxs socks" "holds ctxs socks z0 c (Some s) z" "zsocket_connect Z s a z = (rc, z')"
  shows "holds ctxs socks z0 c (if rc = QV_SUCCESS then Some s else None) z'"
proof -
  obtain ok z1 where c: "zmq_connect Z s a z = (ok, z1)" by fastforce
  have "holds ctxs socks z0 c (Some s) z1" using holds_keep [OF assms(2) zmq_lawsD(5) [OF assms(1) c]] .
  then show ?thesis
    using assms(3) c holds_close [OF assms(1)] by (auto simp: zsocket_connect_def split: bool.splits)
qed

lemma holds_bind:
  assumes "zmq_laws Z ctxs socks" "holds ctxs socks z0 c None z" "zsocket_create_and_bind Z c t a z = (sock, z')"
  shows "holds ctxs socks z0 c sock z'"
proof -
  obtain sk z1 where sk: "zmq_socket Z c t z = (sk, z1)" by fastforce
  have 1: "holds ctxs socks z0 c sk z1" using holds_socket [OF assms(1,2) sk] .
  show ?thesis
  proof (cases sk)
    case (Some s)
    obtain ok z2 where b: "zmq_bind Z s a z1 = (ok, z2)" by fastforce
    have "holds ctxs socks z0 c (Some s) z2" using holds_keep [OF 1 zmq_lawsD(6) [OF assms(1) b]] Some by simp
    then show ?thesis
      using assms(3) sk Some b holds_close [OF assms(1)] by (auto simp: zsocket_create_and_bind_def split: bool.splits)
  qed (use assms(3) sk 1 in \<open>auto simp: zsocket_create_and_bind_def\<close>)
qed

lemma hello_keeps_handles:
  "zconnect_hello E g zsock tid fl u p zc w = (r, zc', w') \<Longrightarrow> zc_zctx zc' = zc_zctx zc \<and> zc_zsock zc' = zc_zsock zc"
  by (auto simp: zconnect_hello_def Let_def split: prod.splits sum.splits fail.splits if_splits)

text \<open>What the client holds after \<^verbatim>\<open>connect\<close>, whatever its result.\<close>

lemma zconnect_holds:
  assumes "zmq_laws Z ctxs socks" "\<not> cl_connected (zc_rmi zc)" "zconnect Z E g zsock tid fl u p zc z w = (r, zc', z', w')"
  shows "(zc_zctx zc' = None \<and> ctxs z' = ctxs z \<and> socks z' = socks z \<and> \<not> cl_connected (zc_rmi zc')) \<or>
    (\<exists>c sock. zc_zctx zc' = Some c \<and> holds ctxs socks z c sock z' \<and> (cl_connected (zc_rmi zc') \<longrightarrow> zc_zsock zc' = sock))"
proof -
  obtain ctx z1 where ctx: "zmq_ctx_new Z z = (ctx, z1)" by fastforce
  show ?thesis
  proof (cases ctx)
    case None
    then show ?thesis using assms(2,3) ctx zmq_lawsD(1) [OF assms(1)] by (auto simp: zconnect_def)
  next
    case (Some c)
    obtain sk z2 where sk: "zsocket_create Z c ZMQ_REQ z1 = (sk, z2)" by fastforce
    have 2: "holds ctxs socks z c sk z2"
      using holds_socket [OF assms(1) holds_new [OF assms(1)], of z c z1] ctx Some sk by (simp add: zsocket_create_def)
    show ?thesis
    proof (cases sk)
      case None
      then show ?thesis using assms(2,3) ctx Some sk 2 by (auto simp: zconnect_def Let_def)
    next
      case (Some s)
      obtain rc z3 where cn: "zsocket_connect Z s u z2 = (rc, z3)" by fastforce
      have 3: "holds ctxs socks z c (if rc = QV_SUCCESS then Some s else None) z3"
        using holds_connect [OF assms(1) _ cn] 2 Some by blast
      obtain ok z4 where so: "zmq_setsockopt Z s ZMQ_RCVTIMEO 5000 z3 = (ok, z4)" by fastforce
      have 4: "holds ctxs socks z c (if rc = QV_SUCCESS then Some s else None) z4"
        using holds_keep [OF 3 zmq_lawsD(7) [OF assms(1) so]] .
      show ?thesis
        using assms(2,3) ctx \<open>ctx = Some c\<close> sk Some cn so 3 4
        by (auto simp: zconnect_def Let_def split: if_splits bool.splits prod.splits dest!: hello_keeps_handles)
    qed
  qed
qed

section \<open>Agreement with the abstract connection\<close>

text \<open>Which calls succeed, as \<open>connect\<close> and \<open>server_start\<close> of \<open>QV_Rmi\<close> take them.\<close>

definition conn_io_of :: "'z zmq \<Rightarrow> string \<Rightarrow> 'z \<Rightarrow> conn_io" where
  "conn_io_of Z addr z =
     (let (ctx, z1) = zmq_ctx_new Z z; (sk, z2) = zmq_socket Z (the ctx) ZMQ_REQ z1; (ok, z3) = zmq_connect Z (the sk) addr z2
      in \<lparr>ctx_works = ctx \<noteq> None, socket_works = sk \<noteq> None, connect_works = ok,
          setsockopt_works = fst (zmq_setsockopt Z (the sk) ZMQ_RCVTIMEO 5000 z3)\<rparr>)"

lemma hello_refines:
  "(case zconnect_hello E g zsock tid fl u p zc w of (r, zc', w') \<Rightarrow> (rbind r (\<lambda>rc. Inr (rc, zc_rmi zc')), w')) =
   connect E g \<lparr>ctx_works = True, socket_works = True, connect_works = True, setsockopt_works = True\<rparr> zsock tid fl u p (zc_rmi zc) w"
  by (auto simp: zconnect_hello_def connect_def Let_def split: prod.splits sum.splits fail.splits)

lemma connect_io_works:
  "ctx_works io \<and> socket_works io \<and> connect_works io \<and> setsockopt_works io \<Longrightarrow>
   connect E g io = connect E g \<lparr>ctx_works = True, socket_works = True, connect_works = True, setsockopt_works = True\<rparr>"
  by (intro ext) (simp add: connect_def)

section \<open>Properties\<close>

text \<open>The connection over explicit ZeroMQ handles refines the abstract one: forgetting the handles, the client's
  \<^verbatim>\<open>connect\<close> returns the same code, leaves the same client and the same world as \<open>connect\<close> of
  \<open>QV_Rmi\<close> run with the outcomes of the ZeroMQ calls that were made, on every path.\<close>

theorem zconnect_refines_connect:
  "(case zconnect Z E g zsock tid fl u p zc z w of (r, zc', z', w') \<Rightarrow> (rbind r (\<lambda>rc. Inr (rc, zc_rmi zc')), w')) =
   connect E g (conn_io_of Z u z) zsock tid fl u p (zc_rmi zc) w"
proof (cases "ctx_works (conn_io_of Z u z) \<and> socket_works (conn_io_of Z u z) \<and> connect_works (conn_io_of Z u z) \<and> setsockopt_works (conn_io_of Z u z)")
  case True
  then obtain c z1 s z2 z3 z4 where "zmq_ctx_new Z z = (Some c, z1)" "zmq_socket Z c ZMQ_REQ z1 = (Some s, z2)"
    "zmq_connect Z s u z2 = (True, z3)" "zmq_setsockopt Z s ZMQ_RCVTIMEO 5000 z3 = (True, z4)"
    by (cases "zmq_setsockopt Z (the (fst (zmq_socket Z (the (fst (zmq_ctx_new Z z))) ZMQ_REQ (snd (zmq_ctx_new Z z))))) ZMQ_RCVTIMEO 5000
          (snd (zmq_connect Z (the (fst (zmq_socket Z (the (fst (zmq_ctx_new Z z))) ZMQ_REQ (snd (zmq_ctx_new Z z))))) u
            (snd (zmq_socket Z (the (fst (zmq_ctx_new Z z))) ZMQ_REQ (snd (zmq_ctx_new Z z))))))")
      (auto simp: conn_io_of_def Let_def split: prod.splits)
  then show ?thesis
    using hello_refines [of E g zsock tid fl u p "zc\<lparr>zc_zctx := Some c, zc_zsock := Some s\<rparr>" w]
    by (simp add: connect_io_works [OF True] zconnect_def zsocket_create_def zsocket_connect_def split: prod.splits)
next
  case False
  then have "connect E g (conn_io_of Z u z) zsock tid fl u p (zc_rmi zc) w = (Inr (QV_RES_UNAVAILABLE, zc_rmi zc), w)"
    by (auto simp: connect_def)
  with False show ?thesis
    by (auto simp: zconnect_def zsocket_create_def zsocket_connect_def conn_io_of_def Let_def split: prod.splits option.splits bool.splits)
qed



text \<open>A reply's message is closed on every path; \<open>zrpc_rep\<close> agrees with \<open>rpc_rep\<close>, and a failed receive closes
  the message twice.\<close>

lemma zrpc_rep_closes:
  "zrpc_rep E tys True recvd = Inr (rpc_rep E tys recvd, Msg_closed)"
  "zrpc_rep E tys False recvd = Inl Undef"
  "client_recv_msg True None = (QV_ERR_RPC, Msg_closed)"
  by (auto simp: zrpc_rep_def client_recv_msg_def zmsg_close_def rpc_rep_def Let_def split: option.splits)

section \<open>Witnesses\<close>

text \<open>A library whose state is the list of the contexts and the list of the sockets with their contexts.\<close>

definition demo_fresh :: "nat list \<times> (nat \<times> nat) list \<Rightarrow> nat" where
  "demo_fresh = (\<lambda>(cs, ss). Suc (sum_list cs + sum_list (map fst ss) + sum_list (map snd ss)))"

definition demo_zmq :: "bool \<Rightarrow> (nat list \<times> (nat \<times> nat) list) zmq" where
  "demo_zmq works =
     \<lparr>zmq_ctx_new = \<lambda>(cs, ss). (Some (demo_fresh (cs, ss)), demo_fresh (cs, ss) # cs, ss),
      zmq_socket = \<lambda>c t (cs, ss). (Some (demo_fresh (cs, ss)), cs, (demo_fresh (cs, ss), c) # ss),
      zmq_connect = \<lambda>s a z. (works, z), zmq_bind = \<lambda>s a z. (works, z), zmq_setsockopt = \<lambda>s p v z. (True, z),
      zmq_close = \<lambda>s (cs, ss). (True, cs, filter (\<lambda>(s', c). s' \<noteq> s) ss),
      zmq_ctx_destroy = \<lambda>c (cs, ss). if c \<in> ran (map_of ss) then None else Some (True, removeAll c cs, ss)\<rparr>"

lemma demo_fresh_new:
  "demo_fresh (cs, ss) \<notin> set cs" "map_of ss (demo_fresh (cs, ss)) = None" "demo_fresh (cs, ss) \<notin> ran (map_of ss)"
proof -
  have le: "x \<le> sum_list xs" if "x \<in> set xs" for x :: nat and xs using that by (rule member_le_sum_list) simp_all
  show "demo_fresh (cs, ss) \<notin> set cs" using le [of "demo_fresh (cs, ss)" cs] by (auto simp: demo_fresh_def)
  show "map_of ss (demo_fresh (cs, ss)) = None"
    using le [of "demo_fresh (cs, ss)" "map fst ss"] by (auto simp: demo_fresh_def map_of_eq_None_iff)
  show "demo_fresh (cs, ss) \<notin> ran (map_of ss)"
  proof
    assume "demo_fresh (cs, ss) \<in> ran (map_of ss)"
    then have "demo_fresh (cs, ss) \<in> set (map snd ss)" by (force simp: ran_def dest: map_of_SomeD)
    from le [OF this] show False by (simp add: demo_fresh_def)
  qed
qed

lemma map_of_filter_key: "map_of (filter (\<lambda>(s', c). s' \<noteq> s) ss) = (map_of ss)(s := None)"
  by (induction ss) (auto simp: fun_eq_iff)

lemma demo_zmq_laws: "zmq_laws (demo_zmq works) (set \<circ> fst) (map_of \<circ> snd)"
  unfolding zmq_laws_def
  by (intro conjI allI impI; simp add: demo_zmq_def demo_fresh_new map_of_filter_key split: prod.splits if_splits)
    (auto simp: demo_fresh_new map_of_filter_key)

definition demo_zclient :: zclient where
  "demo_zclient = \<lparr>zc_zctx = None, zc_zsock = None, zc_rmi = demo_client\<lparr>cl_connected := False\<rparr>\<rparr>"



end
