(* ===== verification/QV_Pthread.thy ===== *)
theory QV_Pthread
  imports QV_Scope
begin

text \<open>
  Creating a thread inside a scope (\<^verbatim>\<open>qv_pthread_create\<close> in \<^verbatim>\<open>quo-vadis-thread.cc\<close>, with
  \<^verbatim>\<open>call_first_from_pthread_create\<close> of \<^verbatim>\<open>qvi-group-pthread.cc\<close>): two argument blocks travel from the
  creating thread to the new one, which has to free them. The new thread runs later, when the heap and the
  library may have been changed by others: the steps of the two threads are separate definitions.
  \<open>qvi_pthread_start_routine\<close> of \<open>QV_Scope\<close> is what the new thread does on the library's state.
\<close>

section \<open>Argument blocks\<close>

record ('w, 'a, 'r) qvi_pthread_args =
  pa_scope :: nat
  pa_th_routine :: "'a \<Rightarrow> ('w, 'r) qv_op"
  pa_th_routine_argp :: 'a

text \<open>The start routine in the second block is always \<open>qvi_pthread_start_routine\<close>; its argument is the address of a
  block of the first kind. The group is \<open>None\<close> for a null pointer.\<close>

record qvi_pthread_create_args =
  ca_group :: "nat option"
  ca_throutine_argp :: nat

record ('w, 'a, 'r) pt_heap =
  pt_args :: "nat \<rightharpoonup> ('w, 'a, 'r) qvi_pthread_args"
  pt_cargs :: "nat \<rightharpoonup> qvi_pthread_create_args"

text \<open>\<open>new_args\<close> and \<open>new_cargs\<close>: the addresses that the allocator returns, \<open>None\<close> when memory is exhausted.\<close>

definition alloc_laws :: "('w, 'a, 'r) pt_heap \<Rightarrow> nat option \<Rightarrow> nat option \<Rightarrow> bool" where
  "alloc_laws H new_args new_cargs \<longleftrightarrow>
     (\<forall>p. new_args = Some p \<longrightarrow> pt_args H p = None) \<and> (\<forall>c. new_cargs = Some c \<longrightarrow> pt_cargs H c = None)"

definition ENOMEM :: int where
  "ENOMEM = 12"

text \<open>
  The creating thread: the result with the block handed to the new thread (\<open>None\<close>: no thread was started), and
  the heap. \<open>create_rc\<close> is what \<^verbatim>\<open>pthread_create\<close> returns. No group of the program is a
  \<^verbatim>\<open>qvi_group_pthread\<close>, so that the cast yields a null pointer; it needs the scope's group, though.
\<close>

definition qv_pthread_create ::
  "nat option \<Rightarrow> nat option \<Rightarrow> int \<Rightarrow> ('a \<Rightarrow> ('w, 'r) qv_op) \<Rightarrow> 'a \<Rightarrow> nat \<Rightarrow> 'w qv_lib \<Rightarrow> ('w, 'a, 'r) pt_heap \<Rightarrow>
   (int \<times> nat option) res \<times> ('w, 'a, 'r) pt_heap" where
  "qv_pthread_create new_args new_cargs create_rc thread_routine arg scope S H =
     (case new_args of
        None \<Rightarrow> (Inr (ENOMEM, None), H)
      | Some pthread_start_args \<Rightarrow>
          let H1 = H\<lparr>pt_args := (pt_args H)(pthread_start_args \<mapsto>
                     \<lparr>pa_scope = scope, pa_th_routine = thread_routine, pa_th_routine_argp = arg\<rparr>)\<rparr>
          in if l_scopes S scope = None then (Inl Undef, H1)
             else case new_cargs of
                    None \<Rightarrow> (Inr (ENOMEM, None), H1\<lparr>pt_args := (pt_args H1)(pthread_start_args := None)\<rparr>)
                  | Some cargs \<Rightarrow>
                      let H2 = H1\<lparr>pt_cargs := (pt_cargs H1)(cargs \<mapsto> \<lparr>ca_group = None, ca_throutine_argp = pthread_start_args\<rparr>)\<rparr>
                      in (Inr (create_rc, if create_rc = 0 then Some cargs else None), H2))"

text \<open>The new thread. \<open>qvi_pthread_start_routine\<close> gives \<open>None\<close> when the thread ends because it could not be bound,
  before the block of its arguments is freed.\<close>

definition start_routine_args ::
  "'w scope_env \<Rightarrow> nat \<Rightarrow> ('w, 'a, 'r) pt_heap \<Rightarrow> 'w qv_lib \<Rightarrow> 'r option res \<times> ('w, 'a, 'r) pt_heap \<times> 'w qv_lib" where
  "start_routine_args X arg H S =
     (case pt_args H arg of
        None \<Rightarrow> (Inl Undef, H, S)
      | Some args \<Rightarrow>
          (case qvi_pthread_start_routine X (pa_scope args) (pa_th_routine args (pa_th_routine_argp args)) S of
             (Inr (Some ret), S') \<Rightarrow> (Inr (Some ret), H\<lparr>pt_args := (pt_args H)(arg := None)\<rparr>, S')
           | (r, S') \<Rightarrow> (r, H, S')))"

definition call_first_from_pthread_create ::
  "'w scope_env \<Rightarrow> nat \<Rightarrow> ('w, 'a, 'r) pt_heap \<Rightarrow> 'w qv_lib \<Rightarrow> 'r option res \<times> ('w, 'a, 'r) pt_heap \<times> 'w qv_lib" where
  "call_first_from_pthread_create X arg H S =
     (case pt_cargs H arg of
        None \<Rightarrow> (Inl Undef, H, S)
      | Some args \<Rightarrow> start_routine_args X (ca_throutine_argp args) (H\<lparr>pt_cargs := (pt_cargs H)(arg := None)\<rparr>) S)"

section \<open>Lemmas\<close>

text \<open>What the creating thread does to the heap, by outcome.\<close>

lemma pthread_create_cases:
  assumes "qv_pthread_create new_args new_cargs create_rc routine arg scope S H = (Inr (rc, tid), H')" "alloc_laws H new_args new_cargs"
  shows "(tid = None \<and> rc = ENOMEM \<and> H' = H \<and> (new_args = None \<or> new_cargs = None)) \<or>
    (\<exists>p c. new_args = Some p \<and> new_cargs = Some c \<and> rc = create_rc \<and> tid = (if rc = 0 then Some c else None) \<and>
      pt_args H p = None \<and> pt_cargs H c = None \<and>
      pt_args H' = (pt_args H)(p \<mapsto> \<lparr>pa_scope = scope, pa_th_routine = routine, pa_th_routine_argp = arg\<rparr>) \<and>
      pt_cargs H' = (pt_cargs H)(c \<mapsto> \<lparr>ca_group = None, ca_throutine_argp = p\<rparr>))"
  using assms
  by (auto simp: qv_pthread_create_def Let_def alloc_laws_def fun_upd_idem split: option.splits if_splits)

section \<open>Properties\<close>


section \<open>Witness\<close>


end
