(* ===== verification/QV_Threads.thy ===== *)
theory QV_Threads
  imports QV_Task QV_Group
begin

text \<open>
  Threads that share thread groups: \<^verbatim>\<open>qvi_group_thread::task\<close> (\<^verbatim>\<open>qvi-group-thread.h\<close>) called by many threads on many groups, and
  the binding operations of \<^verbatim>\<open>qvi-task.cc\<close> on the tasks it returns. A call of \<^verbatim>\<open>task\<close> holds the mutex of its group, and
  the counter that all groups share is fetched and incremented atomically, so that the calls take effect one after the other; a
  schedule is the sequence in which they do.
\<close>

section \<open>Schedules\<close>

text \<open>Calls of \<^verbatim>\<open>task\<close>: the group and the calling thread. The results are the indices of the tasks.\<close>

fun run_tasks ::
  "(nat \<times> int) list \<Rightarrow> nat \<Rightarrow> (nat \<Rightarrow> qvi_group_thread) \<Rightarrow> (nat list \<times> nat \<times> (nat \<Rightarrow> qvi_group_thread)) res" where
  "run_tasks [] next_index gs = Inr ([], next_index, gs)"
| "run_tasks ((k, tid) # calls) next_index gs =
     rbind (thread_task tid next_index (gs k)) (\<lambda>(i, nx, g').
     rbind (run_tasks calls nx (gs(k := g'))) (\<lambda>(ix, nx', gs'). Inr (i # ix, nx', gs')))"

text \<open>Pushes and pops through the task that the group returns. A group comes with its vector of tasks.\<close>

definition bind_step ::
  "(int \<Rightarrow> bitmap \<Rightarrow> 'w \<Rightarrow> unit res \<times> 'w) \<Rightarrow> int \<Rightarrow> bind_op \<Rightarrow> qvi_task \<Rightarrow> 'w \<Rightarrow> unit res \<times> qvi_task \<times> 'w" where
  "bind_step setb tid op t w = (case op of Push b \<Rightarrow> bind_push setb tid b t w | Pop \<Rightarrow> bind_pop setb tid t w)"

fun run_binds ::
  "(int \<Rightarrow> bitmap \<Rightarrow> 'w \<Rightarrow> unit res \<times> 'w) \<Rightarrow> (nat \<times> int \<times> bind_op) list \<Rightarrow> nat \<Rightarrow> (nat \<Rightarrow> qvi_group_thread) \<Rightarrow> (nat \<Rightarrow> qvi_task list) \<Rightarrow> 'w \<Rightarrow>
   'w res" where
  "run_binds setb [] next_index gs tasks w = Inr w"
| "run_binds setb ((k, tid, op) # calls) next_index gs tasks w =
     rbind (thread_task tid next_index (gs k)) (\<lambda>(i, nx, g').
     rbind (vec_at (tasks k) i) (\<lambda>t.
       case bind_step setb tid op t w of
         (Inl f, t', w') \<Rightarrow> Inl f
       | (Inr u, t', w') \<Rightarrow> run_binds setb calls nx (gs(k := g')) (tasks(k := (tasks k)[i := t'])) w'))"

section \<open>One call\<close>

definition cached :: "qvi_group_thread \<Rightarrow> int \<rightharpoonup> nat" where
  "cached g = map_of (lru_abs (m_tid2index g))"

lemma map_of_moved_front: "map_of ((k, v) # filter (\<lambda>(k', _). k' \<noteq> k) l) = (map_of l)(k \<mapsto> v)"
proof -
  have "map_of (filter (\<lambda>(k', _). k' \<noteq> k) l) x = map_of l x" if "x \<noteq> k" for x
    using that by (induction l) auto
  then show ?thesis by auto
qed

lemma length_moved_front: "map_of l k = Some v \<Longrightarrow> length (filter (\<lambda>(k', _). k' \<noteq> k) l) < length l"
  by (induction l) (auto simp: less_Suc_eq_le split: if_splits)

text \<open>While the cache is not full, a call adds the thread to the cached ones and changes no other.\<close>

definition room :: "qvi_group_thread \<Rightarrow> bool" where
  "room g \<longleftrightarrow> length (lru_abs (m_tid2index g)) \<le> card (dom (cached g)) \<and> card (dom (cached g)) < m_capacity (m_tid2index g)"

lemma thread_task_cached:
  assumes ok: "thread_group_ok g" "room g"
  shows "\<exists>i nx g'. thread_task tid next_index g = Inr (i, nx, g') \<and> thread_group_ok g' \<and> m_ntasks g' = m_ntasks g \<and>
    m_capacity (m_tid2index g') = m_capacity (m_tid2index g) \<and> cached g' = (cached g)(tid \<mapsto> i) \<and>
    length (lru_abs (m_tid2index g')) \<le> card (dom (cached g')) \<and>
    (case cached g tid of
       Some j \<Rightarrow> i = j \<and> nx = next_index
     | None \<Rightarrow> i = next_index mod m_ntasks g \<and> nx = wrap64 (next_index + 1))"
proof -
  let ?c = "m_tid2index g"
  have c: "lru_ok ?c" "0 < m_ntasks g" "\<forall>(t, i) \<in> set (lru_abs ?c). i < m_ntasks g"
    using ok(1) by (auto simp: thread_group_ok_def)
  obtain i nx g' where call: "thread_task tid next_index g = Inr (i, nx, g')" "thread_group_ok g'" "m_ntasks g' = m_ntasks g"
    "case cached g tid of Some j \<Rightarrow> i = j \<and> nx = next_index | None \<Rightarrow> i = next_index mod m_ntasks g \<and> nx = wrap64 (next_index + 1)"
    using thread_task_ok [OF ok(1), of tid next_index] by (auto simp: cached_def)
  obtain r c1 where get: "lru_get tid ?c = Inr (r, c1)" "lru_ok c1" "spec_get tid (lru_abs ?c) = (r, lru_abs c1)" "m_capacity c1 = m_capacity ?c"
    using lru_get_refines [OF c(1)] by metis
  have moved: "lru_abs (m_tid2index g') = (tid, i) # filter (\<lambda>(k, _). k \<noteq> tid) (lru_abs ?c) \<and> m_capacity (m_tid2index g') = m_capacity ?c"
  proof (cases "cached g tid")
    case None
    then have r: "r = None" "lru_abs c1 = lru_abs ?c" using get(3) by (auto simp: spec_get_def cached_def)
    obtain c2 where put: "lru_put tid i c1 = Inr c2" "m_capacity c2 = m_capacity c1" "lru_abs c2 = spec_put (m_capacity c1) tid i (lru_abs c1)"
      using lru_put_refines [OF get(2)] by metis
    have "m_tid2index g' = c2" using call(1,4) get(1) r put(1) None c(2) by (auto simp: thread_task_def Let_def rbind_Inr_iff)
    moreover have "length (filter (\<lambda>(k, _). k \<noteq> tid) (lru_abs ?c)) < m_capacity ?c"
      by (rule le_less_trans [OF length_filter_le]) (use ok(2) in \<open>simp add: room_def\<close>)
    ultimately show ?thesis using put(2,3) get(4) r(2) by (simp add: spec_put_def)
  next
    case (Some j)
    then have "r = Some j" "lru_abs c1 = (tid, j) # filter (\<lambda>(k, _). k \<noteq> tid) (lru_abs ?c)"
      using get(3) by (auto simp: spec_get_def cached_def)
    then show ?thesis using call(1,4) get(1,4) Some by (auto simp: thread_task_def split: if_splits)
  qed
  then have upd: "cached g' = (cached g)(tid \<mapsto> i)" using map_of_moved_front by (simp add: cached_def)
  have "length (lru_abs (m_tid2index g')) \<le> card (dom (cached g'))"
  proof (cases "cached g tid")
    case None
    then have "tid \<notin> dom (cached g)" by auto
    then have "card (dom (cached g')) = Suc (card (dom (cached g)))" using upd by (simp add: cached_def finite_dom_map_of)
    then show ?thesis using moved ok(2) by (auto simp: room_def intro: le_trans [OF length_filter_le])
  next
    case (Some j)
    then have "dom (cached g') = dom (cached g)" using upd by auto
    then show ?thesis using moved ok(2) length_moved_front [of "lru_abs ?c" tid j] Some by (simp add: room_def cached_def)
  qed
  with call moved upd show ?thesis by simp
qed

section \<open>One group\<close>

text \<open>
  What holds of a group of \<open>n\<close> tasks that had the counter to itself since it was at \<open>c0\<close>: its threads were given consecutive
  indices.
\<close>

definition alone :: "nat \<Rightarrow> nat \<Rightarrow> nat \<Rightarrow> qvi_group_thread \<Rightarrow> bool" where
  "alone n c0 c g \<longleftrightarrow>
     thread_group_ok g \<and> m_ntasks g = n \<and> m_capacity (m_tid2index g) = n * 8 \<and>
     length (lru_abs (m_tid2index g)) \<le> card (dom (cached g)) \<and> c = c0 + card (dom (cached g)) \<and>
     inj_on (cached g) (dom (cached g)) \<and> (\<forall>t i. cached g t = Some i \<longrightarrow> (\<exists>p < card (dom (cached g)). i = (c0 + p) mod n))"

lemma finite_cached [simp]: "finite (dom (cached g))"
  by (simp add: cached_def finite_dom_map_of)

lemma mod_window: "(c0 + p) mod n = (c0 + q) mod n \<Longrightarrow> p \<le> q \<Longrightarrow> q < p + n \<Longrightarrow> p = (q :: nat)"
proof -
  assume a: "(c0 + p) mod n = (c0 + q) mod n" "p \<le> q" "q < p + n"
  then have "n dvd (q - p)" using mod_eq_dvd_iff_nat [of "c0 + p" "c0 + q" n] by simp
  then show ?thesis using a(2,3) by (auto dest: dvd_imp_le)
qed

lemma alone_new: "0 < n \<Longrightarrow> alone n c c (qvi_group_thread_new n)"
  using lru_ok_new [of "n * 8"]
  by (auto simp: alone_def thread_group_ok_def qvi_group_thread_new_def cached_def) (simp add: qvi_lru_cache_new_def)

lemma alone_step:
  assumes g: "alone n c0 c g" and few: "card (insert tid (dom (cached g))) \<le> n" and bound: "c0 + n < 2 ^ 64"
  shows "\<exists>i c' g'. thread_task tid c g = Inr (i, c', g') \<and> alone n c0 c' g' \<and> cached g' = (cached g)(tid \<mapsto> i) \<and>
    (cached g tid = None \<or> cached g tid = Some i)"
proof -
  have n: "0 < n" using g by (auto simp: alone_def thread_group_ok_def)
  have "card (dom (cached g)) \<le> n" using few by (meson card_mono finite_cached finite_insert le_trans subset_insertI)
  then have "room g" using g n by (simp add: alone_def room_def)
  then obtain i c' g' where call: "thread_task tid c g = Inr (i, c', g')" "thread_group_ok g'" "m_ntasks g' = m_ntasks g"
    "m_capacity (m_tid2index g') = m_capacity (m_tid2index g)" "cached g' = (cached g)(tid \<mapsto> i)"
    "length (lru_abs (m_tid2index g')) \<le> card (dom (cached g'))"
    "case cached g tid of Some j \<Rightarrow> i = j \<and> c' = c | None \<Rightarrow> i = c mod m_ntasks g \<and> c' = wrap64 (c + 1)"
    using thread_task_cached [of g tid c] g by (auto simp: alone_def)
  show ?thesis
  proof (cases "cached g tid")
    case (Some j)
    then have "cached g' = cached g" using call(5,7) by auto
    then show ?thesis using call Some g by (auto simp: alone_def)
  next
    case None
    then have fresh: "tid \<notin> dom (cached g)" and d: "card (dom (cached g')) = Suc (card (dom (cached g)))"
      using call(5) by (auto simp: domIff)
    have lt: "card (dom (cached g)) < n" using few fresh by simp
    have c: "c = c0 + card (dom (cached g))" using g by (simp add: alone_def)
    have c': "c' = c0 + card (dom (cached g'))" "i = (c0 + card (dom (cached g))) mod n"
      using call(7) None bound lt d c g by (auto simp: wrap64_def alone_def)
    have new: "cached g t \<noteq> Some i" for t
    proof
      assume "cached g t = Some i"
      then obtain p where "p < card (dom (cached g))" "i = (c0 + p) mod n" using g by (auto simp: alone_def)
      then show False using mod_window [of c0 p n "card (dom (cached g))"] c'(2) lt by simp
    qed
    have inj: "inj_on (cached g') (dom (cached g'))"
      using g new fresh unfolding call(5) alone_def by (auto simp: inj_on_def dom_def)
    have ex: "\<exists>p < card (dom (cached g')). j = (c0 + p) mod n" if "cached g' t = Some j" for t j
    proof (cases "t = tid")
      case True
      then show ?thesis using that c'(2) d unfolding call(5) by auto
    next
      case False
      then have "cached g t = Some j" using that unfolding call(5) by simp
      then obtain p where "p < card (dom (cached g))" "j = (c0 + p) mod n" using g by (auto simp: alone_def)
      then show ?thesis using d by (auto intro: less_SucI)
    qed
    have "alone n c0 c' g'" unfolding alone_def
      by (intro conjI allI impI) (use call(2-4,6) g c'(1) inj ex in \<open>simp_all add: alone_def\<close>)
    then show ?thesis using call(1,5) None by simp
  qed
qed

text \<open>A schedule of one group: every thread is given one index, whenever it calls.\<close>

lemma run_tasks_alone:
  assumes "alone n c0 c (gs k)" "card (dom (cached (gs k)) \<union> set tids) \<le> n" "c0 + n < 2 ^ 64"
  shows "\<exists>ix c' gs'. run_tasks (map (Pair k) tids) c gs = Inr (ix, c', gs') \<and> alone n c0 c' (gs' k) \<and>
    map (cached (gs' k)) tids = map Some ix \<and> (\<forall>t i. cached (gs k) t = Some i \<longrightarrow> cached (gs' k) t = Some i)"
  using assms(1,2)
proof (induction tids arbitrary: c gs)
  case (Cons tid tids)
  have "card (insert tid (dom (cached (gs k)))) \<le> n"
    using Cons.prems(2) by (rule le_trans [OF card_mono, rotated 2]) auto
  from alone_step [OF Cons.prems(1) this assms(3)] obtain i c1 g1 where call: "thread_task tid c (gs k) = Inr (i, c1, g1)"
    "alone n c0 c1 g1" "cached g1 = (cached (gs k))(tid \<mapsto> i)" "cached (gs k) tid = None \<or> cached (gs k) tid = Some i" by auto
  have "card (dom (cached ((gs(k := g1)) k)) \<union> set tids) \<le> n" using Cons.prems(2) by (simp add: call(3))
  moreover have "alone n c0 c1 ((gs(k := g1)) k)" using call(2) by simp
  ultimately obtain ix c' gs' where
    rest: "run_tasks (map (Pair k) tids) c1 (gs(k := g1)) = Inr (ix, c', gs')" "alone n c0 c' (gs' k)"
      "map (cached (gs' k)) tids = map Some ix" "\<forall>t i. cached g1 t = Some i \<longrightarrow> cached (gs' k) t = Some i"
    using Cons.IH [of c1 "gs(k := g1)"] unfolding fun_upd_same by meson
  have "cached (gs' k) tid = Some i" using rest(4) call(3) by simp
  moreover have "cached g1 t = Some j" if "cached (gs k) t = Some j" for t j using that call(3,4) by (cases "t = tid") auto
  then have "\<forall>t j. cached (gs k) t = Some j \<longrightarrow> cached (gs' k) t = Some j" using rest(4) by blast
  ultimately show ?case using call(1) rest(1-3) by simp
qed simp

section \<open>Two threads and a second group\<close>

text \<open>A service that grants every binding; the world is the bindings.\<close>

definition grant_all :: "int \<Rightarrow> bitmap \<Rightarrow> cpubinds \<Rightarrow> unit res \<times> cpubinds" where
  "grant_all who c w = (Inr (), w(who \<mapsto> c))"

interpretation grant: affinity_service "\<lambda>w. True" "\<lambda>who b. True" "\<lambda>w. w" grant_all
  by unfold_locales (auto simp: grant_all_def)

definition pair_group :: "int \<Rightarrow> int \<Rightarrow> (int \<rightharpoonup> nat) \<Rightarrow> qvi_group_thread \<Rightarrow> bool" where
  "pair_group t t' M g \<longleftrightarrow>
     thread_group_ok g \<and> m_ntasks g = 2 \<and> m_capacity (m_tid2index g) = 16 \<and> length (lru_abs (m_tid2index g)) \<le> card (dom (cached g)) \<and>
     cached g = M \<and> dom M \<subseteq> {t, t'}"

lemma pair_group_new: "pair_group t t' Map.empty (qvi_group_thread_new 2)"
  using lru_ok_new [of 16] by (simp add: pair_group_def thread_group_ok_def qvi_group_thread_new_def cached_def) (simp add: qvi_lru_cache_new_def)

lemma pair_group_call:
  assumes g: "pair_group t t' M g" and "tid \<in> {t, t'}"
  shows "\<exists>g'. (case M tid of
      Some j \<Rightarrow> thread_task tid c g = Inr (j, c, g') \<and> pair_group t t' M g'
    | None \<Rightarrow> thread_task tid c g = Inr (c mod 2, wrap64 (c + 1), g') \<and> pair_group t t' (M(tid \<mapsto> c mod 2)) g')"
proof -
  have "card (dom M) \<le> card {t, t'}" using g by (intro card_mono) (auto simp: pair_group_def)
  also have "\<dots> < 16" by (simp add: card_insert_if)
  finally have "room g" using g unfolding pair_group_def room_def by metis
  then obtain i nx g' where "thread_task tid c g = Inr (i, nx, g')" "thread_group_ok g'" "m_ntasks g' = m_ntasks g"
    "m_capacity (m_tid2index g') = m_capacity (m_tid2index g)" "cached g' = M(tid \<mapsto> i)" "length (lru_abs (m_tid2index g')) \<le> card (dom (cached g'))"
    "case M tid of Some j \<Rightarrow> i = j \<and> nx = c | None \<Rightarrow> i = c mod m_ntasks g \<and> nx = wrap64 (c + 1)"
    using thread_task_cached [of g tid c] g by (auto simp: pair_group_def)
  then show ?thesis using g assms(2)
    by (cases "M tid") (auto simp: pair_group_def fun_upd_idem insert_absorb domI)
qed

text \<open>The two threads push and pop in turn, on a group whose counter moves from \<open>c\<close> to \<open>c'\<close> between their first calls.\<close>

lemma pair_calls:
  assumes "t \<noteq> t'"
  obtains g1 g2 g3 g4 where "thread_task t c (qvi_group_thread_new 2) = Inr (c mod 2, wrap64 (c + 1), g1)"
    "thread_task t' c' g1 = Inr (c' mod 2, wrap64 (c' + 1), g2)"
    "thread_task t c'' g2 = Inr (c mod 2, c'', g3)" "thread_task t' c'' g3 = Inr (c' mod 2, c'', g4)"
proof -
  obtain g1 where g1: "thread_task t c (qvi_group_thread_new 2) = Inr (c mod 2, wrap64 (c + 1), g1)" "pair_group t t' [t \<mapsto> c mod 2] g1"
    using pair_group_call [OF pair_group_new, of t t t' c] by auto
  obtain g2 where g2: "thread_task t' c' g1 = Inr (c' mod 2, wrap64 (c' + 1), g2)" "pair_group t t' [t \<mapsto> c mod 2, t' \<mapsto> c' mod 2] g2"
    using pair_group_call [OF g1(2), of t' c'] assms by auto
  obtain g3 where g3: "thread_task t c'' g2 = Inr (c mod 2, c'', g3)" "pair_group t t' [t \<mapsto> c mod 2, t' \<mapsto> c' mod 2] g3"
    using pair_group_call [OF g2(2), of t c''] assms by auto
  obtain g4 where "thread_task t' c'' g3 = Inr (c' mod 2, c'', g4)"
    using pair_group_call [OF g3(2), of t' c''] assms by auto
  with g1 g2 g3 that show ?thesis by blast
qed

lemma wrap64_mod2: "wrap64 n mod 2 = n mod 2"
  by (simp add: wrap64_def mod_mod_cancel)

lemmas bind_step_simps = bind_step_def bind_push_def bind_pop_def grant_all_def vec_at_def

text \<open>What the two threads do to their bindings, with the indices that they were given.\<close>

lemma pair_binds_alone:
  assumes "gs k = g0" "tasks k = [T, T]" "m_stack T = [b0]" "t \<noteq> t'" "(i, j) \<in> {(0, 1), (1, 0)}"
    and "thread_task t c g0 = Inr (i, ca, g1)" "thread_task t' ca g1 = Inr (j, cb, g2)" "thread_task t cb g2 = Inr (i, cb, g3)"
      "thread_task t' cb g3 = Inr (j, cb, g4)"
  shows "\<exists>w'. run_binds grant_all [(k, t, Push c1), (k, t', Push c2), (k, t, Pop), (k, t', Pop)] c gs tasks w = Inr w' \<and> w' t = Some b0"
  using assms by (auto simp: bind_step_simps)

lemma pair_binds_shared:
  assumes "gs k = g0" "gs l = h0" "k \<noteq> l" "tasks k = [T, T]" "tasks l = [T, T]" "m_stack T = [b0]" "distinct [t, t', q]" "i < 2" "j < 2"
    and "thread_task t c g0 = Inr (i, ca, g1)" "thread_task q ca h0 = Inr (j, cb, h1)" "thread_task t' cb g1 = Inr (i, cc, g2)"
      "thread_task t cc g2 = Inr (i, cc, g3)" "thread_task t' cc g3 = Inr (i, cc, g4)"
  shows "\<exists>w'. run_binds grant_all [(k, t, Push c1), (l, q, Push d), (k, t', Push c2), (k, t, Pop), (k, t', Pop)] c gs tasks w = Inr w' \<and> w' t = Some c1"
proof -
  have "i = 0 \<or> i = 1" "j = 0 \<or> j = 1" using assms(8,9) by auto
  then show ?thesis using assms by (elim disjE) (simp_all add: bind_step_simps)
qed

section \<open>Properties\<close>

text \<open>C13: The threads of a group have tasks of their own. If a new group is the only one in use and not more threads use it than
  it has tasks, then, in whatever order and however often the threads ask for their task, each always gets the same one, and
  different threads get different ones.\<close>

theorem threads_have_own_tasks:
  assumes "0 < n" "gs k = qvi_group_thread_new n" "card (set tids) \<le> n" "c + n < 2 ^ 64"
  shows "\<exists>ix c' gs'. run_tasks (map (Pair k) tids) c gs = Inr (ix, c', gs') \<and> length ix = length tids \<and>
    (\<forall>i < length tids. ix ! i < n \<and> (\<forall>j < length tids. (ix ! i = ix ! j) = (tids ! i = tids ! j)))"
proof -
  have a: "alone n c c (gs k)" using alone_new [OF assms(1)] assms(2) by simp
  have "dom (cached (gs k)) = {}" by (simp add: assms(2) cached_def qvi_group_thread_new_def)
  then obtain ix c' gs' where run: "run_tasks (map (Pair k) tids) c gs = Inr (ix, c', gs')" and g: "alone n c c' (gs' k)"
    and m: "map (cached (gs' k)) tids = map Some ix" using run_tasks_alone [of n c c gs k tids, OF a] assms(3,4) by auto
  have len: "length ix = length tids" using m by (metis length_map)
  have nth: "cached (gs' k) (tids ! i) = Some (ix ! i)" if "i < length tids" for i
    using arg_cong [OF m, of "\<lambda>l. l ! i"] that len by simp
  have "ix ! i < n" if "i < length tids" for i
    using g nth [OF that] assms(1) by (fastforce simp: alone_def)
  moreover have "(ix ! i = ix ! j) = (tids ! i = tids ! j)" if "i < length tids" "j < length tids" for i j
  proof
    assume "ix ! i = ix ! j"
    then have "cached (gs' k) (tids ! i) = cached (gs' k) (tids ! j)" using nth that by simp
    moreover have "inj_on (cached (gs' k)) (dom (cached (gs' k)))" using g by (simp add: alone_def)
    ultimately show "tids ! i = tids ! j" using nth [OF that(1)] nth [OF that(2)] by (meson domI inj_onD)
  next
    assume "tids ! i = tids ! j"
    then show "ix ! i = ix ! j" using nth [OF that(1)] nth [OF that(2)] by simp
  qed
  ultimately show ?thesis using run len by blast
qed

theorem threads_have_own_tasks_witness:
  "\<exists>ix c' gs'. run_tasks (map (Pair 0) [41, 42, 41]) 5 (\<lambda>k. qvi_group_thread_new 2) = Inr (ix, c', gs') \<and>
     ix ! 0 = ix ! 2 \<and> ix ! 0 \<noteq> ix ! 1"
proof -
  obtain ix c' gs' where run: "run_tasks (map (Pair 0) [41, 42, 41]) 5 (\<lambda>k. qvi_group_thread_new 2) = Inr (ix, c', gs')"
    and eq: "\<forall>i < 3. \<forall>j < 3. (ix ! i = ix ! j) = ([41, 42, 41 :: int] ! i = [41, 42, 41] ! j)"
    using threads_have_own_tasks [of 2 "\<lambda>k. qvi_group_thread_new 2" 0 "[41, 42, 41]" 5] by (auto simp: card_insert_if)
  have "ix ! 0 = ix ! 2" using eq [rule_format, of 0 2] by simp
  moreover have "ix ! 0 \<noteq> ix ! 1" using eq [rule_format, of 0 1] by simp
  ultimately show ?thesis using run by blast
qed



end
