(* ===== verification/QV_Files.thy ===== *)
theory QV_Files
  imports QV_Prelude "HOL-Library.Sublist"
begin

text \<open>
  Removing a directory tree (\<^verbatim>\<open>qvi_rmall\<close> in \<^verbatim>\<open>qvi-utils.cc\<close>), which the daemon uses to remove its
  session directory. A path is the list of its components; the file system is the set of the paths that
  exist. The tree walk (\<^verbatim>\<open>nftw\<close> with \<^verbatim>\<open>FTW_DEPTH\<close> and \<^verbatim>\<open>FTW_PHYS\<close>) visits the entries of
  a directory before the directory and stops at the first callback that does not return zero.
\<close>

section \<open>Single files\<close>

text \<open>\<^verbatim>\<open>access\<close> and \<^verbatim>\<open>stat\<close> are parameters: the first yields the error number of a refusal, the second the size of the file.\<close>

definition qvi_access :: "(string \<Rightarrow> int \<Rightarrow> int option) \<Rightarrow> string \<Rightarrow> int \<Rightarrow> bool \<times> int" where
  "qvi_access sys_access path mode = (case sys_access path mode of Some errno \<Rightarrow> (False, errno) | None \<Rightarrow> (True, 0))"

definition qvi_file_size :: "(string \<Rightarrow> nat option) \<Rightarrow> string \<Rightarrow> nat res" where
  "qvi_file_size sys_stat path = (case sys_stat path of None \<Rightarrow> Inl (Rc QV_ERR_FILE_IO) | Some st_size \<Rightarrow> Inr (wrap64 st_size))"

section \<open>The walk\<close>

type_synonym fpath = "string list"

type_synonym files = "fpath set"

datatype fnode = File | Dir "(string \<times> fnode) list"

fun ftw_depth :: "fpath \<Rightarrow> fnode \<Rightarrow> fpath list" where
  "ftw_depth p File = [p]"
| "ftw_depth p (Dir es) = concat (map (\<lambda>(n, t). ftw_depth (p @ [n]) t) es) @ [p]"

fun names_distinct :: "fnode \<Rightarrow> bool" where
  "names_distinct File \<longleftrightarrow> True"
| "names_distinct (Dir es) \<longleftrightarrow> distinct (map fst es) \<and> (\<forall>(n, t) \<in> set es. names_distinct t)"

text \<open>The callback: \<^verbatim>\<open>remove\<close> fails when the operating system denies it, and on a directory that is not
  empty.\<close>

definition rmall_cb :: "(fpath \<Rightarrow> bool) \<Rightarrow> fpath \<Rightarrow> files \<Rightarrow> int \<times> files" where
  "rmall_cb denied path fs = (if denied path \<or> (\<exists>q \<in> fs. strict_prefix path q) then (-1, fs) else (0, fs - {path}))"

fun nftw :: "(fpath \<Rightarrow> files \<Rightarrow> int \<times> files) \<Rightarrow> fpath list \<Rightarrow> files \<Rightarrow> int \<times> files" where
  "nftw cb [] fs = (0, fs)"
| "nftw cb (p # ps) fs = (case cb p fs of (rc, fs') \<Rightarrow> if rc \<noteq> 0 then (rc, fs') else nftw cb ps fs')"

text \<open>\<open>tree = None\<close>: the path cannot be examined, so that the walk fails at once.\<close>

definition qvi_rmall :: "(fpath \<Rightarrow> bool) \<Rightarrow> fpath \<Rightarrow> fnode option \<Rightarrow> files \<Rightarrow> qv_rc \<times> files" where
  "qvi_rmall denied path tree fs =
     (case (case tree of None \<Rightarrow> (-1, fs) | Some t \<Rightarrow> nftw (rmall_cb denied) (ftw_depth path t) fs) of
        (rc, fs') \<Rightarrow> (if rc \<noteq> 0 then QV_ERR_FILE_IO else QV_SUCCESS, fs'))"

section \<open>Lemmas\<close>

lemma nftw_append:
  "nftw cb (ps @ qs) fs = (case nftw cb ps fs of (rc, fs') \<Rightarrow> if rc \<noteq> 0 then (rc, fs') else nftw cb qs fs')"
  by (induction ps arbitrary: fs) (auto split: prod.splits)

lemma ftw_depth_prefix: "q \<in> set (ftw_depth p t) \<Longrightarrow> prefix p q"
proof (induction t arbitrary: p q)
  case (Dir es)
  then show ?case by (fastforce dest: append_prefixD)
qed simp

text \<open>The files that a tree at a path stands for: everything in the file system that is below the path.\<close>

definition is_tree :: "fpath \<Rightarrow> fnode \<Rightarrow> files \<Rightarrow> bool" where
  "is_tree p t fs \<longleftrightarrow> {q \<in> fs. prefix p q} = set (ftw_depth p t)"

text \<open>What a failed or a finished walk has removed lies in the tree.\<close>

lemma nftw_removes:
  "nftw (rmall_cb denied) ps fs = (rc, fs') \<Longrightarrow> fs' \<subseteq> fs \<and> fs - fs' \<subseteq> set ps \<and> (rc = 0 \<longrightarrow> fs' = fs - set ps)"
proof (induction ps arbitrary: fs)
  case (Cons p ps)
  show ?case
  proof (cases "denied p \<or> (\<exists>q \<in> fs. strict_prefix p q)")
    case True
    then show ?thesis using Cons.prems by (auto simp: rmall_cb_def)
  next
    case False
    then have "nftw (rmall_cb denied) ps (fs - {p}) = (rc, fs')" using Cons.prems by (auto simp: rmall_cb_def [of denied p fs])
    from Cons.IH [OF this] show ?thesis by auto
  qed
qed simp

lemma sibling_paths: "prefix (p @ [n]) q \<Longrightarrow> prefix (p @ [m]) q \<Longrightarrow> n = m"
  by (auto simp: prefix_def)

lemma entry_tree:
  assumes "is_tree p (Dir es) fs" "distinct (map fst es)" "(n, t) \<in> set es"
  shows "is_tree (p @ [n]) t fs"
proof -
  have "q \<in> set (ftw_depth (p @ [n]) t)" if q: "q \<in> fs" "prefix (p @ [n]) q" for q
  proof -
    have "q \<in> set (ftw_depth p (Dir es))" using assms(1) q by (auto simp: is_tree_def dest: append_prefixD)
    moreover have "q \<noteq> p" using q(2) by auto
    ultimately obtain m t' where m: "(m, t') \<in> set es" "q \<in> set (ftw_depth (p @ [m]) t')" by auto
    then have "m = n" using sibling_paths [OF ftw_depth_prefix [OF m(2)] q(2)] by simp
    then show ?thesis using m assms(2,3) by (metis eq_key_imp_eq_value)
  qed
  moreover have "q \<in> fs" if "q \<in> set (ftw_depth (p @ [n]) t)" for q
    using that assms(1,3) by (force simp: is_tree_def)
  ultimately show ?thesis using ftw_depth_prefix by (auto simp: is_tree_def)
qed

text \<open>Removing the entries of a directory one after the other.\<close>

lemma nftw_entries:
  assumes "\<And>n t fs. (n, t) \<in> set es \<Longrightarrow> is_tree (p @ [n]) t fs \<Longrightarrow> nftw cb (ftw_depth (p @ [n]) t) fs = (0, fs - set (ftw_depth (p @ [n]) t))"
    and "distinct (map fst es)" "\<forall>(n, t) \<in> set es. is_tree (p @ [n]) t fs"
  shows "nftw cb (concat (map (\<lambda>(n, t). ftw_depth (p @ [n]) t) es)) fs = (0, fs - set (concat (map (\<lambda>(n, t). ftw_depth (p @ [n]) t) es)))"
  using assms
proof (induction es arbitrary: fs)
  case (Cons e es)
  obtain n t where e: "e = (n, t)" by (cases e)
  let ?fs = "fs - set (ftw_depth (p @ [n]) t)"
  have "nftw cb (ftw_depth (p @ [n]) t) fs = (0, ?fs)" using Cons.prems(1,3) e by simp
  moreover have others: "is_tree (p @ [m]) t' ?fs" if "(m, t') \<in> set es" for m t'
  proof -
    have "m \<noteq> n" using Cons.prems(2) e that by force
    then have "{q \<in> ?fs. prefix (p @ [m]) q} = {q \<in> fs. prefix (p @ [m]) q}"
      using sibling_paths [of p m _ n] ftw_depth_prefix [of _ "p @ [n]" t] by auto
    then show ?thesis using Cons.prems(3) that by (auto simp: is_tree_def)
  qed
  moreover have "nftw cb (concat (map (\<lambda>(n, t). ftw_depth (p @ [n]) t) es)) ?fs =
      (0, ?fs - set (concat (map (\<lambda>(n, t). ftw_depth (p @ [n]) t) es)))"
    by (rule Cons.IH) (use Cons.prems(1,2) others in auto)
  ultimately show ?case using e by (simp add: nftw_append Diff_eq Int_assoc)
qed simp

lemma nothing_below: "is_tree p t fs \<Longrightarrow> set (ftw_depth p t) = insert p qs \<Longrightarrow> \<not> (\<exists>q \<in> fs - qs. strict_prefix p q)"
proof
  assume "is_tree p t fs" "set (ftw_depth p t) = insert p qs" "\<exists>q \<in> fs - qs. strict_prefix p q"
  then obtain q where "q \<in> {q \<in> fs. prefix p q}" "q \<notin> qs" "q \<noteq> p" and tree: "{q \<in> fs. prefix p q} = insert p qs"
    by (auto simp: is_tree_def strict_prefix_def)
  then show False by (simp only: tree) simp
qed

lemma nftw_tree:
  assumes "\<forall>q \<in> set (ftw_depth p t). \<not> denied q" "names_distinct t" "is_tree p t fs"
  shows "nftw (rmall_cb denied) (ftw_depth p t) fs = (0, fs - set (ftw_depth p t))"
  using assms
proof (induction t arbitrary: p fs)
  case File
  then have "\<not> (\<exists>q \<in> fs. strict_prefix p q)" using nothing_below [OF File(3), of "{}"] by simp
  then have "rmall_cb denied p fs = (0, fs - {p})" using File(1) by (simp only: rmall_cb_def) auto
  then show ?case by simp
next
  case (Dir es)
  let ?qs = "concat (map (\<lambda>(n, t). ftw_depth (p @ [n]) t) es)"
  have "nftw (rmall_cb denied) ?qs fs = (0, fs - set ?qs)"
  proof (rule nftw_entries)
    fix n t fs' assume nt: "(n, t) \<in> set es" and tree: "is_tree (p @ [n]) t fs'"
    show "nftw (rmall_cb denied) (ftw_depth (p @ [n]) t) fs' = (0, fs' - set (ftw_depth (p @ [n]) t))"
      by (rule Dir.IH [OF nt _ _ _ tree]) (use Dir.prems nt in auto)
  qed (use Dir.prems entry_tree in auto)
  moreover have "\<not> (\<exists>q \<in> fs - set ?qs. strict_prefix p q)" using nothing_below [OF Dir.prems(3), of "set ?qs"] by simp
  then have "rmall_cb denied p (fs - set ?qs) = (0, fs - set ?qs - {p})" using Dir.prems(1) by (simp only: rmall_cb_def) auto
  ultimately show ?case by (simp add: nftw_append) auto
qed

section \<open>Properties\<close>

text \<open>C29: Removing a directory tree. If the operating system permits it, everything below the path is removed and
  nothing else, because every directory is already empty when its turn comes. If it denies the removal of
  something in the tree, the call returns an I/O error; then too, only files of the tree are gone.\<close>

theorem rmall_removes_tree:
  assumes "names_distinct t" "is_tree path t fs" "qvi_rmall denied path (Some t) fs = (rc, fs')"
  shows "(if \<exists>q \<in> fs. prefix path q \<and> denied q then rc = QV_ERR_FILE_IO else rc = QV_SUCCESS \<and> fs' = {q \<in> fs. \<not> prefix path q}) \<and>
    {q \<in> fs. \<not> prefix path q} \<subseteq> fs' \<and> fs' \<subseteq> fs"
proof -
  let ?ps = "ftw_depth path t"
  have ps: "{q \<in> fs. prefix path q} = set ?ps" using assms(2) by (simp add: is_tree_def)
  obtain r where r: "nftw (rmall_cb denied) ?ps fs = (r, fs')" "rc = (if r \<noteq> 0 then QV_ERR_FILE_IO else QV_SUCCESS)"
    using assms(3) by (auto simp: qvi_rmall_def split: prod.splits)
  have sub: "fs' \<subseteq> fs" "fs - fs' \<subseteq> set ?ps" using nftw_removes [OF r(1)] by auto
  have rest: "{q \<in> fs. \<not> prefix path q} \<subseteq> fs'" using sub(2) ps by blast
  show ?thesis
  proof (cases "\<exists>q \<in> fs. prefix path q \<and> denied q")
    case True
    then obtain q where q: "q \<in> set ?ps" "denied q" using ps by blast
    have "nftw (rmall_cb denied) qs fs \<noteq> (0, gs)" if "q \<in> set qs" for qs fs gs
      using that q(2) by (induction qs arbitrary: fs) (auto simp: rmall_cb_def split: if_splits)
    then have "r \<noteq> 0" using r(1) q(1) by blast
    then show ?thesis using True r(2) rest sub(1) by simp
  next
    case False
    then have "nftw (rmall_cb denied) ?ps fs = (0, fs - set ?ps)" using ps assms(1,2) by (intro nftw_tree) auto
    then show ?thesis using False r rest sub(1) ps by auto
  qed
qed

section \<open>Witness\<close>

theorem rmall_removes_tree_witness:
  "qvi_rmall (\<lambda>q. False) [''tmp'', ''s''] (Some (Dir [(''hwtopo'', File), (''d'', Dir [(''x'', File)])]))
     {[''tmp''], [''tmp'', ''s''], [''tmp'', ''s'', ''hwtopo''], [''tmp'', ''s'', ''d''], [''tmp'', ''s'', ''d'', ''x''], [''tmp'', ''other'']}
   = (QV_SUCCESS, {[''tmp''], [''tmp'', ''other'']})"
proof -
  let ?fs = "{[''tmp''], [''tmp'', ''s''], [''tmp'', ''s'', ''hwtopo''], [''tmp'', ''s'', ''d''], [''tmp'', ''s'', ''d'', ''x''], [''tmp'', ''other'']}"
  let ?t = "Dir [(''hwtopo'', File), (''d'', Dir [(''x'', File)])]"
  have tree: "is_tree [''tmp'', ''s''] ?t ?fs" by (auto simp: is_tree_def)
  obtain rc fs' where run: "qvi_rmall (\<lambda>q. False) [''tmp'', ''s''] (Some ?t) ?fs = (rc, fs')" by fastforce
  have "{q \<in> ?fs. \<not> prefix [''tmp'', ''s''] q} = {[''tmp''], [''tmp'', ''other'']}" by auto
  with rmall_removes_tree [OF _ tree run] run show ?thesis by simp
qed

end
