(* ===== verification/QV_Log.thy ===== *)
theory QV_Log
  imports QV_Prelude
begin

text \<open>
  The loggers (\<^verbatim>\<open>qvi-log.cc\<close>, \<^verbatim>\<open>qvi-log.h\<close>): eight named loggers of spdlog, and the switch of the console
  loggers to the system log that the daemon makes when it detaches. What a log call prints is left out.

  spdlog is a parameter over a state of any type: creating a logger under a name, and dropping a name from its
  registry. Its documentation says that a name can be registered only once (\<open>registry_laws\<close>).
\<close>

section \<open>spdlog\<close>

datatype log_sink = Stdout | Stderr | Syslog

datatype log_level = Lv_debug | Lv_info | Lv_warn | Lv_err

text \<open>A logger with its own pattern, or with the global one (\<open>None\<close>).\<close>

record logger =
  lg_name :: string
  lg_sink :: log_sink
  lg_level :: log_level
  lg_pattern :: "string option"
  lg_flush_on :: log_level

text \<open>\<open>spd_make\<close>: the new registry, \<open>None\<close> when spdlog throws.\<close>

record 'r spdlog =
  spd_make :: "log_sink \<Rightarrow> string \<Rightarrow> 'r \<Rightarrow> 'r option"
  spd_drop :: "string \<Rightarrow> 'r \<Rightarrow> 'r"

definition registry_laws :: "'r spdlog \<Rightarrow> ('r \<Rightarrow> string set) \<Rightarrow> bool" where
  "registry_laws L names \<longleftrightarrow>
     (\<forall>k n r. n \<in> names r \<longrightarrow> spd_make L k n r = None) \<and>
     (\<forall>k n r. n \<notin> names r \<longrightarrow> (\<exists>r'. spd_make L k n r = Some r' \<and> names r' = insert n (names r))) \<and>
     (\<forall>n r. names (spd_drop L n r) = names r - {n})"

section \<open>The loggers\<close>

record qvi_logger =
  m_console_info :: logger
  m_console_error :: logger
  m_console_warn :: logger
  m_console_debug :: logger
  m_syslog_info :: logger
  m_syslog_error :: logger
  m_syslog_warn :: logger
  m_syslog_debug :: logger

text \<open>Creating a logger and setting its level, its pattern if any, and the level at which it is flushed.\<close>

definition make_logger :: "'r spdlog \<Rightarrow> log_sink \<Rightarrow> string \<Rightarrow> log_level \<Rightarrow> string option \<Rightarrow> ('r, logger) st_op" where
  "make_logger L sink n level pattern r =
     (case spd_make L sink n r of
        None \<Rightarrow> (Inl StdExn, r)
      | Some r' \<Rightarrow> (Inr \<lparr>lg_name = n, lg_sink = sink, lg_level = level, lg_pattern = pattern, lg_flush_on = level\<rparr>, r'))"

definition qvi_logger_new :: "'r spdlog \<Rightarrow> ('r, qvi_logger) st_op" where
  "qvi_logger_new L =
     sbind (make_logger L Stdout ''console_info'' Lv_info (Some ''%v'')) (\<lambda>ci.
     sbind (make_logger L Stderr ''console_warn'' Lv_warn (Some ''%v'')) (\<lambda>cw.
     sbind (make_logger L Stderr ''console_error'' Lv_err None) (\<lambda>ce.
     sbind (make_logger L Stderr ''console_debug'' Lv_debug (Some ''[%H:%M:%S.%e pid=%P tid=%t] %v'')) (\<lambda>cd.
     sbind (make_logger L Syslog ''syslog_info'' Lv_info None) (\<lambda>si.
     sbind (make_logger L Syslog ''syslog_warn'' Lv_warn None) (\<lambda>sw.
     sbind (make_logger L Syslog ''syslog_error'' Lv_err None) (\<lambda>se.
     sbind (make_logger L Syslog ''syslog_debug'' Lv_debug None) (\<lambda>sd.
       sret \<lparr>m_console_info = ci, m_console_error = ce, m_console_warn = cw, m_console_debug = cd,
             m_syslog_info = si, m_syslog_error = se, m_syslog_warn = sw, m_syslog_debug = sd\<rparr>))))))))"

definition console_to_syslog :: "'r spdlog \<Rightarrow> qvi_logger \<Rightarrow> ('r, qvi_logger) st_op" where
  "console_to_syslog L lg r =
     (let r = spd_drop L (lg_name (m_console_info lg)) r;
          r = spd_drop L (lg_name (m_console_warn lg)) r;
          r = spd_drop L (lg_name (m_console_error lg)) r;
          r = spd_drop L (lg_name (m_console_debug lg)) r
      in (sbind (make_logger L Syslog ''consys_info'' Lv_info (Some ''%v'')) (\<lambda>ci.
          sbind (make_logger L Syslog ''consys_warn'' Lv_warn None) (\<lambda>cw.
          sbind (make_logger L Syslog ''consys_error'' Lv_err None) (\<lambda>ce.
          sbind (make_logger L Syslog ''consys_debug'' Lv_debug None) (\<lambda>cd.
            sret (lg\<lparr>m_console_info := ci, m_console_warn := cw, m_console_error := ce, m_console_debug := cd\<rparr>)))))) r)"

text \<open>The switch, made any number of times.\<close>

fun switch_times :: "'r spdlog \<Rightarrow> nat \<Rightarrow> qvi_logger \<Rightarrow> ('r, qvi_logger) st_op" where
  "switch_times L 0 lg = sret lg"
| "switch_times L (Suc n) lg = sbind (console_to_syslog L lg) (switch_times L n)"

section \<open>Lemmas\<close>

definition console_loggers :: "qvi_logger \<Rightarrow> logger list" where
  "console_loggers lg = [m_console_info lg, m_console_warn lg, m_console_error lg, m_console_debug lg]"

definition syslog_loggers :: "qvi_logger \<Rightarrow> logger list" where
  "syslog_loggers lg = [m_syslog_info lg, m_syslog_warn lg, m_syslog_error lg, m_syslog_debug lg]"

definition consys_names :: "string list" where
  "consys_names = [''consys_info'', ''consys_warn'', ''consys_error'', ''consys_debug'']"

text \<open>The registry holds exactly the names of the eight loggers, and those of others (\<open>base\<close>; spdlog registers a
  default logger of its own).\<close>

definition registered :: "('r \<Rightarrow> string set) \<Rightarrow> string set \<Rightarrow> qvi_logger \<Rightarrow> 'r \<Rightarrow> bool" where
  "registered names base lg r \<longleftrightarrow> names r = base \<union> lg_name ` set (console_loggers lg @ syslog_loggers lg)"

definition own_names :: "string list" where
  "own_names = [''console_info'', ''console_warn'', ''console_error'', ''console_debug'',
     ''syslog_info'', ''syslog_warn'', ''syslog_error'', ''syslog_debug''] @ consys_names"

text \<open>The registry after a logger was created.\<close>

definition after :: "'r spdlog \<Rightarrow> log_sink \<Rightarrow> string \<Rightarrow> 'r \<Rightarrow> 'r" where
  "after L k n r = the (spd_make L k n r)"

lemma registry_lawsD:
  assumes "registry_laws L names"
  shows "n \<notin> names r \<Longrightarrow> spd_make L k n r = Some (after L k n r)"
    and "n \<notin> names r \<Longrightarrow> names (after L k n r) = insert n (names r)"
    and "names (spd_drop L n r) = names r - {n}"
proof -
  show "spd_make L k n r = Some (after L k n r)" "names (after L k n r) = insert n (names r)" if fresh: "n \<notin> names r"
  proof -
    obtain r' where "spd_make L k n r = Some r'" "names r' = insert n (names r)"
      using assms [unfolded registry_laws_def, THEN conjunct2, THEN conjunct1] fresh by blast
    then show "spd_make L k n r = Some (after L k n r)" "names (after L k n r) = insert n (names r)" by (simp_all add: after_def)
  qed
  show "names (spd_drop L n r) = names r - {n}" using assms unfolding registry_laws_def by blast
qed

lemmas logger_simps = make_logger_def sbind_def sret_def registered_def console_loggers_def syslog_loggers_def consys_names_def

lemma logger_new_ok:
  assumes laws: "registry_laws L names" and base: "names r = base" "base \<inter> set own_names = {}"
  shows "\<exists>lg r'. qvi_logger_new L r = (Inr lg, r') \<and> registered names base lg r' \<and> map lg_sink (console_loggers lg) = [Stdout, Stderr, Stderr, Stderr] \<and>
    map lg_sink (syslog_loggers lg) = replicate 4 Syslog \<and> map lg_level (console_loggers lg) = [Lv_info, Lv_warn, Lv_err, Lv_debug] \<and>
    (base \<union> set (map lg_name (syslog_loggers lg))) \<inter> set consys_names = {} \<and>
    (base \<union> set (map lg_name (syslog_loggers lg))) \<inter> set (map lg_name (console_loggers lg)) = {}"
proof -
  have "n \<notin> base" if "n \<in> set own_names" for n using that base(2) by blast
  then show ?thesis
    by (simp add: qvi_logger_new_def registry_lawsD [OF laws] base(1) logger_simps own_names_def insert_commute numeral_eq_Suc Int_Un_distrib2)
qed

lemma console_to_syslog_ok:
  assumes laws: "registry_laws L names" and "registered names base lg r"
    and "(base \<union> set (map lg_name (syslog_loggers lg))) \<inter> set consys_names = {}"
    and "(base \<union> set (map lg_name (syslog_loggers lg))) \<inter> set (map lg_name (console_loggers lg)) = {}"
  shows "\<exists>lg' r'. console_to_syslog L lg r = (Inr lg', r') \<and> registered names base lg' r' \<and> syslog_loggers lg' = syslog_loggers lg \<and>
    map lg_name (console_loggers lg') = consys_names \<and> map lg_sink (console_loggers lg') = replicate 4 Syslog \<and>
    map lg_level (console_loggers lg') = [Lv_info, Lv_warn, Lv_err, Lv_debug]"
proof -
  let ?r = "spd_drop L (lg_name (m_console_debug lg)) (spd_drop L (lg_name (m_console_error lg)) (spd_drop L (lg_name (m_console_warn lg))
     (spd_drop L (lg_name (m_console_info lg)) r)))"
  have "names r = set (map lg_name (console_loggers lg)) \<union> (base \<union> set (map lg_name (syslog_loggers lg)))"
    using assms(2) by (auto simp: registered_def)
  moreover have "names ?r = names r - set (map lg_name (console_loggers lg))" by (auto simp: registry_lawsD [OF laws] console_loggers_def)
  ultimately have names: "names ?r = base \<union> set (map lg_name (syslog_loggers lg))" using assms(4) by blast
  define r0 where "r0 = ?r"
  have free: "n \<notin> names r0" if "n \<in> set consys_names" for n using that assms(3) names by (auto simp: r0_def)
  have "console_to_syslog L lg r = (Inr (lg\<lparr>
      m_console_info := \<lparr>lg_name = ''consys_info'', lg_sink = Syslog, lg_level = Lv_info, lg_pattern = Some ''%v'', lg_flush_on = Lv_info\<rparr>,
      m_console_warn := \<lparr>lg_name = ''consys_warn'', lg_sink = Syslog, lg_level = Lv_warn, lg_pattern = None, lg_flush_on = Lv_warn\<rparr>,
      m_console_error := \<lparr>lg_name = ''consys_error'', lg_sink = Syslog, lg_level = Lv_err, lg_pattern = None, lg_flush_on = Lv_err\<rparr>,
      m_console_debug := \<lparr>lg_name = ''consys_debug'', lg_sink = Syslog, lg_level = Lv_debug, lg_pattern = None, lg_flush_on = Lv_debug\<rparr>\<rparr>),
      after L Syslog ''consys_debug'' (after L Syslog ''consys_error'' (after L Syslog ''consys_warn'' (after L Syslog ''consys_info'' r0))))"
    using free by (simp add: console_to_syslog_def Let_def registry_lawsD [OF laws] make_logger_def sbind_def sret_def consys_names_def flip: r0_def)
  moreover have "names (after L Syslog ''consys_debug'' (after L Syslog ''consys_error'' (after L Syslog ''consys_warn'' (after L Syslog ''consys_info'' r0)))) =
      base \<union> set consys_names \<union> set (map lg_name (syslog_loggers lg))"
    using free names [folded r0_def] by (auto simp: registry_lawsD [OF laws] consys_names_def)
  ultimately show ?thesis
    by (simp add: registered_def console_loggers_def syslog_loggers_def consys_names_def numeral_eq_Suc) (simp add: insert_commute Un_insert_left Un_insert_right)
qed

lemma switch_times_ok:
  assumes "registry_laws L names" "registered names base lg r" "map lg_level (console_loggers lg) = [Lv_info, Lv_warn, Lv_err, Lv_debug]"
    and "(base \<union> set (map lg_name (syslog_loggers lg))) \<inter> set consys_names = {}"
    and "(base \<union> set (map lg_name (syslog_loggers lg))) \<inter> set (map lg_name (console_loggers lg)) = {}"
  shows "\<exists>lg' r'. switch_times L n lg r = (Inr lg', r') \<and> registered names base lg' r' \<and> map lg_level (console_loggers lg') = [Lv_info, Lv_warn, Lv_err, Lv_debug] \<and>
    syslog_loggers lg' = syslog_loggers lg \<and> (n = 0 \<longrightarrow> lg' = lg) \<and> (0 < n \<longrightarrow> map lg_sink (console_loggers lg') = replicate 4 Syslog)"
  using assms(2-5)
proof (induction n arbitrary: lg r)
  case (Suc n)
  obtain lg1 r2 where sw: "console_to_syslog L lg r = (Inr lg1, r2)" "registered names base lg1 r2" "syslog_loggers lg1 = syslog_loggers lg"
    "map lg_name (console_loggers lg1) = consys_names" "map lg_sink (console_loggers lg1) = replicate 4 Syslog"
    "map lg_level (console_loggers lg1) = [Lv_info, Lv_warn, Lv_err, Lv_debug]"
    using console_to_syslog_ok [OF assms(1) Suc.prems(1,3,4)] by (elim exE conjE) (rule that)
  have free1: "(base \<union> set (map lg_name (syslog_loggers lg1))) \<inter> set consys_names = {}" using sw(3) Suc.prems(3) by simp
  have "(base \<union> set (map lg_name (syslog_loggers lg1))) \<inter> set (map lg_name (console_loggers lg1)) = {}" unfolding sw(4) by (rule free1)
  from Suc.IH [OF sw(2,6) free1 this] obtain lg' r' where "switch_times L n lg1 r2 = (Inr lg', r')" "registered names base lg' r'"
    "map lg_level (console_loggers lg') = [Lv_info, Lv_warn, Lv_err, Lv_debug]" "syslog_loggers lg' = syslog_loggers lg1"
    "n = 0 \<longrightarrow> lg' = lg1" "0 < n \<longrightarrow> map lg_sink (console_loggers lg') = replicate 4 Syslog"
    by (elim exE conjE) (rule that)
  then show ?case using sw(1,3,5) by (cases n) (simp_all add: sbind_def)
qed (simp add: sret_def)

section \<open>Properties\<close>

text \<open>Switching the console loggers to the system log. If no other logger uses one of the names, the loggers are created and
  the switch can be made any number of times without an exception of spdlog; as soon as it was made once, every
  message of every level goes to the system log, the levels are those of before, and the registry holds exactly
  the eight loggers in use besides those of others.\<close>

theorem console_switch_repeatable:
  assumes "registry_laws L names" "names r = base" "base \<inter> set own_names = {}"
  shows "\<exists>lg r'. sbind (qvi_logger_new L) (switch_times L n) r = (Inr lg, r') \<and> registered names base lg r' \<and>
    map lg_level (console_loggers lg) = [Lv_info, Lv_warn, Lv_err, Lv_debug] \<and>
    (0 < n \<longrightarrow> lg_sink ` set (console_loggers lg @ syslog_loggers lg) = {Syslog})"
proof -
  obtain lg r1 where new: "qvi_logger_new L r = (Inr lg, r1)" and reg: "registered names base lg r1"
    and sinks: "map lg_sink (syslog_loggers lg) = replicate 4 Syslog" and levels: "map lg_level (console_loggers lg) = [Lv_info, Lv_warn, Lv_err, Lv_debug]"
    and free: "(base \<union> set (map lg_name (syslog_loggers lg))) \<inter> set consys_names = {}"
      "(base \<union> set (map lg_name (syslog_loggers lg))) \<inter> set (map lg_name (console_loggers lg)) = {}"
    using logger_new_ok [OF assms] by (elim exE conjE) (rule that)
  have "\<exists>lg' r'. switch_times L n lg r1 = (Inr lg', r') \<and> registered names base lg' r' \<and> map lg_level (console_loggers lg') = [Lv_info, Lv_warn, Lv_err, Lv_debug] \<and>
      syslog_loggers lg' = syslog_loggers lg \<and> (n = 0 \<longrightarrow> lg' = lg) \<and> (0 < n \<longrightarrow> map lg_sink (console_loggers lg') = replicate 4 Syslog)"
    using reg levels free by (intro switch_times_ok [OF assms(1)])
  then obtain lg' r' where "switch_times L n lg r1 = (Inr lg', r')" "registered names base lg' r'"
    "map lg_level (console_loggers lg') = [Lv_info, Lv_warn, Lv_err, Lv_debug]" "syslog_loggers lg' = syslog_loggers lg"
    "0 < n \<longrightarrow> map lg_sink (console_loggers lg') = replicate 4 Syslog"
      by (elim exE conjE) (rule that)
  moreover have "lg_sink ` set (console_loggers lg' @ syslog_loggers lg') = {Syslog}"
    if "map lg_sink (console_loggers lg') = replicate 4 Syslog" "map lg_sink (syslog_loggers lg') = replicate 4 Syslog"
    using arg_cong [OF that(1), of set] arg_cong [OF that(2), of set] by (simp add: image_Un)
  ultimately show ?thesis using new sinks by (simp add: sbind_def)
qed

section \<open>Witness\<close>

definition demo_spdlog :: "string set spdlog" where
  "demo_spdlog = \<lparr>spd_make = \<lambda>k n r. if n \<in> r then None else Some (insert n r), spd_drop = \<lambda>n r. r - {n}\<rparr>"

theorem console_switch_repeatable_witness:
  "\<exists>lg r'. sbind (qvi_logger_new demo_spdlog) (switch_times demo_spdlog 2) {''''} = (Inr lg, r') \<and> lg_sink (m_console_info lg) = Syslog"
proof -
  have laws: "registry_laws demo_spdlog (\<lambda>r. r)" by (auto simp: registry_laws_def demo_spdlog_def)
  obtain lg r' where "sbind (qvi_logger_new demo_spdlog) (switch_times demo_spdlog 2) {''''} = (Inr lg, r')"
    "lg_sink ` set (console_loggers lg @ syslog_loggers lg) = {Syslog}"
    using console_switch_repeatable [OF laws refl, of "{''''}" 2] by (auto simp: own_names_def consys_names_def)
  then show ?thesis by (auto simp: console_loggers_def)
qed

end
