(* ===== verification/QV_Log_Calls.thy ===== *)
theory QV_Log_Calls
  imports QV_Log QV_Hwloc
begin

text \<open>
  Log calls (\<^verbatim>\<open>qvi-log.cc\<close>, \<^verbatim>\<open>qvi-log.h\<close>): the one object that holds the loggers, which the first call creates, its
  accessors, and the macros through which all other code logs. Where a message goes is decided by the logger it is given
  to; what spdlog does with it is the parameter \<open>spd_log\<close>. Formatting is done by spdlog too: a message is the string that results.
\<close>

section \<open>The logger object\<close>

record 'r log_state =
  ls_spd :: 'r
  ls_logger :: "qvi_logger option"

type_synonym 'r spd_log = "logger \<Rightarrow> log_level \<Rightarrow> string \<Rightarrow> 'r \<Rightarrow> 'r"

text \<open>A local static object: an exception of its constructor leaves it to be made by a later call.\<close>

definition the_qvi_logger :: "'r spdlog \<Rightarrow> ('r log_state, qvi_logger) st_op" where
  "the_qvi_logger L s =
     (case ls_logger s of
        Some lg \<Rightarrow> (Inr lg, s)
      | None \<Rightarrow>
          (case qvi_logger_new L (ls_spd s) of
             (Inl f, r) \<Rightarrow> (Inl f, s\<lparr>ls_spd := r\<rparr>)
           | (Inr lg, r) \<Rightarrow> (Inr lg, \<lparr>ls_spd = r, ls_logger = Some lg\<rparr>)))"

definition qvi_logger_delete :: "('r \<Rightarrow> 'r) \<Rightarrow> 'r log_state \<Rightarrow> 'r log_state" where
  "qvi_logger_delete shutdown s = \<lparr>ls_spd = shutdown (ls_spd s), ls_logger = None\<rparr>"

text \<open>The assignment operator ignores its argument.\<close>

definition qvi_logger_assign :: "'r spdlog \<Rightarrow> qvi_logger \<Rightarrow> ('r log_state, qvi_logger) st_op" where
  "qvi_logger_assign L other = the_qvi_logger L"

definition console_info :: "'r spdlog \<Rightarrow> ('r log_state, logger) st_op" where
  "console_info L = sbind (the_qvi_logger L) (\<lambda>lg. sret (m_console_info lg))"

definition console_warn :: "'r spdlog \<Rightarrow> ('r log_state, logger) st_op" where
  "console_warn L = sbind (the_qvi_logger L) (\<lambda>lg. sret (m_console_warn lg))"

definition console_error :: "'r spdlog \<Rightarrow> ('r log_state, logger) st_op" where
  "console_error L = sbind (the_qvi_logger L) (\<lambda>lg. sret (m_console_error lg))"

definition console_debug :: "'r spdlog \<Rightarrow> ('r log_state, logger) st_op" where
  "console_debug L = sbind (the_qvi_logger L) (\<lambda>lg. sret (m_console_debug lg))"

definition syslog_info :: "'r spdlog \<Rightarrow> ('r log_state, logger) st_op" where
  "syslog_info L = sbind (the_qvi_logger L) (\<lambda>lg. sret (m_syslog_info lg))"

definition syslog_warn :: "'r spdlog \<Rightarrow> ('r log_state, logger) st_op" where
  "syslog_warn L = sbind (the_qvi_logger L) (\<lambda>lg. sret (m_syslog_warn lg))"

definition syslog_error :: "'r spdlog \<Rightarrow> ('r log_state, logger) st_op" where
  "syslog_error L = sbind (the_qvi_logger L) (\<lambda>lg. sret (m_syslog_error lg))"

definition syslog_debug :: "'r spdlog \<Rightarrow> ('r log_state, logger) st_op" where
  "syslog_debug L = sbind (the_qvi_logger L) (\<lambda>lg. sret (m_syslog_debug lg))"

text \<open>The switch acts on the one object.\<close>

definition the_console_to_syslog :: "'r spdlog \<Rightarrow> ('r log_state, unit) st_op" where
  "the_console_to_syslog L =
     sbind (the_qvi_logger L) (\<lambda>lg s.
       case console_to_syslog L lg (ls_spd s) of
         (Inl f, r) \<Rightarrow> (Inl f, s\<lparr>ls_spd := r\<rparr>)
       | (Inr lg', r) \<Rightarrow> (Inr (), \<lparr>ls_spd = r, ls_logger = Some lg'\<rparr>))"

section \<open>The macros\<close>

fun level_num :: "log_level \<Rightarrow> nat" where
  "level_num Lv_debug = 1"
| "level_num Lv_info = 2"
| "level_num Lv_warn = 3"
| "level_num Lv_err = 4"

definition SPDLOG_ACTIVE_LEVEL :: "bool \<Rightarrow> log_level" where
  "SPDLOG_ACTIVE_LEVEL debug_mode = (if \<not> debug_mode then Lv_info else Lv_debug)"

text \<open>A macro of spdlog: a level below the active one is compiled to nothing.\<close>

definition SPDLOG_LOGGER_CALL ::
  "bool \<Rightarrow> 'r spd_log \<Rightarrow> ('r log_state, logger) st_op \<Rightarrow> log_level \<Rightarrow> string \<Rightarrow> ('r log_state, unit) st_op" where
  "SPDLOG_LOGGER_CALL debug_mode spd_log get level msg =
     (if level_num level < level_num (SPDLOG_ACTIVE_LEVEL debug_mode) then sret ()
      else sbind get (\<lambda>lg s. (Inr (), s\<lparr>ls_spd := spd_log lg level msg (ls_spd s)\<rparr>)))"

definition qvi_log_info :: "bool \<Rightarrow> 'r spd_log \<Rightarrow> 'r spdlog \<Rightarrow> string \<Rightarrow> ('r log_state, unit) st_op" where
  "qvi_log_info dbg spd_log L = SPDLOG_LOGGER_CALL dbg spd_log (console_info L) Lv_info"

definition qvi_log_warn :: "bool \<Rightarrow> 'r spd_log \<Rightarrow> 'r spdlog \<Rightarrow> string \<Rightarrow> ('r log_state, unit) st_op" where
  "qvi_log_warn dbg spd_log L = SPDLOG_LOGGER_CALL dbg spd_log (console_warn L) Lv_warn"

definition qvi_log_error :: "bool \<Rightarrow> 'r spd_log \<Rightarrow> 'r spdlog \<Rightarrow> string \<Rightarrow> ('r log_state, unit) st_op" where
  "qvi_log_error dbg spd_log L = SPDLOG_LOGGER_CALL dbg spd_log (console_error L) Lv_err"

definition qvi_panic_log_error :: "bool \<Rightarrow> 'r spd_log \<Rightarrow> 'r spdlog \<Rightarrow> string \<Rightarrow> ('r log_state, unit) st_op" where
  "qvi_panic_log_error dbg spd_log L msg =
     sbind (SPDLOG_LOGGER_CALL dbg spd_log (console_error L) Lv_err msg) (\<lambda>u. sres (Inl Abort))"

definition qvi_log_debug :: "bool \<Rightarrow> 'r spd_log \<Rightarrow> 'r spdlog \<Rightarrow> string \<Rightarrow> ('r log_state, unit) st_op" where
  "qvi_log_debug dbg spd_log L = SPDLOG_LOGGER_CALL dbg spd_log (console_debug L) Lv_debug"

definition qvi_syslog_info :: "bool \<Rightarrow> 'r spd_log \<Rightarrow> 'r spdlog \<Rightarrow> string \<Rightarrow> ('r log_state, unit) st_op" where
  "qvi_syslog_info dbg spd_log L = SPDLOG_LOGGER_CALL dbg spd_log (syslog_info L) Lv_info"

definition qvi_syslog_warn :: "bool \<Rightarrow> 'r spd_log \<Rightarrow> 'r spdlog \<Rightarrow> string \<Rightarrow> ('r log_state, unit) st_op" where
  "qvi_syslog_warn dbg spd_log L = SPDLOG_LOGGER_CALL dbg spd_log (syslog_warn L) Lv_warn"

definition qvi_syslog_error :: "bool \<Rightarrow> 'r spd_log \<Rightarrow> 'r spdlog \<Rightarrow> string \<Rightarrow> ('r log_state, unit) st_op" where
  "qvi_syslog_error dbg spd_log L = SPDLOG_LOGGER_CALL dbg spd_log (syslog_error L) Lv_err"

definition qvi_panic_syslog_error :: "bool \<Rightarrow> 'r spd_log \<Rightarrow> 'r spdlog \<Rightarrow> string \<Rightarrow> ('r log_state, unit) st_op" where
  "qvi_panic_syslog_error dbg spd_log L msg =
     sbind (SPDLOG_LOGGER_CALL dbg spd_log (syslog_error L) Lv_err msg) (\<lambda>u. sres (Inl Abort))"

definition qvi_syslog_debug :: "bool \<Rightarrow> 'r spd_log \<Rightarrow> 'r spdlog \<Rightarrow> string \<Rightarrow> ('r log_state, unit) st_op" where
  "qvi_syslog_debug dbg spd_log L = SPDLOG_LOGGER_CALL dbg spd_log (syslog_debug L) Lv_debug"

section \<open>Reporting devices\<close>

text \<open>\<^verbatim>\<open>qvi_hwloc::devices_emit\<close>: the lines for one device, in the order in which they are logged, and the loop.\<close>

definition device_lines :: "qvi_hwloc_device \<Rightarrow> string \<Rightarrow> string list" where
  "device_lines dev cpusets =
     [''  Device Name: '' @ dev_name dev, ''  Device PCI Bus ID: '' @ pci_bus_id dev, ''  Device UUID: '' @ uuid dev,
      ''  Device affinity: '' @ cpusets, ''  Device Visible Device ID: '' @ std_to_string (dev_id dev) @ newline]"

fun emit_lines :: "(string \<Rightarrow> ('s, unit) st_op) \<Rightarrow> string list \<Rightarrow> ('s, unit) st_op" where
  "emit_lines log [] = sret ()"
| "emit_lines log (msg # msgs) = sbind (log msg) (\<lambda>u. emit_lines log msgs)"

fun emit_devices :: "(string \<Rightarrow> ('s, unit) st_op) \<Rightarrow> hwloc_lib \<Rightarrow> qvi_hwloc_dev_list \<Rightarrow> ('s, qv_rc) st_op" where
  "emit_devices log lib [] = sret QV_SUCCESS"
| "emit_devices log lib (dev # devs) =
     sbind (sres (bitmap_list_string lib (affinity dev))) (\<lambda>cpusets.
     sbind (emit_lines log (device_lines dev cpusets)) (\<lambda>u. emit_devices log lib devs))"

definition devices_emit ::
  "bool \<Rightarrow> 'r spd_log \<Rightarrow> 'r spdlog \<Rightarrow> hwloc_lib \<Rightarrow> qvi_hwloc \<Rightarrow> qv_hw_obj_type_t \<Rightarrow> ('r log_state, qv_rc) st_op" where
  "devices_emit dbg spd_log L lib h obj_type = emit_devices (qvi_log_info dbg spd_log L) lib (cget_dev_list (m_devmap h) obj_type)"

section \<open>Where messages go\<close>

text \<open>What spdlog documents: a logger passes a message of its own level or a higher one to its sink. \<open>written\<close> reads
  what was written so far.\<close>

definition spd_log_laws :: "'r spd_log \<Rightarrow> ('r \<Rightarrow> (log_sink \<times> log_level \<times> string) list) \<Rightarrow> bool" where
  "spd_log_laws spd_log written \<longleftrightarrow>
     (\<forall>lg level msg r. written (spd_log lg level msg r) =
        written r @ (if level_num (lg_level lg) \<le> level_num level then [(lg_sink lg, level, msg)] else []))"

text \<open>The object is made, with the level of every logger, and its console loggers write to the given sinks.\<close>

definition logger_made :: "('r \<Rightarrow> string set) \<Rightarrow> string set \<Rightarrow> log_sink list \<Rightarrow> 'r log_state \<Rightarrow> bool" where
  "logger_made names base sinks s \<longleftrightarrow>
     (\<exists>lg. ls_logger s = Some lg \<and> registered names base lg (ls_spd s) \<and> map lg_sink (console_loggers lg) = sinks \<and>
        map lg_level (console_loggers lg) = [Lv_info, Lv_warn, Lv_err, Lv_debug] \<and>
        (base \<union> set (map lg_name (syslog_loggers lg))) \<inter> set consys_names = {} \<and>
        (base \<union> set (map lg_name (syslog_loggers lg))) \<inter> set (map lg_name (console_loggers lg)) = {})"

lemma the_qvi_logger_fresh:
  assumes "registry_laws L names" "names (ls_spd s) = base" "base \<inter> set own_names = {}" "ls_logger s = None"
  shows "\<exists>lg s'. the_qvi_logger L s = (Inr lg, s') \<and> ls_logger s' = Some lg \<and> logger_made names base [Stdout, Stderr, Stderr, Stderr] s'"
proof -
  obtain lg r' where "qvi_logger_new L (ls_spd s) = (Inr lg, r')" and lg: "registered names base lg r'"
    "map lg_sink (console_loggers lg) = [Stdout, Stderr, Stderr, Stderr]" "map lg_level (console_loggers lg) = [Lv_info, Lv_warn, Lv_err, Lv_debug]"
    "(base \<union> set (map lg_name (syslog_loggers lg))) \<inter> set consys_names = {}"
    "(base \<union> set (map lg_name (syslog_loggers lg))) \<inter> set (map lg_name (console_loggers lg)) = {}"
    using logger_new_ok [OF assms(1-3)] by (elim exE conjE) (rule that)
  then have "the_qvi_logger L s = (Inr lg, \<lparr>ls_spd = r', ls_logger = Some lg\<rparr>)" using assms(4) by (simp add: the_qvi_logger_def)
  with lg show ?thesis by (simp add: logger_made_def)
qed

lemma the_qvi_logger_made: "ls_logger s = Some lg \<Longrightarrow> the_qvi_logger L s = (Inr lg, s)"
  by (simp add: the_qvi_logger_def)

lemma switch_made:
  assumes laws: "registry_laws L names" and "logger_made names base sinks s"
  shows "\<exists>s'. the_console_to_syslog L s = (Inr (), s') \<and> logger_made names base (replicate 4 Syslog) s'"
proof -
  obtain lg where lg: "ls_logger s = Some lg" "registered names base lg (ls_spd s)"
    "(base \<union> set (map lg_name (syslog_loggers lg))) \<inter> set consys_names = {}"
    "(base \<union> set (map lg_name (syslog_loggers lg))) \<inter> set (map lg_name (console_loggers lg)) = {}"
    using assms(2) unfolding logger_made_def by (elim exE conjE) (rule that)
  obtain lg' r' where "console_to_syslog L lg (ls_spd s) = (Inr lg', r')" and lg': "registered names base lg' r'" "syslog_loggers lg' = syslog_loggers lg"
    "map lg_name (console_loggers lg') = consys_names" "map lg_sink (console_loggers lg') = replicate 4 Syslog"
    "map lg_level (console_loggers lg') = [Lv_info, Lv_warn, Lv_err, Lv_debug]"
    using console_to_syslog_ok [OF laws lg(2-4)] by (elim exE conjE) (rule that)
  then have "the_console_to_syslog L s = (Inr (), \<lparr>ls_spd = r', ls_logger = Some lg'\<rparr>)"
    by (simp add: the_console_to_syslog_def sbind_def the_qvi_logger_made [OF lg(1)])
  moreover have "(base \<union> set (map lg_name (syslog_loggers lg'))) \<inter> set (map lg_name (console_loggers lg')) = {}"
    unfolding lg'(2,3) by (rule lg(3))
  ultimately show ?thesis using lg' lg(3) by (simp add: logger_made_def del: set_map)
qed

text \<open>Where the console macros write, for any state of the object.\<close>

lemma console_macros_write:
  assumes laws: "spd_log_laws spd_log written" and "logger_made names base [ki, kw, ke, kd] s"
  shows "\<exists>s'. qvi_log_info dbg spd_log L msg s = (Inr (), s') \<and> written (ls_spd s') = written (ls_spd s) @ [(ki, Lv_info, msg)]"
    and "\<exists>s'. qvi_log_warn dbg spd_log L msg s = (Inr (), s') \<and> written (ls_spd s') = written (ls_spd s) @ [(kw, Lv_warn, msg)]"
    and "\<exists>s'. qvi_log_error dbg spd_log L msg s = (Inr (), s') \<and> written (ls_spd s') = written (ls_spd s) @ [(ke, Lv_err, msg)]"
    and "\<exists>s'. qvi_panic_log_error dbg spd_log L msg s = (Inl Abort, s') \<and> written (ls_spd s') = written (ls_spd s) @ [(ke, Lv_err, msg)]"
    and "\<exists>s'. qvi_log_debug dbg spd_log L msg s = (Inr (), s') \<and>
      written (ls_spd s') = written (ls_spd s) @ (if dbg then [(kd, Lv_debug, msg)] else [])"
proof -
  obtain lg where lg: "ls_logger s = Some lg" "map lg_sink (console_loggers lg) = [ki, kw, ke, kd]"
    "map lg_level (console_loggers lg) = [Lv_info, Lv_warn, Lv_err, Lv_debug]"
    using assms(2) unfolding logger_made_def by (elim exE conjE) (rule that)
  note simps = sbind_def sret_def sres_def the_qvi_logger_made [OF lg(1)] SPDLOG_LOGGER_CALL_def SPDLOG_ACTIVE_LEVEL_def
    laws [unfolded spd_log_laws_def, rule_format]
  have f: "lg_sink (m_console_info lg) = ki" "lg_level (m_console_info lg) = Lv_info" "lg_sink (m_console_warn lg) = kw" "lg_level (m_console_warn lg) = Lv_warn"
    "lg_sink (m_console_error lg) = ke" "lg_level (m_console_error lg) = Lv_err" "lg_sink (m_console_debug lg) = kd" "lg_level (m_console_debug lg) = Lv_debug"
    using lg(2,3) by (simp_all add: console_loggers_def)
  show "\<exists>s'. qvi_log_info dbg spd_log L msg s = (Inr (), s') \<and> written (ls_spd s') = written (ls_spd s) @ [(ki, Lv_info, msg)]"
    by (simp add: qvi_log_info_def console_info_def simps f)
  show "\<exists>s'. qvi_log_warn dbg spd_log L msg s = (Inr (), s') \<and> written (ls_spd s') = written (ls_spd s) @ [(kw, Lv_warn, msg)]"
    by (simp add: qvi_log_warn_def console_warn_def simps f)
  show "\<exists>s'. qvi_log_error dbg spd_log L msg s = (Inr (), s') \<and> written (ls_spd s') = written (ls_spd s) @ [(ke, Lv_err, msg)]"
    by (simp add: qvi_log_error_def console_error_def simps f)
  show "\<exists>s'. qvi_panic_log_error dbg spd_log L msg s = (Inl Abort, s') \<and> written (ls_spd s') = written (ls_spd s) @ [(ke, Lv_err, msg)]"
    by (simp add: qvi_panic_log_error_def console_error_def simps f)
  show "\<exists>s'. qvi_log_debug dbg spd_log L msg s = (Inr (), s') \<and>
      written (ls_spd s') = written (ls_spd s) @ (if dbg then [(kd, Lv_debug, msg)] else [])"
    by (simp add: qvi_log_debug_def console_debug_def simps f)
qed

text \<open>A detached daemon loses no message: after the switch (the first use of the loggers, or a later one) an error is written to the
  system log before the process exits.\<close>

theorem panic_after_switch_reaches_syslog:
  assumes "registry_laws L names" "spd_log_laws spd_log written" "names (ls_spd s) = base" "base \<inter> set own_names = {}" "ls_logger s = None"
  shows "\<exists>s1 s2. the_console_to_syslog L s = (Inr (), s1) \<and> qvi_panic_log_error dbg spd_log L msg s1 = (Inl Abort, s2) \<and>
    written (ls_spd s2) = written (ls_spd s1) @ [(Syslog, Lv_err, msg)]"
proof -
  obtain lg s0 where s0: "the_qvi_logger L s = (Inr lg, s0)" "ls_logger s0 = Some lg" "logger_made names base [Stdout, Stderr, Stderr, Stderr] s0"
    using the_qvi_logger_fresh [OF assms(1,3-5)] by (elim exE conjE) (rule that)
  obtain s1 where s1: "the_console_to_syslog L s0 = (Inr (), s1)" "logger_made names base (replicate 4 Syslog) s1"
    using switch_made [OF assms(1) s0(3)] by (elim exE conjE) (rule that)
  have "the_console_to_syslog L s = the_console_to_syslog L s0"
    by (simp add: the_console_to_syslog_def sbind_def s0(1) the_qvi_logger_made [OF s0(2)])
  moreover have "logger_made names base [Syslog, Syslog, Syslog, Syslog] s1" using s1(2) by (simp add: numeral_eq_Suc)
  ultimately show ?thesis using s1(1) console_macros_write(4) [OF assms(2), of names base Syslog Syslog Syslog Syslog s1] by simp
qed

text \<open>The report of the devices of a type: for every device, in the order of the list, its five lines are written to the sink of the
  console logger, the texts of the CPU sets being those of hwloc.\<close>

lemma emit_lines_write:
  assumes laws: "spd_log_laws spd_log written" and "ls_logger s = Some lg" "lg_level (m_console_info lg) = Lv_info"
  shows "\<exists>s'. emit_lines (qvi_log_info dbg spd_log L) msgs s = (Inr (), s') \<and> ls_logger s' = Some lg \<and>
    written (ls_spd s') = written (ls_spd s) @ map (\<lambda>msg. (lg_sink (m_console_info lg), Lv_info, msg)) msgs"
  using assms(2)
proof (induction msgs arbitrary: s)
  case (Cons msg msgs)
  let ?s = "s\<lparr>ls_spd := spd_log (m_console_info lg) Lv_info msg (ls_spd s)\<rparr>"
  have "qvi_log_info dbg spd_log L msg s = (Inr (), ?s)"
    by (simp add: qvi_log_info_def SPDLOG_LOGGER_CALL_def SPDLOG_ACTIVE_LEVEL_def console_info_def sbind_def sret_def
        the_qvi_logger_made [OF Cons.prems])
  with Cons.IH [of ?s] Cons.prems laws assms(3) show ?case by (simp add: sbind_def spd_log_laws_def)
qed (simp add: sret_def)

theorem devices_emit_writes:
  assumes laws: "spd_log_laws spd_log written" and "ls_logger s = Some lg" "lg_level (m_console_info lg) = Lv_info"
    and "\<forall>dev \<in> set (cget_dev_list (m_devmap h) t). bitmap_list_asprintf lib (affinity dev) = Some (txt dev)"
  shows "\<exists>s'. devices_emit dbg spd_log L lib h t s = (Inr QV_SUCCESS, s') \<and>
    written (ls_spd s') = written (ls_spd s) @ map (\<lambda>msg. (lg_sink (m_console_info lg), Lv_info, msg))
      (concat (map (\<lambda>dev. device_lines dev (txt dev)) (cget_dev_list (m_devmap h) t)))"
proof -
  have "\<exists>s'. emit_devices (qvi_log_info dbg spd_log L) lib devs s = (Inr QV_SUCCESS, s') \<and>
      written (ls_spd s') = written (ls_spd s) @ map (\<lambda>msg. (lg_sink (m_console_info lg), Lv_info, msg))
        (concat (map (\<lambda>dev. device_lines dev (txt dev)) devs))"
    if "ls_logger s = Some lg" "\<forall>dev \<in> set devs. bitmap_list_asprintf lib (affinity dev) = Some (txt dev)" for devs s
    using that
  proof (induction devs arbitrary: s)
    case (Cons dev devs)
    obtain s1 where s1: "emit_lines (qvi_log_info dbg spd_log L) (device_lines dev (txt dev)) s = (Inr (), s1)" "ls_logger s1 = Some lg"
      "written (ls_spd s1) = written (ls_spd s) @ map (\<lambda>msg. (lg_sink (m_console_info lg), Lv_info, msg)) (device_lines dev (txt dev))"
      using emit_lines_write [OF laws Cons.prems(1) assms(3)] by meson
    with Cons.IH [OF s1(2)] Cons.prems(2) show ?case by (auto simp: sbind_def sres_def bitmap_list_string_def)
  qed (simp add: sret_def)
  from this [OF assms(2,4)] show ?thesis by (simp add: devices_emit_def)
qed

end
