(* ===== verification/QV_Format.thy ===== *)
theory QV_Format
  imports QV_Map QV_Discover
begin

text \<open>
  The texts that the mapping and the connection code print: mappings and contention scores
  (\<^verbatim>\<open>qvi-map.cc\<close>), and the two error banners of \<^verbatim>\<open>qvi-rmi.cc\<close>. The first two are written to a string stream
  whose write position is moved back over the separator after the last entry.
\<close>

section \<open>String streams\<close>

text \<open>A \<^verbatim>\<open>std::ostringstream\<close>: its contents and its write position. Writing overwrites what is there.\<close>

record oss =
  oss_str :: string
  oss_pos :: nat

definition oss_new :: oss where
  "oss_new = \<lparr>oss_str = [], oss_pos = 0\<rparr>"

definition oss_write :: "string \<Rightarrow> oss \<Rightarrow> oss" where
  "oss_write txt o1 =
     \<lparr>oss_str = take (oss_pos o1) (oss_str o1) @ txt @ drop (oss_pos o1 + length txt) (oss_str o1),
      oss_pos = oss_pos o1 + length txt\<rparr>"

text \<open>\<^verbatim>\<open>seekp(-2, std::ios_base::end)\<close>; a position before the beginning would be an error.\<close>

definition oss_seek_back2 :: "oss \<Rightarrow> oss" where
  "oss_seek_back2 o1 = (if length (oss_str o1) < 2 then o1 else o1\<lparr>oss_pos := length (oss_str o1) - 2\<rparr>)"

section \<open>Mappings\<close>

text \<open>The destinations of one source, with the flag that suppresses the first separator.\<close>

fun write_dests :: "bool \<Rightarrow> nat list \<Rightarrow> oss \<Rightarrow> oss" where
  "write_dests first [] o1 = o1"
| "write_dests first (dest # ds) o1 =
     write_dests False ds (oss_write (nat_to_string dest) (if \<not> first then oss_write '', '' o1 else o1))"

fun write_entries :: "qvi_map_t \<Rightarrow> oss \<Rightarrow> oss" where
  "write_entries [] o1 = o1"
| "write_entries ((src, ds) # m) o1 =
     write_entries m (oss_write (''}},'' @ newline)
       (write_dests True ds (oss_write '', {'' (oss_write (nat_to_string src) (oss_write ''  {'' o1)))))"

definition format_assignments :: "qvi_map_t \<Rightarrow> string" where
  "format_assignments assignments =
     (let o1 = oss_write (''{'' @ newline) (oss_write (''  Key: {src, {dsts}}'' @ newline) oss_new);
          o2 = write_entries assignments o1;
          o3 = (if assignments \<noteq> [] then oss_seek_back2 o2 else o2)
      in oss_str (oss_write (newline @ ''}'') o3))"

fun write_scores :: "(nat, nat) omap \<Rightarrow> nat list \<Rightarrow> oss \<Rightarrow> oss" where
  "write_scores contention [] o1 = o1"
| "write_scores contention (dst # dsts) o1 =
     write_scores contention dsts (oss_write (''},'' @ newline) (oss_write (nat_to_string (om_ref 0 dst contention))
       (oss_write '', '' (oss_write (nat_to_string dst) (oss_write ''  {'' o1)))))"

definition m_format_contention_scores :: "nat \<Rightarrow> (nat, nat) omap \<Rightarrow> string" where
  "m_format_contention_scores m_ndsts contention =
     (let o1 = oss_write (''{'' @ newline) (oss_write (''  Key: {dst, score}'' @ newline)
                 (oss_write (newline @ ''GS Destination contention scores:'' @ newline) oss_new));
          o2 = write_scores contention [0..<m_ndsts] o1;
          o3 = (if m_ndsts > 0 then oss_seek_back2 o2 else o2)
      in oss_str (oss_write (newline @ ''}'' @ newline) o3))"

section \<open>Banners\<close>

definition qvi_maxolen :: nat where
  "qvi_maxolen = 80"

definition qvi_rmi_conn_env_ers :: string where
  "qvi_rmi_conn_env_ers =
     qvi_sbanner (''Cannot determine connection information. Try setting the '' @
       ''following environment variable to an unused port number: '' @ QVI_ENV_PORT) qvi_maxolen"

definition qvi_rmi_discovery_ers :: "int \<Rightarrow> string" where
  "qvi_rmi_discovery_ers tid =
     qvi_sbanner (''A client could not determine its connection '' @ ''information. PID: '' @ std_to_string tid) qvi_maxolen"

section \<open>Lemmas\<close>

text \<open>Items with a separator between them.\<close>

fun sep_by :: "string \<Rightarrow> string list \<Rightarrow> string" where
  "sep_by sep [] = []"
| "sep_by sep [x] = x"
| "sep_by sep (x # y # xs) = x @ sep @ sep_by sep (y # xs)"

lemma sep_by_concat: "xs \<noteq> [] \<Longrightarrow> concat (map (\<lambda>x. x @ sep) xs) = sep_by sep xs @ sep"
  by (induction sep xs rule: sep_by.induct) auto

definition at_end :: "oss \<Rightarrow> bool" where
  "at_end o1 \<longleftrightarrow> oss_pos o1 = length (oss_str o1)"

lemma oss_write_end [simp]:
  "at_end o1 \<Longrightarrow> oss_str (oss_write txt o1) = oss_str o1 @ txt" "at_end o1 \<Longrightarrow> at_end (oss_write txt o1)" "at_end oss_new" "oss_str oss_new = []"
  by (simp_all add: at_end_def oss_write_def oss_new_def)

lemma write_dests_end:
  "at_end o1 \<Longrightarrow> at_end (write_dests first ds o1) \<and>
    oss_str (write_dests first ds o1) = oss_str o1 @ (if first \<or> ds = [] then [] else '', '') @ sep_by '', '' (map nat_to_string ds)"
proof (induction ds arbitrary: first o1)
  case (Cons d ds)
  let ?o = "oss_write (nat_to_string d) (if \<not> first then oss_write '', '' o1 else o1)"
  have "at_end ?o" using Cons.prems by simp
  from Cons.IH [OF this, of False] Cons.prems show ?case by (cases ds) simp_all
qed simp

text \<open>One entry.\<close>

definition entry_text :: "nat \<times> nat list \<Rightarrow> string" where
  "entry_text e = ''  {'' @ nat_to_string (fst e) @ '', {'' @ sep_by '', '' (map nat_to_string (snd e)) @ ''}}''"

lemma write_entries_end:
  "at_end o1 \<Longrightarrow> at_end (write_entries m o1) \<and> oss_str (write_entries m o1) = oss_str o1 @ concat (map (\<lambda>e. entry_text e @ '','' @ newline) m)"
  by (induction m o1 rule: write_entries.induct) (auto simp: write_dests_end entry_text_def)

definition score_text :: "(nat, nat) omap \<Rightarrow> nat \<Rightarrow> string" where
  "score_text contention dst = ''  {'' @ nat_to_string dst @ '', '' @ nat_to_string (om_ref 0 dst contention) @ ''}''"

lemma write_scores_end:
  "at_end o1 \<Longrightarrow> at_end (write_scores c ds o1) \<and> oss_str (write_scores c ds o1) = oss_str o1 @ concat (map (\<lambda>d. score_text c d @ '','' @ newline) ds)"
  by (induction c ds o1 rule: write_scores.induct) (auto simp: score_text_def)

text \<open>Overwriting the last separator by a text that is at least as long.\<close>

lemma overwrite_separator:
  assumes "at_end o1" "oss_str o1 = txt @ sep" "length sep = 2" "2 \<le> length new"
  shows "oss_str (oss_write new (oss_seek_back2 o1)) = txt @ new"
  using assms by (simp add: oss_write_def oss_seek_back2_def)

section \<open>Properties\<close>

text \<open>The printed form of a mapping and of the contention scores: the entries in ascending order, one per line,
  with a comma after every entry but the last (also when there is none).\<close>

theorem format_maps:
  "format_assignments m = ''  Key: {src, {dsts}}'' @ newline @ ''{'' @ newline @ sep_by ('','' @ newline) (map entry_text m) @ newline @ ''}'' \<and>
   m_format_contention_scores n c = newline @ ''GS Destination contention scores:'' @ newline @ ''  Key: {dst, score}'' @ newline @ ''{'' @ newline @
     sep_by ('','' @ newline) (map (score_text c) [0..<n]) @ newline @ ''}'' @ newline"
proof
  have nl: "length newline = 1" by simp
  show "format_assignments m = ''  Key: {src, {dsts}}'' @ newline @ ''{'' @ newline @ sep_by ('','' @ newline) (map entry_text m) @ newline @ ''}''"
  proof (cases "m = []")
    case False
    let ?o = "oss_write (''{'' @ newline) (oss_write (''  Key: {src, {dsts}}'' @ newline) oss_new)"
    have "at_end ?o" by simp
    from write_entries_end [OF this, of m] have "at_end (write_entries m ?o)"
      "oss_str (write_entries m ?o) = (oss_str ?o @ sep_by ('','' @ newline) (map entry_text m)) @ '','' @ newline"
      using sep_by_concat [of "map entry_text m" "'','' @ newline"] False by (simp_all add: comp_def)
    from overwrite_separator [OF this, of "newline @ ''}''"] show ?thesis
      using False nl by (simp add: format_assignments_def Let_def)
  qed (simp add: format_assignments_def)
  show "m_format_contention_scores n c = newline @ ''GS Destination contention scores:'' @ newline @ ''  Key: {dst, score}'' @ newline @ ''{'' @ newline @
     sep_by ('','' @ newline) (map (score_text c) [0..<n]) @ newline @ ''}'' @ newline"
  proof (cases "n = 0")
    case False
    let ?o = "oss_write (''{'' @ newline) (oss_write (''  Key: {dst, score}'' @ newline)
                 (oss_write (newline @ ''GS Destination contention scores:'' @ newline) oss_new))"
    have "at_end ?o" by simp
    from write_scores_end [OF this, of c "[0..<n]"] have "at_end (write_scores c [0..<n] ?o)"
      "oss_str (write_scores c [0..<n] ?o) = (oss_str ?o @ sep_by ('','' @ newline) (map (score_text c) [0..<n])) @ '','' @ newline"
      using sep_by_concat [of "map (score_text c) [0..<n]" "'','' @ newline"] False by (simp_all add: comp_def)
    from overwrite_separator [OF this, of "newline @ ''}'' @ newline"] show ?thesis
      using False nl by (simp add: m_format_contention_scores_def Let_def)
  qed (simp add: m_format_contention_scores_def)
qed

end
