(* ===== verification/QV_Subgroup.thy ===== *)
theory QV_Subgroup
  imports QV_Prelude
begin

text \<open>
  The declarations of \<^verbatim>\<open>qvi-subgroup.h\<close> for groups that have to form sub-groups by themselves: what a member knows of its
  sub-group, and the entry (colour, key and rank of a member) with the order in which entries are to be sorted. Sorted entries
  have the members of a sub-group side by side, in the order of their ranks in the sub-group. No other code of the repository uses
  them yet.
\<close>

record qvi_subgroup_info =
  sgi_ngroups :: int
  sgi_index :: int
  sgi_size :: int
  sgi_rank :: int

definition master_rank :: int where
  "master_rank = 0"

definition qvi_subgroup_info_new :: qvi_subgroup_info where
  "qvi_subgroup_info_new = \<lparr>sgi_ngroups = 0, sgi_index = 0, sgi_size = 0, sgi_rank = 0\<rparr>"

record qvi_subgroup_color_key_rank =
  ckr_color :: int
  ckr_key :: int
  ckr_rank :: int
  ckr_ncolors :: int

definition by_color_key_rank :: "qvi_subgroup_color_key_rank \<Rightarrow> qvi_subgroup_color_key_rank \<Rightarrow> bool" where
  "by_color_key_rank a b \<longleftrightarrow>
     ckr_color a < ckr_color b \<or>
     (ckr_color a = ckr_color b \<and> ckr_key a < ckr_key b) \<or>
     (ckr_color a = ckr_color b \<and> ckr_key a = ckr_key b \<and> ckr_rank a < ckr_rank b)"

interpretation ckr: compare by_color_key_rank
  by unfold_locales (auto simp: by_color_key_rank_def)

text \<open>After sorting, the colours ascend, so that the members of a sub-group are neighbours, and inside of a sub-group the keys
  ascend, with equal keys in the order of the ranks.\<close>

theorem sorted_subgroups:
  fixes xs
  defines "ys \<equiv> std_sort by_color_key_rank xs"
  assumes "i < j" "j < length ys"
  shows "ckr_color (ys ! i) \<le> ckr_color (ys ! j) \<and>
    (ckr_color (ys ! i) = ckr_color (ys ! j) \<longrightarrow> ckr_key (ys ! i) \<le> ckr_key (ys ! j) \<and>
      (ckr_key (ys ! i) = ckr_key (ys ! j) \<longrightarrow> ckr_rank (ys ! i) \<le> ckr_rank (ys ! j)))"
proof -
  have "\<not> by_color_key_rank (ys ! j) (ys ! i)"
    using ckr.std_sort_sorted [of xs] assms by (auto simp: sorted_wrt_iff_nth_less)
  then show ?thesis by (auto simp: by_color_key_rank_def)
qed

end
