(* ===== verification/Spec2Isabelle.thy ===== *)
theory Spec2Isabelle
  imports QV_Utils QV_Strings QV_Discover QV_Map QV_Solver QV_Matching QV_Hwloc QV_Hwpool QV_Hwsplit
    QV_Bbuff QV_Group QV_Rmi QV_Task QV_Session QV_Split QV_Scope QV_Daemon QV_Mpi QV_Mpi_Scope
    QV_Bitmap QV_Serial QV_Conn QV_Pthread QV_Threads QV_Files QV_Log_Calls QV_Format QV_Subgroup
begin

text \<open>
  \<^bold>\<open>quo-vadis: a verification development.\<close>

  quo-vadis partitions the hardware of a node among the processes and threads of a parallel program. A program
  obtains a \<^emph>\<open>scope\<close> (a group of tasks with a pool of hardware), splits it, and binds tasks to what they were
  given. The parts of the program, and how they interact:

  \<^item> A daemon (\<^verbatim>\<open>quo-vadisd.cc\<close>) loads the topology of the node, publishes it as files in a session directory
    and answers requests; it is found through its command line in \<^verbatim>\<open>/proc\<close>
    (\<^verbatim>\<open>qvi-utils.cc\<close>) or started by the library.
  \<^item> A client connects to the daemon (\<^verbatim>\<open>qvi-rmi.cc\<close>) with ZeroMQ messages that are packed in byte buffers
    (\<^verbatim>\<open>qvi-bbuff.cc\<close>), reads the topology (\<^verbatim>\<open>qvi-hwloc.cc\<close>) and asks the daemon to query and set the CPU
    bindings of its task (\<^verbatim>\<open>qvi-task.cc\<close>), which keeps them on a stack.
  \<^item> A group (\<^verbatim>\<open>qvi-group*.h\<close>, \<^verbatim>\<open>qvi-mpi.cc\<close>) is a process, the threads of a process, or processes of an
    MPI communicator; its members exchange values with gather, scatter, broadcast and barrier.
  \<^item> Splitting a scope (\<^verbatim>\<open>qvi-scope.cc\<close>, \<^verbatim>\<open>qvi-hwsplit.cc\<close>) gathers the requests of the members at a root,
    cuts the CPU set in pieces, maps the members to pieces with one of four policies (\<^verbatim>\<open>qvi-map.cc\<close>, among
    them a stable-marriage solver), distributes the devices of the pool (\<^verbatim>\<open>qvi-hwpool.cc\<close>), scatters the results and
    splits the group by the new colours.
  \<^item> The public calls (\<^verbatim>\<open>quo-vadis.cc\<close>, \<^verbatim>\<open>quo-vadis-thread.cc\<close>, \<^verbatim>\<open>quo-vadis-mpi.cc\<close>) check their arguments
    and turn exceptions into codes.

  \<^bold>\<open>Theories and the code they model.\<close>

  \<^item> \<open>QV_Prelude\<close>: return codes, failures (\<open>fail\<close>: a returned code, a thrown code, an exception of the standard library, an abort,
    undefined behaviour) and the result and state combinators; \<^verbatim>\<open>std::map\<close> and \<^verbatim>\<open>std::set\<close> as ascending lists;
    \<^verbatim>\<open>std::sort\<close>; the arithmetic of even distribution; machine widths.
  \<^item> \<open>QV_Utils\<close>, \<open>QV_Strings\<close>, \<open>QV_Discover\<close>, \<open>QV_Files\<close>: \<^verbatim>\<open>qvi-utils.cc\<close> and \<^verbatim>\<open>qvi-utils.h\<close>. The cache refines a
    recency list; numbers survive printing and parsing; a started daemon is found again; the retry loop is
    bounded; a directory tree is removed children first.
  \<^item> \<open>QV_Map\<close>, \<open>QV_Solver\<close>, \<open>QV_Matching\<close>, \<open>QV_Format\<close>: \<^verbatim>\<open>qvi-map.cc\<close>. The policies give total and balanced mappings; the solver
    ends, serves every source and is stable; the printed forms.
  \<^item> \<open>QV_Hwloc\<close>, \<open>QV_Bitmap\<close>, \<open>QV_Hwpool\<close>, \<open>QV_Serial\<close>: \<^verbatim>\<open>qvi-hwloc.cc\<close>, \<^verbatim>\<open>qvi-hwloc.h\<close>, \<^verbatim>\<open>qvi-hwpool.cc\<close>, \<^verbatim>\<open>qvi-hwpool.h\<close>. A CPU set is
    cut in disjoint pieces that cover it and differ by at most one unit; bitmap objects on a heap behave as
    values, which is how all other theories use them; pools contain no device twice and survive serialisation.
  \<^item> \<open>QV_Hwsplit\<close>, \<open>QV_Split\<close>: \<^verbatim>\<open>qvi-hwsplit.cc\<close> at the root, and for all members together through the collectives.
    Every member receives one of the pieces, members of one colour the same one, and errors are shared
    except where the code strands the members.
  \<^item> \<open>QV_Bbuff\<close>, \<open>QV_Group\<close>: \<^verbatim>\<open>qvi-bbuff.cc\<close>, \<^verbatim>\<open>qvi-coll.h\<close>, \<^verbatim>\<open>qvi-group*.h\<close>. Buffers keep their bytes; typed collectives deliver what
    was sent.
  \<^item> \<open>QV_Rmi\<close>, \<open>QV_Conn\<close>, \<open>QV_Task\<close>: \<^verbatim>\<open>qvi-rmi.cc\<close>, \<^verbatim>\<open>qvi-task.cc\<close>. Remote queries answer what the local ones would; the
    server loop ends on request only; contexts and sockets are released; the stack of bindings follows the
    pushes and pops.
  \<^item> \<open>QV_Session\<close>, \<open>QV_Threads\<close>: compositions. Many tasks at one server as a step relation: whatever the others do, a task
    is bound to the top of its own stack. Many threads on many thread groups (\<^verbatim>\<open>qvi-group-thread.h\<close>) as schedules of calls: the
    threads of a group have tasks of their own while it is the only one in use, and may not when it is not.
  \<^item> \<open>QV_Scope\<close>, \<open>QV_Pthread\<close>: \<^verbatim>\<open>qvi-scope.cc\<close>, \<^verbatim>\<open>quo-vadis.cc\<close>, \<^verbatim>\<open>quo-vadis-thread.cc\<close>, \<^verbatim>\<open>qvi-group-pthread.cc\<close>. The library as a store of
    groups and scopes; in every state that public calls can reach, a group's reference count is the number
    of its scopes. Thread creation hands over and frees its blocks.
  \<^item> \<open>QV_Mpi\<close>, \<open>QV_Mpi_Scope\<close>: \<^verbatim>\<open>qvi-mpi.cc\<close>, \<^verbatim>\<open>qvi-group-mpi.cc\<close>, \<^verbatim>\<open>quo-vadis-mpi.cc\<close>. One process of a job with its communicators and its
    table of groups; one daemon is started per node; the context frees every communicator; after a split the
    group of a process is the set of processes that got the same CPU set.
  \<^item> \<open>QV_Daemon\<close>, \<open>QV_Log\<close>, \<open>QV_Log_Calls\<close>, \<open>QV_Subgroup\<close>: \<^verbatim>\<open>quo-vadisd.cc\<close>, \<^verbatim>\<open>qvi-log.cc\<close>, \<^verbatim>\<open>qvi-log.h\<close>, \<^verbatim>\<open>qvi-subgroup.h\<close>. The
    daemon serves the port it was started for, and removes what it has created and published, and nothing else. Messages reach
    the sink of their logger. Sorted entries have sub-groups side by side.
  \<^item> This theory composes the daemon with the discovery of a client.

  \<^bold>\<open>Interfaces.\<close> Locales state what one part promises to another, and are interpreted on the model: ordered containers
  (\<open>assoc_container\<close>) and comparators (\<open>compare\<close>, \<open>total_compare\<close>), stores of devices (\<open>device_store\<close>, by the
  pool), collectives of a group (\<open>collectives\<close>), the service that sets affinities (\<open>affinity_service\<close>, by the client's
  stubs against the server, with and without a running server), and the transport of the split (\<open>value_transport\<close>, by MPI and by process groups).

  \<^bold>\<open>Parameters.\<close> Code that is not in the repository is an argument of the definitions that call it, and what is relied on is a
  named hypothesis that restates its documentation: hwloc (\<open>bitmap_laws\<close>, \<open>topology_laws\<close>, \<open>text_laws\<close>,
  \<open>mem_laws\<close>), the cereal archives (\<open>env_ok\<close>, \<open>sendable\<close>, \<open>transferable\<close>), ZeroMQ (\<open>zmq_laws\<close>; in \<open>QV_Rmi\<close> the results of sends,
  polls and receives), MPI (\<open>mpi_laws\<close>, \<open>mpi_comm_laws\<close>), spdlog (\<open>registry_laws\<close>, \<open>spd_log_laws\<close>), the scheduler (\<open>sched_laws\<close>), and the
  file system, environment and system calls of the operating system. Each property with such hypotheses is
  applied to a concrete instance in its witness.

  \<^bold>\<open>Loops and bounds.\<close> Loops over containers are folds that stop at the first failure (\<open>rfold\<close>). The proposal loop of the solver
  and the server's loop over its observed events are total functions with termination proofs, the latter with
  \<open>None\<close> for a server that is still waiting when the events end. The splitting of strings is a partial function
  (it can run forever). There is no fuel. \<^verbatim>\<open>size_t\<close> and \<^verbatim>\<open>int\<close> are natural numbers and integers with the
  wrap-around written out where the code depends on it (\<open>wrap64\<close>, \<open>wrap32\<close>, \<open>to_int32\<close>); bounds such as
  \<open>2 ^ 31\<close> in hypotheses are those under which the code's conversions to \<^verbatim>\<open>int\<close> are exact.

  \<^bold>\<open>Concurrency.\<close> The server handles one message at a time and a call of a task is one exchange with it, so that tasks
  interleave call by call (\<open>session_step\<close>). A thread group hands out tasks under its mutex, and the counter that all groups share is
  atomic, so that threads interleave call by call as well (\<open>run_tasks\<close>). Data races inside of a call are outside of the model.

  \<^bold>\<open>Not modelled.\<close> The Fortran modules, which are another language and forward to the C functions (the two functions that convert
  handles for them are in \<open>QV_Mpi\<close>); the usage and version texts; accessors that return a member; \<^verbatim>\<open>qvi_time\<close>, which reads the
  clock; the calls of the logging macros in the other components, which do not influence results. What is left of the headers are
  declarations of what the theories define.
\<close>

section \<open>Properties that span components\<close>



end
